(* ===== verification/Kernel_Prelude.thy ===== *)
theory Kernel_Prelude
  imports Main "HOL-Library.Word" "HOL-Library.Signed_Division"
begin

unbundle bit_operations_syntax

section \<open>Shared types, constants and lemmas of the kernel model\<close>

text \<open>
  The vocabulary every component theory uses: the machine types of the i686 target
  (\<open>unsigned char\<close>, \<open>uint16_t\<close>, \<open>uint32_t\<close> as words of their width, C's signed \<open>int\<close> as
  \<^typ>\<open>int\<close> where the code keeps it far from its limits and as a word read by \<open>sint\<close> where it
  does not), the constants of \<open>include/kernel/config.h\<close> and \<open>include/kernel/status.h\<close>, the
  byte-addressed physical memory with its little-endian 32-bit accesses, the ways a kernel
  operation can stop without returning (\<open>fault\<close>), and generic lemmas on lists and words.

  The collection \<open>kconfig\<close> holds the values of the configuration constants; proofs that
  need the numbers add it to the simplifier.
\<close>

named_theorems kconfig

type_synonym u8 = "8 word"
type_synonym u16 = "16 word"
type_synonym u32 = "32 word"

text \<open>Physical memory: one byte per 32-bit address.\<close>

type_synonym mem = "u32 \<Rightarrow> u8"

subsection \<open>Operations that do not return\<close>

text \<open>
  \<open>panic\<close> prints and spins for ever; a read or write through NULL or outside the object a
  pointer designates is undefined in C; an access to an unmapped page is an exception inside the
  kernel; a sum that leaves the range of \<open>int\<close> is undefined in C (\<open>Overflow\<close>, where a position is advanced);
  polling a device may go on for ever. All are values of the model, so that a theorem that
  an operation returns is a theorem that none of them happens.
\<close>

datatype fault = Panic string | NullDeref | OutOfBounds | PageFault | Overflow | Diverge

type_synonym 'a kresult = "fault + 'a"

definition kbind :: "'a kresult \<Rightarrow> ('a \<Rightarrow> 'b kresult) \<Rightarrow> 'b kresult" where
  "kbind r f = (case r of Inl e \<Rightarrow> Inl e | Inr x \<Rightarrow> f x)"

lemma kbind_simps [simp]:
  "kbind (Inl e) f = Inl e"
  "kbind (Inr x) f = f x"
  by (simp_all add: kbind_def)

lemma kbind_Inr_iff:
  "kbind r f = Inr y \<longleftrightarrow> (\<exists>x. r = Inr x \<and> f x = Inr y)"
  by (cases r) simp_all

subsection \<open>Configuration\<close>

definition VGA_WIDTH :: nat where [kconfig]: "VGA_WIDTH = 80"
definition VGA_HEIGHT :: nat where [kconfig]: "VGA_HEIGHT = 20"
definition KERNEL_CODE_SELECTOR :: u16 where [kconfig]: "KERNEL_CODE_SELECTOR = 0x08"
definition KERNEL_TOTAL_INTERRUPTS :: nat where [kconfig]: "KERNEL_TOTAL_INTERRUPTS = 256"
definition KERNEL_HEAP_SIZE_BYTES :: u32 where [kconfig]: "KERNEL_HEAP_SIZE_BYTES = 104857600"
definition KERNEL_HEAP_BLOCK_SIZE :: u32 where [kconfig]: "KERNEL_HEAP_BLOCK_SIZE = 4096"
definition KERNEL_HEAP_ADDRESS :: u32 where [kconfig]: "KERNEL_HEAP_ADDRESS = 0x01000000"
definition KERNEL_SECTOR_SIZE :: int where [kconfig]: "KERNEL_SECTOR_SIZE = 512"
definition KERNEL_MAX_PATH :: nat where [kconfig]: "KERNEL_MAX_PATH = 108"
definition KERNEL_MAX_FILE_DESCRIPTORS :: nat where [kconfig]: "KERNEL_MAX_FILE_DESCRIPTORS = 512"
definition KERNEL_PROGRAM_VIRTUAL_ADDRESS :: u32 where [kconfig]: "KERNEL_PROGRAM_VIRTUAL_ADDRESS = 0x400000"
definition KERNEL_MAX_PROCESSES :: nat where [kconfig]: "KERNEL_MAX_PROCESSES = 12"
definition KERNEL_MAX_ISR80H_COMMANDS :: nat where [kconfig]: "KERNEL_MAX_ISR80H_COMMANDS = 1024"
definition KERNEL_KEYBOARD_BUFFER_SIZE :: nat where [kconfig]: "KERNEL_KEYBOARD_BUFFER_SIZE = 1024"

text \<open>Status codes; the code returns them negated.\<close>

definition KERNEL_ALL_OK :: int where [kconfig]: "KERNEL_ALL_OK = 0"
definition EIO :: int where [kconfig]: "EIO = 1"
definition EINVAGS :: int where [kconfig]: "EINVAGS = 2"
definition ENOMEM :: int where [kconfig]: "ENOMEM = 3"
definition EBADPATH :: int where [kconfig]: "EBADPATH = 4"
definition EFSNOTUS :: int where [kconfig]: "EFSNOTUS = 5"
definition ERDONLY :: int where [kconfig]: "ERDONLY = 6"
definition ENOIMPL :: int where [kconfig]: "ENOIMPL = 7"
definition EISTKN :: int where [kconfig]: "EISTKN = 8"
definition EINFORMATS :: int where [kconfig]: "EINFORMATS = 9"

text \<open>
  Pointers double as error codes: \<open>ERROR\<close> casts a negative status to a pointer, \<open>IS_ERROR\<close>
  asks whether a pointer is negative when read as an \<open>int\<close>.
\<close>

definition ERROR :: "int \<Rightarrow> u32" where
  "ERROR v = word_of_int v"

definition ERROR_I :: "u32 \<Rightarrow> int" where
  "ERROR_I p = sint p"

definition IS_ERROR :: "u32 \<Rightarrow> bool" where
  "IS_ERROR p \<longleftrightarrow> ERROR_I p < 0"

subsection \<open>32-bit words as natural numbers\<close>

lemma unat_u32_less: "unat (x :: u32) < 4294967296"
  using unsigned_less [of x, where 'a = nat] by simp

lemma unat_mod_page: "unat (x mod 4096 :: u32) = unat x mod 4096"
  by (simp add: unat_mod_distrib)

lemma unat_div_page: "unat (x div 4096 :: u32) = unat x div 4096"
  by (simp add: unat_div_distrib)

lemma mod_page_0_iff: "(x :: u32) mod 4096 = 0 \<longleftrightarrow> unat x mod 4096 = 0"
  by (metis unat_eq_zero unat_mod_page)

lemma unat_of_nat_u32: "n < 4294967296 \<Longrightarrow> unat (of_nat n :: u32) = n"
  by (simp add: unat_of_nat take_bit_nat_eq_self)

lemma unat_of_nat_mod_u32: "unat (of_nat n :: u32) = n mod 4294967296"
  by (simp add: unat_of_nat take_bit_nat_def)

lemma of_nat_unat_u32: "of_nat (unat x) = (x :: u32)"
  by simp

lemma unat_eq_iff_u32: "unat (a :: u32) = unat b \<longleftrightarrow> a = b"
  by (metis of_nat_unat_u32)

lemma page_multiple:
  assumes "(p :: u32) mod 4096 = 0"
  obtains q where "unat p = 4096 * q"
  using assms by (auto simp: mod_page_0_iff)

lemma unat_in_region:
  "unat (x - p) < n \<Longrightarrow> unat p + n \<le> 4294967296 \<Longrightarrow> unat p \<le> unat x \<and> unat x < unat p + n"
  for x p :: u32
proof -
  assume a: "unat (x - p) < n" "unat p + n \<le> 4294967296"
  have "x = of_nat (unat (x - p) + unat p)" by simp
  then have "unat x = unat (of_nat (unat (x - p) + unat p) :: u32)" by (rule arg_cong)
  also have "\<dots> = unat (x - p) + unat p"
    by (rule unat_of_nat_u32) (use a in simp)
  finally show ?thesis using a by simp
qed

lemma unat_sub_le: "unat p \<le> unat x \<Longrightarrow> unat (x - p) = unat x - unat p" for x p :: u32
  by (simp add: unat_sub word_le_nat_alt)

lemma ERROR_I_ERROR: "- (2 ^ 31) \<le> v \<Longrightarrow> v < 2 ^ 31 \<Longrightarrow> ERROR_I (ERROR v) = v"
  by (simp add: ERROR_def ERROR_I_def signed_of_int signed_take_bit_int_eq_self)

lemma sint_eq_uint_low: "unat p < 2 ^ 31 \<Longrightarrow> sint (p :: u32) = uint p"
proof -
  assume "unat p < 2 ^ 31"
  then have "uint p < 2 ^ 31"
    by (metis of_nat_less_numeral_power_cancel_iff uint_nat)
  moreover have "- (2 ^ 31) \<le> uint p"
    by (rule order_trans [OF _ uint_ge_0]) simp
  ultimately have "signed_take_bit 31 (uint p) = uint p"
    by (intro signed_take_bit_int_eq_self)
  then show ?thesis
    by (simp add: sint_uint)
qed

lemma not_IS_ERROR_low: "unat p < 2 ^ 31 \<Longrightarrow> \<not> IS_ERROR p"
  by (simp add: IS_ERROR_def ERROR_I_def sint_eq_uint_low)

end
