(* ===== verification/Kstring.thy ===== *)
theory Kstring
  imports Kernel_Prelude
begin

unbundle bit_operations_syntax

section \<open>Strings and memory blocks: lib/string.c\<close>

text \<open>
  A \<open>char *\<close> argument is modelled by the bytes of the object it points into, from the pointed-to
  byte to the object's end, as a list of 8-bit words. A function that would read or write past
  the end of that object gives \<open>None\<close>: in C the access is undefined. \<open>char\<close> is signed on
  the target, so ordering comparisons and the differences returned by the comparison functions
  read bytes with \<open>sint\<close>. A C string is a list that contains a 0 byte; \<open>cstr\<close> is its text.
\<close>

definition cstr :: "u8 list \<Rightarrow> u8 list" where
  "cstr buf = takeWhile (\<lambda>c. c \<noteq> 0) buf"

definition is_cstr :: "u8 list \<Rightarrow> bool" where
  "is_cstr buf \<longleftrightarrow> 0 \<in> set buf"

subsection \<open>Operations\<close>

definition tolower :: "u8 \<Rightarrow> u8" where
  "tolower c = (if 65 \<le> sint c \<and> sint c \<le> 90 then c - 65 + 97 else c)"

fun strlen :: "u8 list \<Rightarrow> nat option" where
  "strlen [] = None"
| "strlen (c # cs) = (if c \<noteq> 0 then map_option Suc (strlen cs) else Some 0)"

fun strnlen :: "u8 list \<Rightarrow> nat \<Rightarrow> nat option" where
  "strnlen s 0 = Some 0"
| "strnlen [] (Suc n) = None"
| "strnlen (c # cs) (Suc n) = (if c \<noteq> 0 then map_option Suc (strnlen cs n) else Some 0)"

fun strcpy :: "u8 list \<Rightarrow> u8 list \<Rightarrow> u8 list option" where
  "strcpy dst [] = None"
| "strcpy [] (c # cs) = None"
| "strcpy (d # ds) (c # cs) = (if c \<noteq> 0 then map_option ((#) c) (strcpy ds cs) else Some (0 # ds))"

text \<open>
  The copy loop of \<open>strncpy\<close> on its index \<open>i\<close>; afterwards the terminator is written only when
  something was copied, at index \<open>i\<close>, which is \<open>n\<close> when the source is longer than \<open>n\<close>.
\<close>

function strncpy_loop :: "u8 list \<Rightarrow> u8 list \<Rightarrow> nat \<Rightarrow> nat \<Rightarrow> (u8 list \<times> nat) option" where
  "strncpy_loop dst str n i =
     (if i < n then
        if i < length str then
          if str ! i \<noteq> 0 then
            if i < length dst then strncpy_loop (dst[i := str ! i]) str n (Suc i) else None
          else Some (dst, i)
        else None
      else Some (dst, i))"
  by pat_completeness auto
termination
  by (relation "measure (\<lambda>(dst, str, n, i). n - i)") auto

definition strncpy :: "u8 list \<Rightarrow> u8 list \<Rightarrow> nat \<Rightarrow> u8 list option" where
  "strncpy dst str n =
     (case strncpy_loop dst str n 0 of
        None \<Rightarrow> None
      | Some (dst', i) \<Rightarrow>
          if 0 < i then (if i < length dst' then Some (dst'[i := 0]) else None) else Some dst')"

fun strnlen_terminator :: "u8 list \<Rightarrow> nat \<Rightarrow> u8 \<Rightarrow> nat option" where
  "strnlen_terminator s 0 t = Some 0"
| "strnlen_terminator [] (Suc n) t = None"
| "strnlen_terminator (c # cs) (Suc n) t =
     (if c \<noteq> 0 \<and> c \<noteq> t then map_option Suc (strnlen_terminator cs n t) else Some 0)"

fun strncmp :: "u8 list \<Rightarrow> u8 list \<Rightarrow> nat \<Rightarrow> int option" where
  "strncmp s1 s2 0 = Some 0"
| "strncmp (a # s1) (b # s2) (Suc n) =
     (if a \<noteq> b then Some (sint a - sint b) else if a = 0 then Some 0 else strncmp s1 s2 n)"
| "strncmp s1 s2 (Suc n) = None"

fun istrncmp :: "u8 list \<Rightarrow> u8 list \<Rightarrow> nat \<Rightarrow> int option" where
  "istrncmp s1 s2 0 = Some 0"
| "istrncmp (a # s1) (b # s2) (Suc n) =
     (let c1 = tolower a; c2 = tolower b in
      if c1 \<noteq> c2 then Some (sint c1 - sint c2) else if c1 = 0 then Some 0 else istrncmp s1 s2 n)"
| "istrncmp s1 s2 (Suc n) = None"

definition isdigit :: "u8 \<Rightarrow> bool" where
  "isdigit c \<longleftrightarrow> 48 \<le> sint c \<and> sint c \<le> 57"

definition tonumericdigit :: "u8 \<Rightarrow> int" where
  "tonumericdigit c = sint c - 48"

fun memset :: "u8 list \<Rightarrow> u8 \<Rightarrow> nat \<Rightarrow> u8 list option" where
  "memset buf c 0 = Some buf"
| "memset [] c (Suc n) = None"
| "memset (b # bs) c (Suc n) = map_option ((#) c) (memset bs c n)"

fun memcmp :: "u8 list \<Rightarrow> u8 list \<Rightarrow> nat \<Rightarrow> int option" where
  "memcmp s1 s2 0 = Some 0"
| "memcmp (a # s1) (b # s2) (Suc n) =
     (if a \<noteq> b then Some (if sint a < sint b then - 1 else 1) else memcmp s1 s2 n)"
| "memcmp s1 s2 (Suc n) = None"

fun memcpy :: "u8 list \<Rightarrow> u8 list \<Rightarrow> nat \<Rightarrow> u8 list option" where
  "memcpy dst src 0 = Some dst"
| "memcpy (d # ds) (s # ss) (Suc n) = map_option ((#) s) (memcpy ds ss n)"
| "memcpy dst src (Suc n) = None"

declare strncpy_loop.simps [simp del]

subsection \<open>Lengths\<close>

lemma cstr_simps [simp]: "cstr [] = []" "cstr (c # cs) = (if c = 0 then [] else c # cstr cs)"
  by (simp_all add: cstr_def)

lemma is_cstr_simps [simp]: "\<not> is_cstr []" "is_cstr (c # cs) \<longleftrightarrow> c = 0 \<or> is_cstr cs"
  by (auto simp: is_cstr_def)

lemma cstr_nonzero: "0 \<notin> set (cstr s)"
  by (auto simp: cstr_def dest: set_takeWhileD)

lemma is_cstr_split: "is_cstr s \<Longrightarrow> s = cstr s @ 0 # drop (Suc (length (cstr s))) s"
  by (induction s) auto

lemma cstr_append [simp]: "0 \<notin> set t \<Longrightarrow> cstr (t @ 0 # r) = t"
  by (induction t) auto

lemma is_cstr_append [simp]: "is_cstr (t @ 0 # r)"
  by (simp add: is_cstr_def)

lemma strlen_eq: "strlen s = (if is_cstr s then Some (length (cstr s)) else None)"
  by (induction s) auto

lemma strnlen_eq:
  "strnlen s n = (if is_cstr s \<or> n \<le> length s then Some (min n (length (cstr s))) else None)"
  by (induction s n rule: strnlen.induct) (auto simp: min_def)

lemma strnlen_terminator_eq:
  "is_cstr s \<Longrightarrow> strnlen_terminator s n t = Some (min n (length (takeWhile (\<lambda>c. c \<noteq> t) (cstr s))))"
  by (induction s n t rule: strnlen_terminator.induct) auto

subsection \<open>Copying\<close>

lemma strcpy_eq:
  "strcpy dst src =
     (if is_cstr src \<and> length (cstr src) < length dst
      then Some (cstr src @ 0 # drop (Suc (length (cstr src))) dst) else None)"
  by (induction dst src rule: strcpy.induct) auto

lemma memcpy_eq:
  "memcpy dst src n =
     (if n \<le> length dst \<and> n \<le> length src then Some (take n src @ drop n dst) else None)"
  by (induction dst src n rule: memcpy.induct) auto

lemma memset_eq:
  "memset buf c n = (if n \<le> length buf then Some (replicate n c @ drop n buf) else None)"
  by (induction buf c n rule: memset.induct) auto

lemma nth_cstr: "i < length (cstr s) \<Longrightarrow> i < length s \<and> s ! i \<noteq> 0 \<and> cstr s ! i = s ! i"
  by (induction s arbitrary: i) (auto simp: nth_Cons split: nat.splits if_splits)

lemma nth_cstr_end: "length (cstr s) < length s \<Longrightarrow> s ! length (cstr s) = 0"
  unfolding cstr_def using nth_length_takeWhile by fastforce

lemma length_cstr_le: "length (cstr s) \<le> length s"
  by (simp add: cstr_def length_takeWhile_le)

lemma is_cstr_less: "is_cstr s \<Longrightarrow> length (cstr s) < length s"
  by (induction s) auto

text \<open>How many bytes \<open>strncpy\<close> copies: up to the terminator, at most \<open>n\<close>.\<close>

definition strncpy_count :: "u8 list \<Rightarrow> nat \<Rightarrow> nat" where
  "strncpy_count str n = min n (length (cstr str))"

lemma strncpy_loop_eq:
  assumes "i \<le> strncpy_count str n" and "is_cstr str \<or> n \<le> length str"
  shows "strncpy_loop dst str n i =
    (if i < strncpy_count str n \<longrightarrow> strncpy_count str n \<le> length dst
     then Some (take i dst @ drop i (take (strncpy_count str n) str) @ drop (strncpy_count str n) dst,
                strncpy_count str n)
     else None)"
  using assms
proof (induction dst str n i rule: strncpy_loop.induct)
  case (1 dst str n i)
  let ?k = "strncpy_count str n"
  show ?case
  proof (cases "i < ?k")
    case True
    then have i: "i < n" "i < length str" "str ! i \<noteq> 0" and k: "?k \<le> length str"
      using nth_cstr [of i str] length_cstr_le [of str] by (auto simp: strncpy_count_def)
    show ?thesis
    proof (cases "i < length dst")
      case dst: True
      from "1.IH" [OF i(1,2,3) dst] "1.prems" True
      have "strncpy_loop dst str n i = (if Suc i < ?k \<longrightarrow> ?k \<le> length dst
          then Some (take (Suc i) (dst[i := str ! i]) @ drop (Suc i) (take ?k str)
            @ drop ?k (dst[i := str ! i]), ?k) else None)"
        using i dst by (simp add: strncpy_loop.simps [of dst str n i])
      moreover have "take (Suc i) (dst[i := str ! i]) = take i dst @ [str ! i]"
        using dst by (simp add: take_Suc_conv_app_nth)
      moreover have "drop i (take ?k str) = str ! i # drop (Suc i) (take ?k str)"
        using True k by (simp add: Cons_nth_drop_Suc [symmetric])
      ultimately show ?thesis using True dst by auto
    next
      case False
      with True i show ?thesis by (simp add: strncpy_loop.simps [of dst str n i])
    qed
  next
    case False
    with "1.prems"(1) have i: "i = ?k" by simp
    have "i < n \<Longrightarrow> i < length str \<and> str ! i = 0"
      using i "1.prems"(2) nth_cstr_end [of str] is_cstr_less [of str]
      by (auto simp: strncpy_count_def min_def split: if_splits)
    then show ?thesis using i by (subst strncpy_loop.simps) auto
  qed
qed

lemma strncpy_eq:
  assumes "is_cstr str \<or> n \<le> length str"
  shows "strncpy dst str n =
    (if strncpy_count str n = 0 then Some dst
     else if strncpy_count str n < length dst
       then Some (take (strncpy_count str n) str @ 0 # drop (Suc (strncpy_count str n)) dst)
     else None)"
proof -
  let ?k = "strncpy_count str n"
  have k: "?k \<le> length str" using length_cstr_le [of str] by (auto simp: strncpy_count_def)
  have "(take ?k str @ drop ?k dst)[?k := 0] = take ?k str @ 0 # drop (Suc ?k) dst"
    if "?k < length dst"
    using that k by (simp add: list_update_append Cons_nth_drop_Suc [symmetric])
  then show ?thesis
    using strncpy_loop_eq [of 0 str n dst] assms k
    by (auto simp: strncpy_def)
qed

subsection \<open>Comparing\<close>

lemma sint_eq_iff [simp]: "sint (a :: u8) = sint b \<longleftrightarrow> a = b"
  by (auto intro: signed_word_eqI)

lemma sint_eq_0_iff [simp]: "sint (a :: u8) = 0 \<longleftrightarrow> a = 0"
  using sint_eq_iff [of a 0] by simp

lemma strncmp_zero_iff:
  assumes "is_cstr s1" "is_cstr s2"
  shows "strncmp s1 s2 n = Some 0 \<longleftrightarrow> take n (cstr s1) = take n (cstr s2)"
  using assms by (induction s1 s2 n rule: strncmp.induct) auto

lemma tolower_zero_iff [simp]: "tolower c = 0 \<longleftrightarrow> c = 0"
proof -
  have "c - 65 + 97 \<noteq> 0" if "65 \<le> sint c"
  proof
    assume "c - 65 + 97 = 0"
    then have "c = - 32" by (simp add: eq_neg_iff_add_eq_0 add.commute)
    with that show False by simp
  qed
  then show ?thesis by (auto simp: tolower_def)
qed

lemma tolower_0 [simp]: "tolower 0 = 0"
  by simp

lemma tolower_0_eq [simp]: "tolower 0 = tolower c \<longleftrightarrow> c = 0" "tolower c = tolower 0 \<longleftrightarrow> c = 0"
  using tolower_zero_iff [of c] by (auto simp del: tolower_zero_iff)

lemma istrncmp_zero_iff:
  assumes "is_cstr s1" "is_cstr s2"
  shows "istrncmp s1 s2 n = Some 0 \<longleftrightarrow> take n (map tolower (cstr s1)) = take n (map tolower (cstr s2))"
  using assms by (induction s1 s2 n rule: istrncmp.induct) (auto simp: Let_def)

lemma memcmp_zero_iff:
  "n \<le> length s1 \<Longrightarrow> n \<le> length s2 \<Longrightarrow> memcmp s1 s2 n = Some 0 \<longleftrightarrow> take n s1 = take n s2"
  by (induction s1 s2 n rule: memcmp.induct) auto

subsection \<open>Properties\<close>

lemma take_count: "take (strncpy_count str n) str = take n (cstr str)"
proof -
  have "length (take (strncpy_count str n) str) = length (take n (cstr str))"
    using length_cstr_le [of str] by (auto simp: strncpy_count_def)
  then show ?thesis
    by (rule nth_equalityI) (simp add: strncpy_count_def nth_cstr)
qed

text \<open>C15: What \<open>strncpy\<close> does with a terminated source and room for \<open>n\<close> > 0 characters: an empty source
  leaves the destination as it was, not even terminated; otherwise the destination becomes the
  first \<open>n\<close> characters followed by a terminator, so a source of \<open>n\<close> or more characters
  needs \<open>n + 1\<close> bytes: a destination of exactly \<open>n\<close> bytes (as the callers pass, with
  \<open>sizeof\<close> for \<open>n\<close>) is overrun by one.\<close>

theorem strncpy_spec:
  assumes "is_cstr str" and "0 < n"
  shows "if cstr str = [] then strncpy dst str n = Some dst
    else if min n (length (cstr str)) < length dst
      then \<exists>dst'. strncpy dst str n = Some dst' \<and> length dst' = length dst \<and> cstr dst' = take n (cstr str)
    else strncpy dst str n = None"
proof -
  have "0 \<notin> set (take n (cstr str))" using cstr_nonzero [of str] by (auto dest: in_set_takeD)
  moreover have "strncpy_count str n = 0 \<longleftrightarrow> cstr str = []" using assms(2) by (auto simp: strncpy_count_def min_def)
  ultimately show ?thesis
    using strncpy_eq [of str n dst, unfolded take_count] assms(1)
    by (auto simp: strncpy_count_def)
qed

theorem strncpy_spec_witness:
  "strncpy [1, 1, 1] [0x61, 0x62, 0x63, 0] 3 = None \<and>
   (\<exists>dst'. strncpy [1, 1, 1, 1] [0x61, 0x62, 0x63, 0] 3 = Some dst' \<and> cstr dst' = [0x61, 0x62, 0x63])"
  using strncpy_spec [of "[0x61, 0x62, 0x63, 0]" 3 "[1, 1, 1]"]
    strncpy_spec [of "[0x61, 0x62, 0x63, 0]" 3 "[1, 1, 1, 1]"]
  by auto

text \<open>\<open>istrncmp\<close> compares without regard to case: on terminated strings it returns 0 exactly when the
  first \<open>n\<close> characters agree after \<open>tolower\<close>. (FAT lookups compare names with it.)\<close>

lemma istrncmp_spec:
  assumes "is_cstr s1" and "is_cstr s2"
  shows "istrncmp s1 s2 n = Some 0 \<longleftrightarrow>
    take n (map tolower (cstr s1)) = take n (map tolower (cstr s2))"
  by (rule istrncmp_zero_iff [OF assms])

lemma istrncmp_spec_witness: "istrncmp [0x41, 0x42, 0] [0x61, 0x62, 0, 5] 8 = Some 0"
  using istrncmp_spec [of "[0x41, 0x42, 0]" "[0x61, 0x62, 0, 5]" 8] by (simp add: tolower_def)

end
