(* ===== verification/Phys_Mem.thy ===== *)
theory Phys_Mem
  imports Kernel_Prelude
begin

unbundle bit_operations_syntax

section \<open>Little-endian words in physical memory\<close>

text \<open>
  The i686 reads and writes 32-bit objects as four bytes, lowest first. \<open>load32\<close> and
  \<open>store32\<close> are what a \<open>uint32_t\<close> access through a pointer does; \<open>le16\<close> and \<open>le32\<close> decode
  the fields of packed on-disk structures from a byte list. The lemmas say that a store is
  read back, and that stores to different aligned words do not interfere.
\<close>

definition load32 :: "mem \<Rightarrow> u32 \<Rightarrow> u32" where
  "load32 m a = ucast (m a) OR push_bit 8 (ucast (m (a + 1)))
     OR push_bit 16 (ucast (m (a + 2))) OR push_bit 24 (ucast (m (a + 3)))"

definition store32 :: "mem \<Rightarrow> u32 \<Rightarrow> u32 \<Rightarrow> mem" where
  "store32 m a v = m(a := ucast v, a + 1 := ucast (drop_bit 8 v),
     a + 2 := ucast (drop_bit 16 v), a + 3 := ucast (drop_bit 24 v))"

definition le16 :: "u8 list \<Rightarrow> nat \<Rightarrow> u16" where
  "le16 bs i = ucast (bs ! i) OR push_bit 8 (ucast (bs ! (i + 1)))"

definition le32 :: "u8 list \<Rightarrow> nat \<Rightarrow> u32" where
  "le32 bs i = ucast (bs ! i) OR push_bit 8 (ucast (bs ! (i + 1)))
     OR push_bit 16 (ucast (bs ! (i + 2))) OR push_bit 24 (ucast (bs ! (i + 3)))"

lemma word32_bytes:
  "ucast (ucast v :: u8) OR push_bit 8 (ucast (ucast (drop_bit 8 v) :: u8))
     OR push_bit 16 (ucast (ucast (drop_bit 16 v) :: u8))
     OR push_bit 24 (ucast (ucast (drop_bit 24 v) :: u8)) = v" (is "?l = v") for v :: u32
proof (rule bit_word_eqI)
  fix n assume "n < LENGTH(32)"
  then consider "n < 8" | "8 \<le> n" "n < 16" | "16 \<le> n" "n < 24" | "24 \<le> n" "n < 32"
    by fastforce
  then show "bit ?l n = bit v n"
    by cases (auto simp: bit_simps)
qed

lemma load32_store32_same [simp]: "load32 (store32 m a v) a = v"
  using word32_bytes [of v] by (simp add: load32_def store32_def)

lemma load32_cong:
  assumes "\<And>k. k < 4 \<Longrightarrow> m (a + of_nat k) = m' (a + of_nat k)"
  shows "load32 m a = load32 m' a"
  using assms [of 0] assms [of 1] assms [of 2] assms [of 3]
  by (simp add: load32_def)

definition aligned4 :: "u32 \<Rightarrow> bool" where
  "aligned4 a \<longleftrightarrow> unat a mod 4 = 0"

lemma unat_aligned4_add:
  assumes "aligned4 a" "k < 4"
  shows "unat (a + of_nat k) = unat a + k"
proof -
  have "unat a + k < 4294967296"
    using assms unat_u32_less [of a] unfolding aligned4_def by presburger
  then have "unat (of_nat (unat a + k) :: u32) = unat a + k"
    by (rule unat_of_nat_u32)
  then show ?thesis by simp
qed

lemma aligned4_apart:
  assumes "aligned4 a" "aligned4 b" "a \<noteq> b" "j < 4" "k < 4"
  shows "a + of_nat j \<noteq> b + of_nat k"
proof
  assume "a + of_nat j = b + of_nat k"
  then have "unat a + j = unat b + k"
    using unat_aligned4_add assms by metis
  then have "unat a = unat b"
    using assms unfolding aligned4_def by presburger
  with assms(3) show False by (simp add: unat_eq_iff_u32)
qed

lemma store32_apply:
  "store32 m a v x = (if x = a + 3 then ucast (drop_bit 24 v) else if x = a + 2 then ucast (drop_bit 16 v)
     else if x = a + 1 then ucast (drop_bit 8 v) else if x = a then ucast v else m x)"
  by (simp add: store32_def)

lemma store32_other:
  assumes "\<And>k. k < 4 \<Longrightarrow> x \<noteq> a + of_nat k"
  shows "store32 m a v x = m x"
  using assms [of 0] assms [of 1] assms [of 2] assms [of 3] by (simp add: store32_apply)

lemma load32_store32_other [simp]:
  assumes "aligned4 a" "aligned4 b" "a \<noteq> b"
  shows "load32 (store32 m a v) b = load32 m b"
  by (rule load32_cong, rule store32_other) (use aligned4_apart [OF assms(2,1)] assms(3) in blast)

subsection \<open>Words of a page\<close>

text \<open>\<open>word_at p i\<close> is the address of entry \<open>i\<close> of a table of 32-bit words at \<open>p\<close>.\<close>

definition word_at :: "u32 \<Rightarrow> nat \<Rightarrow> u32" where
  "word_at p i = p + 4 * of_nat i"

definition page_aligned :: "u32 \<Rightarrow> bool" where
  "page_aligned p \<longleftrightarrow> p mod 4096 = 0"

lemma unat_word_at:
  assumes "page_aligned p" "i < 1024"
  shows "unat (word_at p i) = unat p + 4 * i"
proof -
  obtain q where "unat p = 4096 * q" using assms(1) page_multiple page_aligned_def by metis
  with unat_u32_less [of p] assms(2) have "unat p + 4 * i < 4294967296" by simp
  then have "unat (of_nat (unat p + 4 * i) :: u32) = unat p + 4 * i"
    by (rule unat_of_nat_u32)
  then show ?thesis by (simp add: word_at_def)
qed

lemma aligned4_word_at [simp]: "page_aligned p \<Longrightarrow> i < 1024 \<Longrightarrow> aligned4 (word_at p i)"
proof -
  assume a: "page_aligned p" "i < 1024"
  then obtain q where "unat p = 4096 * q" using page_multiple page_aligned_def by metis
  with a show ?thesis by (simp add: aligned4_def unat_word_at)
qed

lemma word_at_eq_iff:
  assumes "page_aligned p" "page_aligned q" "i < 1024" "j < 1024"
  shows "word_at p i = word_at q j \<longleftrightarrow> p = q \<and> i = j"
proof
  assume "word_at p i = word_at q j"
  then have eq: "unat p + 4 * i = unat q + 4 * j" using assms unat_word_at by metis
  from assms obtain x y where xy: "unat p = 4096 * x" "unat q = 4096 * y"
    using page_multiple page_aligned_def by metis
  with eq assms have "x = y" by simp
  with eq xy show "p = q \<and> i = j" by (simp flip: unat_eq_iff_u32)
qed simp

subsection \<open>Runs of bytes\<close>

text \<open>What \<open>memcpy\<close> and a device transfer do with memory: \<open>mem_bytes\<close> reads a run of bytes, \<open>mem_write\<close>
  writes one.\<close>

definition mem_bytes :: "mem \<Rightarrow> u32 \<Rightarrow> nat \<Rightarrow> u8 list" where
  "mem_bytes m a n = map (\<lambda>i. m (a + of_nat i)) [0 ..< n]"

definition mem_write :: "mem \<Rightarrow> u32 \<Rightarrow> u8 list \<Rightarrow> mem" where
  "mem_write m a bs = (\<lambda>x. if unat (x - a) < length bs then bs ! unat (x - a) else m x)"

lemma mem_bytes_write:
  assumes "k + n \<le> length bs" "length bs \<le> 2 ^ 32"
  shows "mem_bytes (mem_write m a bs) (a + of_nat k) n = take n (drop k bs)"
proof (rule nth_equalityI)
  fix i assume "i < length (mem_bytes (mem_write m a bs) (a + of_nat k) n)"
  then have i: "i < n" by (simp add: mem_bytes_def)
  have "unat (a + of_nat k + of_nat i - a) = k + i"
    using i assms unat_of_nat_u32 [of "k + i"] by simp
  with i assms show "mem_bytes (mem_write m a bs) (a + of_nat k) n ! i = take n (drop k bs) ! i"
    by (simp add: mem_bytes_def mem_write_def)
qed (use assms in \<open>auto simp: mem_bytes_def\<close>)

lemma mem_write_outside: "length bs \<le> unat (x - a) \<Longrightarrow> mem_write m a bs x = m x"
  by (simp add: mem_write_def)

end
