(* ===== verification/Allocator_Interface.thy ===== *)
theory Allocator_Interface
  imports Kernel_Prelude
begin

section \<open>What the kernel promises the callers of kmalloc and kfree\<close>

text \<open>
  The contract between \<open>mm/\<close> and every component that allocates. A client sees \<open>alloc\<close>
  (address 0 on failure), \<open>release\<close> and the map \<open>owned\<close> from the address of each live
  allocation to its length in blocks; \<open>region\<close> is what no operation changes (where the heap
  lies). The laws say that an allocation adds one entry, a release of a live address removes
  one, live allocations do not overlap, and a valid heap is determined by its map.

  The lemmas proved here once are the ones the clients use: releasing what was just allocated
  restores the heap, releases commute, and releasing exactly what a run of allocations added
  restores the heap.
\<close>

locale allocator =
  fixes alloc :: "'h \<Rightarrow> u32 \<Rightarrow> u32 \<times> 'h"
    and release :: "'h \<Rightarrow> u32 \<Rightarrow> 'h"
    and owned :: "'h \<Rightarrow> u32 \<rightharpoonup> nat"
    and blocks :: "u32 \<Rightarrow> nat"
    and valid :: "'h \<Rightarrow> bool"
    and region :: "'h \<Rightarrow> 'r"
  assumes alloc_null: "valid h \<Longrightarrow> alloc h n = (0, h') \<Longrightarrow> h' = h"
    and alloc_some: "valid h \<Longrightarrow> alloc h n = (p, h') \<Longrightarrow> p \<noteq> 0 \<Longrightarrow>
          valid h' \<and> region h' = region h \<and> owned h p = None \<and> owned h' = (owned h)(p \<mapsto> blocks n)"
    and release_null: "release h 0 = h"
    and release_owned: "valid h \<Longrightarrow> owned h p = Some k \<Longrightarrow>
          valid (release h p) \<and> region (release h p) = region h \<and>
          owned (release h p) = (owned h)(p := None)"
    and owned_nonnull: "valid h \<Longrightarrow> owned h p = Some k \<Longrightarrow> p \<noteq> 0 \<and> 0 < k"
    and owned_apart: "valid h \<Longrightarrow> owned h p = Some k \<Longrightarrow> owned h q = Some l \<Longrightarrow> p \<noteq> q \<Longrightarrow>
          unat p + k * 4096 \<le> unat q \<or> unat q + l * 4096 \<le> unat p"
    and owned_ext: "valid h \<Longrightarrow> valid h' \<Longrightarrow> region h = region h' \<Longrightarrow> owned h = owned h' \<Longrightarrow> h = h'"
begin

lemma alloc_valid: "valid h \<Longrightarrow> alloc h n = (p, h') \<Longrightarrow> valid h' \<and> region h' = region h"
  using alloc_null [of h n h'] alloc_some [of h n p h'] by (cases "p = 0") auto

lemma alloc_keeps: "valid h \<Longrightarrow> alloc h n = (p, h') \<Longrightarrow> owned h q = Some k \<Longrightarrow> owned h' q = Some k"
  using alloc_null [of h n h'] alloc_some [of h n p h'] by (cases "p = 0") auto

text \<open>Freeing what was just allocated gives the heap back as it was.\<close>

lemma alloc_release:
  assumes "valid h" "alloc h n = (p, h')"
  shows "release h' p = h"
proof (cases "p = 0")
  case True
  with assms show ?thesis using alloc_null release_null by metis
next
  case False
  note a = alloc_some [OF assms False]
  then have "owned h' p = Some (blocks n)" by simp
  from release_owned [OF _ this] a
  have r: "valid (release h' p)" "region (release h' p) = region h"
    "owned (release h' p) = (owned h')(p := None)"
    by auto
  from a r(3) have "owned (release h' p) = owned h" by auto
  with r(1,2) assms(1) show ?thesis by (intro owned_ext) auto
qed

lemma release_commute:
  assumes v: "valid h" and p: "owned h p = Some k" and q: "owned h q = Some l" and neq: "p \<noteq> q"
  shows "release (release h p) q = release (release h q) p"
proof (rule owned_ext)
  note rp = release_owned [OF v p] and rq = release_owned [OF v q]
  have "owned (release h p) q = Some l" "owned (release h q) p = Some k"
    using rp rq p q neq by auto
  note rpq = release_owned [OF conjunct1 [OF rp] this(1)]
    and rqp = release_owned [OF conjunct1 [OF rq] this(2)]
  show "valid (release (release h p) q)" and "valid (release (release h q) p)"
    and "region (release (release h p) q) = region (release (release h q) p)"
    and "owned (release (release h p) q) = owned (release (release h q) p)"
    using rp rq rpq rqp neq by (auto simp: fun_upd_twist)
qed

lemma release_all_owned:
  assumes "valid h" "distinct ps" "set ps \<subseteq> dom (owned h)"
  shows "valid (fold (\<lambda>p h. release h p) ps h)
    \<and> region (fold (\<lambda>p h. release h p) ps h) = region h
    \<and> owned (fold (\<lambda>p h. release h p) ps h) = owned h |` (- set ps)"
  using assms
proof (induction ps arbitrary: h)
  case Nil
  then show ?case by (simp add: restrict_map_def)
next
  case (Cons p ps)
  then obtain k where k: "owned h p = Some k" by auto
  note r = release_owned [OF Cons.prems(1) k]
  have "set ps \<subseteq> dom (owned (release h p))" using Cons.prems r by auto
  note ih = Cons.IH [OF conjunct1 [OF r] _ this]
  show ?case using ih Cons.prems(2) r by (auto simp: restrict_map_def)
qed

text \<open>Releasing exactly what was added since \<open>h\<close>, in any order, gives \<open>h\<close> back.\<close>

lemma release_all_restores:
  assumes v: "valid h" "valid h'" and reg: "region h' = region h" and ps: "distinct ps"
    and dom: "set ps = dom (owned h') - dom (owned h)"
    and keep: "\<And>p. owned h p \<noteq> None \<Longrightarrow> owned h' p = owned h p"
  shows "fold (\<lambda>p h. release h p) ps h' = h"
proof (rule owned_ext)
  have "set ps \<subseteq> dom (owned h')" using dom by auto
  note r = release_all_owned [OF v(2) ps this]
  then show "valid (fold (\<lambda>p h. release h p) ps h')"
    and "region (fold (\<lambda>p h. release h p) ps h') = region h"
    using reg by auto
  show "owned (fold (\<lambda>p h. release h p) ps h') = owned h"
  proof
    fix p
    show "owned (fold (\<lambda>p h. release h p) ps h') p = owned h p"
      using r dom keep [of p] by (cases "owned h p"; cases "owned h' p") (auto simp: restrict_map_def)
  qed
qed (rule v(1))

end

end
