(* ===== verification/Heap_Alloc.thy ===== *)
theory Heap_Alloc
  imports Allocator_Interface
begin

unbundle bit_operations_syntax

section \<open>The block heap: mm/heap.c\<close>

text \<open>
  The kernel's allocator: a table with one byte per 4096-byte block. \<open>struct heap_table\<close> and
  \<open>struct heap\<close> are the records below (the pointer \<open>heap->table\<close> owns its table, so the record
  holds it by value); every function of \<open>mm/heap.c\<close> is one definition, each \<open>for\<close> loop a
  recursive function over the loop's variables. Diagnostics printed on failure are left out.

  The lemmas relate the table to an allocation map (start block to length): \<open>heap_rep\<close> says
  that a table is exactly the encoding of a map of disjoint runs, \<open>heap_get_start_block\<close> is
  shown to be first fit, marking and freeing are shown to insert and delete one run.
\<close>

subsection \<open>Data\<close>

definition HEAP_BLOCK_TABLE_ENTRY_FREE :: u8 where [kconfig]: "HEAP_BLOCK_TABLE_ENTRY_FREE = 0x00"
definition HEAP_BLOCK_TABLE_ENTRY_TAKEN :: u8 where [kconfig]: "HEAP_BLOCK_TABLE_ENTRY_TAKEN = 0x01"
definition HEAP_BLOCK_HAS_NEXT :: u8 where [kconfig]: "HEAP_BLOCK_HAS_NEXT = 0x80"
definition HEAP_BLOCK_IS_FIRST :: u8 where [kconfig]: "HEAP_BLOCK_IS_FIRST = 0x40"

record heap_table =
  enteies :: "u8 list"
  ht_total :: u32

record heap =
  hp_table :: heap_table
  saddr :: u32

subsection \<open>Creation\<close>

definition heap_validate_table :: "u32 \<Rightarrow> u32 \<Rightarrow> heap_table \<Rightarrow> int" where
  "heap_validate_table ptr end_ptr table =
     (let table_size = end_ptr - ptr;
          total_blocks = table_size div KERNEL_HEAP_BLOCK_SIZE
      in if ht_total table \<noteq> total_blocks then - EINVAGS else 0)"

definition heap_validate_alignment :: "u32 \<Rightarrow> bool" where
  "heap_validate_alignment ptr \<longleftrightarrow> ptr mod KERNEL_HEAP_BLOCK_SIZE = 0"

definition heap_create :: "heap \<Rightarrow> u32 \<Rightarrow> u32 \<Rightarrow> heap_table \<Rightarrow> int \<times> heap" where
  "heap_create heap ptr end_ptr table =
     (if \<not> heap_validate_alignment ptr \<or> \<not> heap_validate_alignment end_ptr
      then (- EINVAGS, heap)
      else let res = heap_validate_table ptr end_ptr table in
        if res < 0 then (res, heap)
        else let table_size = unat (ht_total table) in
          (res, \<lparr>hp_table = table\<lparr>enteies :=
                   replicate table_size HEAP_BLOCK_TABLE_ENTRY_FREE
                   @ drop table_size (enteies table)\<rparr>,
                 saddr = ptr\<rparr>))"

subsection \<open>Searching and marking\<close>

definition heap_get_entry_type :: "u8 \<Rightarrow> u8" where
  "heap_get_entry_type entry = entry AND 0x0F"

text \<open>
  The search loop, on its variables \<open>i\<close>, \<open>bc\<close> (length of the current free run) and \<open>bs\<close> (its
  first block, or -1).
\<close>

function heap_get_start_block_loop ::
    "heap_table \<Rightarrow> u32 \<Rightarrow> nat \<Rightarrow> nat \<Rightarrow> int \<Rightarrow> nat \<times> int" where
  "heap_get_start_block_loop table total_blocks i bc bs =
     (if i < unat (ht_total table) then
        if heap_get_entry_type (enteies table ! i) \<noteq> HEAP_BLOCK_TABLE_ENTRY_FREE
        then heap_get_start_block_loop table total_blocks (Suc i) 0 (- 1)
        else let bs' = (if bs = - 1 then int i else bs); bc' = Suc bc in
          if bc' = unat total_blocks then (bc', bs')
          else heap_get_start_block_loop table total_blocks (Suc i) bc' bs'
      else (bc, bs))"
  by pat_completeness auto
termination
  by (relation "measure (\<lambda>(table, n, i, bc, bs). unat (ht_total table) - i)") auto

definition heap_get_start_block :: "heap \<Rightarrow> u32 \<Rightarrow> int" where
  "heap_get_start_block heap total_blocks =
     (let (bc, bs) = heap_get_start_block_loop (hp_table heap) total_blocks 0 0 (- 1)
      in if bs = - 1 \<or> bc \<noteq> unat total_blocks then - ENOMEM else bs)"

definition heap_block_to_address :: "heap \<Rightarrow> u32 \<Rightarrow> u32" where
  "heap_block_to_address heap block = saddr heap + block * KERNEL_HEAP_BLOCK_SIZE"

definition heap_taken_entry :: "nat \<Rightarrow> nat \<Rightarrow> nat \<Rightarrow> u8" where
  "heap_taken_entry start_block end_block i =
     (let e = HEAP_BLOCK_TABLE_ENTRY_TAKEN;
          e = (if i = start_block then e OR HEAP_BLOCK_IS_FIRST else e);
          e = (if i < end_block then e OR HEAP_BLOCK_HAS_NEXT else e)
      in e)"

function heap_mark_taken_loop :: "u8 list \<Rightarrow> nat \<Rightarrow> nat \<Rightarrow> nat \<Rightarrow> u8 list" where
  "heap_mark_taken_loop es start_block end_block i =
     (if i \<le> end_block
      then heap_mark_taken_loop (es[i := heap_taken_entry start_block end_block i])
             start_block end_block (Suc i)
      else es)"
  by pat_completeness auto
termination
  by (relation "measure (\<lambda>(es, s, e, i). Suc e - i)") auto

definition heap_mark_blocks_taken :: "heap \<Rightarrow> u32 \<Rightarrow> u32 \<Rightarrow> heap" where
  "heap_mark_blocks_taken heap start_block total_blocks =
     (let end_block = start_block + total_blocks - 1 in
      heap\<lparr>hp_table := (hp_table heap)\<lparr>enteies :=
        heap_mark_taken_loop (enteies (hp_table heap)) (unat start_block) (unat end_block)
          (unat start_block)\<rparr>\<rparr>)"

subsection \<open>Allocation\<close>

text \<open>Allocation returns the address (0 is NULL) and the updated heap.\<close>

definition heap_malloc_blocks :: "heap \<Rightarrow> u32 \<Rightarrow> u32 \<times> heap" where
  "heap_malloc_blocks heap total_blocks =
     (if total_blocks = 0 then (0, heap)
      else let start_block = heap_get_start_block heap total_blocks in
        if start_block < 0 then (0, heap)
        else (heap_block_to_address heap (word_of_int start_block),
              heap_mark_blocks_taken heap (word_of_int start_block) total_blocks))"

definition heap_align_value_upper :: "u32 \<Rightarrow> u32" where
  "heap_align_value_upper sz =
     (if sz mod KERNEL_HEAP_BLOCK_SIZE = 0 then sz
      else let sz = sz - sz mod KERNEL_HEAP_BLOCK_SIZE in sz + KERNEL_HEAP_BLOCK_SIZE)"

definition heap_malloc :: "heap \<Rightarrow> u32 \<Rightarrow> u32 \<times> heap" where
  "heap_malloc heap sz =
     (let aligned_size = heap_align_value_upper sz;
          total_blocks = aligned_size div KERNEL_HEAP_BLOCK_SIZE
      in heap_malloc_blocks heap total_blocks)"

text \<open>\<open>memset\<close> on physical memory: the loop of \<open>lib/string.c\<close> over \<open>size\<close> bytes.\<close>

primrec mem_memset :: "mem \<Rightarrow> u32 \<Rightarrow> u8 \<Rightarrow> nat \<Rightarrow> mem" where
  "mem_memset m ptr c 0 = m"
| "mem_memset m ptr c (Suc n) = (mem_memset m ptr c n)(ptr + of_nat n := c)"

definition heap_zalloc :: "heap \<Rightarrow> mem \<Rightarrow> u32 \<Rightarrow> u32 \<times> heap \<times> mem" where
  "heap_zalloc heap m sz =
     (let aligned_size = heap_align_value_upper sz;
          total_blocks = aligned_size div KERNEL_HEAP_BLOCK_SIZE;
          (address, heap') = heap_malloc_blocks heap total_blocks
      in if address = 0 then (0, heap', m)
         else (address, heap', mem_memset m address 0x00 (unat aligned_size)))"

subsection \<open>Release\<close>

function heap_mark_free_loop :: "heap_table \<Rightarrow> nat \<Rightarrow> heap_table" where
  "heap_mark_free_loop table i =
     (if i < unat (ht_total table) then
        let entry = enteies table ! i;
            table' = table\<lparr>enteies := (enteies table)[i := HEAP_BLOCK_TABLE_ENTRY_FREE]\<rparr>
        in if entry AND HEAP_BLOCK_HAS_NEXT = 0 then table'
           else heap_mark_free_loop table' (Suc i)
      else table)"
  by pat_completeness auto
termination
  by (relation "measure (\<lambda>(table, i). unat (ht_total table) - i)") (auto simp: Let_def)

definition heap_mark_blocks_free :: "heap \<Rightarrow> u32 \<Rightarrow> heap" where
  "heap_mark_blocks_free heap start_block =
     heap\<lparr>hp_table := heap_mark_free_loop (hp_table heap) (unat start_block)\<rparr>"

definition heap_address_to_block :: "heap \<Rightarrow> u32 \<Rightarrow> u32" where
  "heap_address_to_block heap ptr = (ptr - saddr heap) div KERNEL_HEAP_BLOCK_SIZE"

definition heap_free :: "heap \<Rightarrow> u32 \<Rightarrow> heap" where
  "heap_free heap ptr =
     (if ptr = 0 then heap
      else heap_mark_blocks_free heap (heap_address_to_block heap ptr))"

declare heap_get_start_block_loop.simps [simp del]
declare heap_mark_taken_loop.simps [simp del]
declare heap_mark_free_loop.simps [simp del]

subsection \<open>First fit\<close>

text \<open>
  A free run of \<open>n\<close> blocks at \<open>s\<close>, and the first such run. The search returns exactly that,
  or \<open>- ENOMEM\<close> when there is none.
\<close>

definition free_run :: "u8 list \<Rightarrow> nat \<Rightarrow> nat \<Rightarrow> bool" where
  "free_run es s n \<longleftrightarrow> s + n \<le> length es \<and>
     (\<forall>i. s \<le> i \<and> i < s + n \<longrightarrow> heap_get_entry_type (es ! i) = HEAP_BLOCK_TABLE_ENTRY_FREE)"

lemma free_runD:
  "free_run es s n \<Longrightarrow> s \<le> i \<Longrightarrow> i < s + n \<Longrightarrow>
     heap_get_entry_type (es ! i) = HEAP_BLOCK_TABLE_ENTRY_FREE"
  by (simp add: free_run_def)

definition first_fit :: "u8 list \<Rightarrow> nat \<Rightarrow> nat \<Rightarrow> bool" where
  "first_fit es n s \<longleftrightarrow> free_run es s n \<and> (\<forall>t < s. \<not> free_run es t n)"

text \<open>What the search loop knows before it looks at block \<open>i\<close>.\<close>

definition search_inv :: "u8 list \<Rightarrow> nat \<Rightarrow> nat \<Rightarrow> nat \<Rightarrow> int \<Rightarrow> bool" where
  "search_inv es n i bc bs \<longleftrightarrow>
     i \<le> length es \<and> bc \<le> i \<and> bc < n \<and> bs = (if bc = 0 then - 1 else int (i - bc)) \<and>
     (\<forall>j. i - bc \<le> j \<and> j < i \<longrightarrow> heap_get_entry_type (es ! j) = HEAP_BLOCK_TABLE_ENTRY_FREE) \<and>
     (0 < i - bc \<longrightarrow> heap_get_entry_type (es ! (i - bc - 1)) \<noteq> HEAP_BLOCK_TABLE_ENTRY_FREE) \<and>
     (\<forall>s. s + n \<le> i \<longrightarrow> \<not> free_run es s n)"

lemma search_inv_taken:
  assumes inv: "search_inv es n i bc bs" and i: "i < length es"
    and taken: "heap_get_entry_type (es ! i) \<noteq> HEAP_BLOCK_TABLE_ENTRY_FREE"
  shows "search_inv es n (Suc i) 0 (- 1)"
proof -
  have "\<not> free_run es s n" if "s + n \<le> Suc i" for s
  proof (cases "s + n \<le> i")
    case True
    then show ?thesis using inv by (simp add: search_inv_def)
  next
    case False
    with that inv have "s \<le> i" "i < s + n" by (auto simp: search_inv_def)
    with taken show ?thesis by (auto dest: free_runD)
  qed
  with inv i taken show ?thesis by (auto simp: search_inv_def)
qed

lemma search_inv_free:
  assumes inv: "search_inv es n i bc bs" and i: "i < length es"
    and free: "heap_get_entry_type (es ! i) = HEAP_BLOCK_TABLE_ENTRY_FREE"
    and more: "Suc bc \<noteq> n"
  shows "search_inv es n (Suc i) (Suc bc) (if bs = - 1 then int i else bs)"
proof -
  have "\<not> free_run es s n" if s: "s + n \<le> Suc i" for s
  proof (cases "s + n \<le> i")
    case True
    then show ?thesis using inv by (simp add: search_inv_def)
  next
    case False
    with s have eq: "s + n = Suc i" by simp
    from inv more have "Suc bc < n" "bc \<le> i" by (auto simp: search_inv_def)
    with eq have "0 < i - bc" "s \<le> i - bc - 1" "i - bc - 1 < s + n" by auto
    with inv show ?thesis by (auto simp: search_inv_def dest: free_runD)
  qed
  moreover have "heap_get_entry_type (es ! j) = HEAP_BLOCK_TABLE_ENTRY_FREE"
    if "i - bc \<le> j" "j < Suc i" for j
    using that inv free by (cases "j = i") (auto simp: search_inv_def)
  ultimately show ?thesis
    using inv i more by (auto simp: search_inv_def split: if_splits)
qed

lemma search_inv_found:
  assumes inv: "search_inv es n i bc bs" and i: "i < length es"
    and free: "heap_get_entry_type (es ! i) = HEAP_BLOCK_TABLE_ENTRY_FREE"
    and found: "Suc bc = n"
  shows "first_fit es n (i - bc) \<and> (if bs = - 1 then int i else bs) = int (i - bc)"
proof -
  have "heap_get_entry_type (es ! j) = HEAP_BLOCK_TABLE_ENTRY_FREE"
    if "i - bc \<le> j" "j < i - bc + n" for j
    using that inv free found by (cases "j = i") (auto simp: search_inv_def)
  then have run: "free_run es (i - bc) n"
    using i found inv by (auto simp: free_run_def search_inv_def)
  have "\<not> free_run es s n" if "s < i - bc" for s
  proof -
    from that found have "s + n \<le> i" by simp
    then show ?thesis using inv by (simp add: search_inv_def)
  qed
  with run inv show ?thesis by (auto simp: first_fit_def search_inv_def)
qed

lemma heap_get_start_block_loop_spec:
  assumes "length (enteies table) = unat (ht_total table)"
    and "search_inv (enteies table) (unat n) i bc bs"
    and "heap_get_start_block_loop table n i bc bs = (bc', bs')"
  shows "(\<exists>s. first_fit (enteies table) (unat n) s \<and> bc' = unat n \<and> bs' = int s)
    \<or> (\<forall>s. \<not> free_run (enteies table) s (unat n)) \<and> bc' \<noteq> unat n"
  using assms
proof (induction table n i bc bs rule: heap_get_start_block_loop.induct)
  case (1 table n i bc bs)
  let ?es = "enteies table" and ?bs = "if bs = - 1 then int i else bs"
  note unfolded = "1.prems"(3) [unfolded heap_get_start_block_loop.simps [of table n i bc bs]]
  consider (stop) "\<not> i < length ?es"
    | (taken) "i < length ?es" "heap_get_entry_type (?es ! i) \<noteq> HEAP_BLOCK_TABLE_ENTRY_FREE"
    | (found) "i < length ?es" "heap_get_entry_type (?es ! i) = HEAP_BLOCK_TABLE_ENTRY_FREE"
        "Suc bc = unat n"
    | (more) "i < length ?es" "heap_get_entry_type (?es ! i) = HEAP_BLOCK_TABLE_ENTRY_FREE"
        "Suc bc \<noteq> unat n"
    by blast
  then show ?case
  proof cases
    case stop
    with "1.prems" unfolded show ?thesis
      by (auto simp: search_inv_def free_run_def)
  next
    case taken
    with "1.prems" have "search_inv ?es (unat n) (Suc i) 0 (- 1)"
      by (blast intro: search_inv_taken)
    with taken "1.prems" unfolded "1.IH"(1) show ?thesis by simp
  next
    case found
    have "first_fit ?es (unat n) (i - bc) \<and> ?bs = int (i - bc)"
      by (rule search_inv_found [OF "1.prems"(2) found])
    with found "1.prems" unfolded show ?thesis by (auto simp: Let_def)
  next
    case more
    with "1.prems" have "search_inv ?es (unat n) (Suc i) (Suc bc) ?bs"
      by (blast intro: search_inv_free)
    with more "1.prems" unfolded "1.IH"(2) show ?thesis by (simp add: Let_def)
  qed
qed

lemma heap_get_start_block_cases:
  assumes len: "length (enteies (hp_table h)) = unat (ht_total (hp_table h))" and n: "n \<noteq> 0"
  obtains (found) s where "heap_get_start_block h n = int s"
      "first_fit (enteies (hp_table h)) (unat n) s"
  | (none) "heap_get_start_block h n = - ENOMEM"
      "\<forall>s. \<not> free_run (enteies (hp_table h)) s (unat n)"
proof -
  obtain bc bs where l: "heap_get_start_block_loop (hp_table h) n 0 0 (- 1) = (bc, bs)"
    by fastforce
  have "0 < unat n" using n by (metis gr0I unat_eq_zero)
  then have "search_inv (enteies (hp_table h)) (unat n) 0 0 (- 1)"
    by (auto simp: search_inv_def free_run_def)
  from heap_get_start_block_loop_spec [OF len this l] show thesis
    using l that by (auto simp: heap_get_start_block_def)
qed


lemma taken_entry_type: "heap_get_entry_type (heap_taken_entry s e i) \<noteq> HEAP_BLOCK_TABLE_ENTRY_FREE"
  by (simp add: heap_taken_entry_def heap_get_entry_type_def kconfig)

lemma taken_entry_next: "heap_taken_entry s e i AND HEAP_BLOCK_HAS_NEXT = 0 \<longleftrightarrow> \<not> i < e"
  by (simp add: heap_taken_entry_def kconfig)

lemma taken_entry_first: "heap_taken_entry s e i AND HEAP_BLOCK_IS_FIRST = 0 \<longleftrightarrow> i \<noteq> s"
  by (simp add: heap_taken_entry_def kconfig)

lemma free_entry: "heap_get_entry_type HEAP_BLOCK_TABLE_ENTRY_FREE = HEAP_BLOCK_TABLE_ENTRY_FREE"
  "HEAP_BLOCK_TABLE_ENTRY_FREE AND HEAP_BLOCK_HAS_NEXT = 0"
  "HEAP_BLOCK_TABLE_ENTRY_FREE AND HEAP_BLOCK_IS_FIRST = 0"
  by (simp_all add: heap_get_entry_type_def kconfig)

lemmas heap_entry_simps = taken_entry_type taken_entry_next taken_entry_first free_entry

lemma length_mark_taken_loop [simp]: "length (heap_mark_taken_loop es s e i) = length es"
proof (induction es s e i rule: heap_mark_taken_loop.induct)
  case (1 es s e i)
  then show ?case by (simp add: heap_mark_taken_loop.simps [of es s e i])
qed

lemma nth_mark_taken_loop:
  "j < length es \<Longrightarrow> heap_mark_taken_loop es s e i ! j =
     (if i \<le> j \<and> j \<le> e then heap_taken_entry s e j else es ! j)"
proof (induction es s e i rule: heap_mark_taken_loop.induct)
  case (1 es s e i)
  then show ?case
    by (subst heap_mark_taken_loop.simps) (auto simp: nth_list_update not_less_eq_eq dest: le_antisym)
qed

lemma mark_free_loop_run:
  assumes "0 < n" and "s + n \<le> length (enteies table)"
    and "length (enteies table) = unat (ht_total table)"
    and "\<And>i. s \<le> i \<Longrightarrow> i < s + n \<Longrightarrow>
           (enteies table ! i AND HEAP_BLOCK_HAS_NEXT = 0) = (Suc i = s + n)"
  shows "heap_mark_free_loop table s =
    table\<lparr>enteies := take s (enteies table) @ replicate n HEAP_BLOCK_TABLE_ENTRY_FREE
                        @ drop (s + n) (enteies table)\<rparr>"
  using assms
proof (induction n arbitrary: s table)
  case 0
  then show ?case by simp
next
  case (Suc n)
  let ?es = "enteies table"
  have s: "s < length ?es" using Suc.prems(2) by simp
  show ?case
  proof (cases "n = 0")
    case True
    with Suc.prems(4) [of s] s have "?es ! s AND HEAP_BLOCK_HAS_NEXT = 0" by simp
    with True s Suc.prems(3) show ?thesis
      by (simp add: heap_mark_free_loop.simps [of table s] Let_def upd_conv_take_nth_drop)
  next
    case False
    let ?t = "table\<lparr>enteies := ?es[s := HEAP_BLOCK_TABLE_ENTRY_FREE]\<rparr>"
    from False Suc.prems(4) [of s] have "?es ! s AND HEAP_BLOCK_HAS_NEXT \<noteq> 0" by simp
    with s Suc.prems(3) have "heap_mark_free_loop table s = heap_mark_free_loop ?t (Suc s)"
      by (simp add: heap_mark_free_loop.simps [of table s] Let_def)
    also have "\<dots> = ?t\<lparr>enteies := take (Suc s) (enteies ?t)
        @ replicate n HEAP_BLOCK_TABLE_ENTRY_FREE @ drop (Suc s + n) (enteies ?t)\<rparr>"
      by (rule Suc.IH) (use False Suc.prems in auto)
    also have "take (Suc s) (enteies ?t) = take s ?es @ [HEAP_BLOCK_TABLE_ENTRY_FREE]"
      using s by (simp add: take_Suc_conv_app_nth)
    finally show ?thesis by simp
  qed
qed

lemma mark_free_loop_free:
  assumes "enteies table ! s = HEAP_BLOCK_TABLE_ENTRY_FREE"
  shows "heap_mark_free_loop table s = table"
  using assms list_update_id [of "enteies table" s]
  by (simp add: heap_mark_free_loop.simps [of table s] Let_def free_entry)


definition covers :: "(nat \<rightharpoonup> nat) \<Rightarrow> nat \<Rightarrow> bool" where
  "covers A i \<longleftrightarrow> (\<exists>s n. A s = Some n \<and> s \<le> i \<and> i < s + n)"

definition heap_rep :: "u8 list \<Rightarrow> (nat \<rightharpoonup> nat) \<Rightarrow> bool" where
  "heap_rep es A \<longleftrightarrow>
     (\<forall>s n. A s = Some n \<longrightarrow> 0 < n \<and> s + n \<le> length es \<and>
        (\<forall>i. s \<le> i \<and> i < s + n \<longrightarrow> es ! i = heap_taken_entry s (s + n - 1) i)) \<and>
     (\<forall>s n t k. A s = Some n \<longrightarrow> A t = Some k \<longrightarrow> s < t \<longrightarrow> s + n \<le> t) \<and>
     (\<forall>i < length es. \<not> covers A i \<longrightarrow> es ! i = HEAP_BLOCK_TABLE_ENTRY_FREE)"

lemma heap_repD:
  assumes "heap_rep es A"
  shows heap_rep_range: "A s = Some n \<Longrightarrow> 0 < n \<and> s + n \<le> length es"
    and heap_rep_nth: "A s = Some n \<Longrightarrow> s \<le> i \<Longrightarrow> i < s + n \<Longrightarrow>
           es ! i = heap_taken_entry s (s + n - 1) i"
    and heap_rep_order: "A s = Some n \<Longrightarrow> A t = Some k \<Longrightarrow> s < t \<Longrightarrow> s + n \<le> t"
    and heap_rep_free: "i < length es \<Longrightarrow> \<not> covers A i \<Longrightarrow> es ! i = HEAP_BLOCK_TABLE_ENTRY_FREE"
  using assms by (auto simp: heap_rep_def)

lemma coversI: "A s = Some n \<Longrightarrow> s \<le> i \<Longrightarrow> i < s + n \<Longrightarrow> covers A i"
  by (auto simp: covers_def)

lemma heap_rep_type:
  assumes rep: "heap_rep es A" and i: "i < length es"
  shows "heap_get_entry_type (es ! i) = HEAP_BLOCK_TABLE_ENTRY_FREE \<longleftrightarrow> \<not> covers A i"
proof (cases "covers A i")
  case True
  then obtain s n where "A s = Some n" "s \<le> i" "i < s + n" by (auto simp: covers_def)
  with rep have "es ! i = heap_taken_entry s (s + n - 1) i" by (rule heap_rep_nth)
  with True show ?thesis by (simp add: heap_entry_simps)
next
  case False
  with rep i have "es ! i = HEAP_BLOCK_TABLE_ENTRY_FREE" by (rule heap_rep_free)
  with False show ?thesis by (simp add: heap_entry_simps)
qed

lemma heap_rep_free_run:
  assumes "heap_rep es A"
  shows "free_run es s n \<longleftrightarrow> s + n \<le> length es \<and> (\<forall>i. s \<le> i \<and> i < s + n \<longrightarrow> \<not> covers A i)"
  using heap_rep_type [OF assms] by (auto simp: free_run_def)

text \<open>The table is determined by its allocation map.\<close>

lemma heap_rep_table_unique:
  assumes "heap_rep es A" "heap_rep es' A" "length es = length es'"
  shows "es = es'"
proof (rule nth_equalityI)
  fix i assume i: "i < length es"
  show "es ! i = es' ! i"
  proof (cases "covers A i")
    case True
    then obtain s n where "A s = Some n" "s \<le> i" "i < s + n" by (auto simp: covers_def)
    then show ?thesis using assms(1,2) by (simp add: heap_rep_nth)
  next
    case False
    then show ?thesis using assms i by (simp add: heap_rep_free)
  qed
qed (rule assms(3))

lemma heap_rep_empty: "heap_rep (replicate n HEAP_BLOCK_TABLE_ENTRY_FREE) Map.empty"
  by (simp add: heap_rep_def covers_def)

lemma heap_rep_alloc:
  assumes rep: "heap_rep es A" and run: "free_run es s n" and n: "0 < n"
  shows "heap_rep (heap_mark_taken_loop es s (s + n - 1) s) (A(s \<mapsto> n))"
proof -
  from run rep have len: "s + n \<le> length es" and nc: "\<And>i. s \<le> i \<Longrightarrow> i < s + n \<Longrightarrow> \<not> covers A i"
    by (auto simp: heap_rep_free_run)
  have before: "t + k \<le> s" if "A t = Some k" "t < s" for t k
    using nc [of s] n that by (auto simp: covers_def not_less)
  have after: "s + n \<le> t" if "A t = Some k" "s < t" for t k
    using nc [of t] heap_rep_range [OF rep that(1)] coversI [of A t k t] that
    by (cases "s + n \<le> t") auto
  have cov: "\<not> covers A i \<and> \<not> (s \<le> i \<and> i < s + n)" if "\<not> covers (A(s \<mapsto> n)) i" for i
  proof -
    have "A s \<noteq> Some k" for k
      using nc [of s] n heap_rep_range [OF rep, of s k] coversI [of A s k s] by auto
    then have "covers A i \<Longrightarrow> covers (A(s \<mapsto> n)) i"
      unfolding covers_def by (metis fun_upd_other)
    with that show ?thesis
      by (auto intro: coversI [of "A(s \<mapsto> n)" s n i])
  qed
  have new: "heap_mark_taken_loop es s (s + n - 1) s ! i =
      (if s \<le> i \<and> i < s + n then heap_taken_entry s (s + n - 1) i else es ! i)"
    if "i < length es" for i
    using that n by (auto simp: nth_mark_taken_loop)
  show ?thesis
    unfolding heap_rep_def
  proof (intro conjI allI impI)
    fix t k assume tk: "(A(s \<mapsto> n)) t = Some k"
    show "0 < k" and "t + k \<le> length (heap_mark_taken_loop es s (s + n - 1) s)"
      using tk heap_rep_range [OF rep, of t k] n len by (auto split: if_splits)
    fix i assume i: "t \<le> i \<and> i < t + k"
    show "heap_mark_taken_loop es s (s + n - 1) s ! i = heap_taken_entry t (t + k - 1) i"
    proof (cases "t = s")
      case True
      with tk i len new [of i] show ?thesis by auto
    next
      case False
      with tk have A: "A t = Some k" by simp
      with i have "covers A i" by (blast intro: coversI)
      with nc have "\<not> (s \<le> i \<and> i < s + n)" by blast
      with i heap_rep_range [OF rep A] heap_rep_nth [OF rep A] new [of i] show ?thesis by auto
    qed
  next
    fix t k u l assume "(A(s \<mapsto> n)) t = Some k" "(A(s \<mapsto> n)) u = Some l" "t < u"
    then show "t + k \<le> u"
      using before after heap_rep_order [OF rep] by (auto split: if_splits)
  next
    fix i assume "i < length (heap_mark_taken_loop es s (s + n - 1) s)"
      and u: "\<not> covers (A(s \<mapsto> n)) i"
    then show "heap_mark_taken_loop es s (s + n - 1) s ! i = HEAP_BLOCK_TABLE_ENTRY_FREE"
      using cov [OF u] new [of i] heap_rep_free [OF rep, of i] by auto
  qed
qed

lemma heap_rep_release:
  assumes rep: "heap_rep es A" and A: "A s = Some n"
  shows "heap_rep (take s es @ replicate n HEAP_BLOCK_TABLE_ENTRY_FREE @ drop (s + n) es)
           (A(s := None))" (is "heap_rep ?es' ?A'")
proof -
  from rep A have r: "0 < n" "s + n \<le> length es" by (auto dest: heap_rep_range)
  have other: "t + k \<le> s \<or> s + n \<le> t" if "A t = Some k" "t \<noteq> s" for t k
    using that heap_rep_order [OF rep A that(1)] heap_rep_order [OF rep that(1) A]
    by (cases "t < s") auto
  have new: "?es' ! i = (if s \<le> i \<and> i < s + n then HEAP_BLOCK_TABLE_ENTRY_FREE else es ! i)"
    if "i < length es" for i
    using that r by (auto simp: nth_append min_def)
  have "covers ?A' i" if "covers A i" "\<not> (s \<le> i \<and> i < s + n)" for i
  proof -
    from that(1) obtain t k where "A t = Some k" "t \<le> i" "i < t + k" by (auto simp: covers_def)
    with that(2) A show ?thesis by (cases "t = s") (auto simp: covers_def)
  qed
  then have cov: "es ! i = HEAP_BLOCK_TABLE_ENTRY_FREE"
    if "i < length es" "\<not> covers ?A' i" "\<not> (s \<le> i \<and> i < s + n)" for i
    using that heap_rep_free [OF rep] by blast
  have len: "length ?es' = length es" using r by simp
  have keep: "0 < k \<and> t + k \<le> length es \<and>
      (\<forall>i. t \<le> i \<and> i < t + k \<longrightarrow> ?es' ! i = heap_taken_entry t (t + k - 1) i)"
    if "?A' t = Some k" for t k
  proof -
    from that have t: "A t = Some k" "t \<noteq> s" by (auto split: if_splits)
    note rng = heap_rep_range [OF rep t(1)]
    have "?es' ! i = heap_taken_entry t (t + k - 1) i" if "t \<le> i" "i < t + k" for i
      using that other [OF t] rng heap_rep_nth [OF rep t(1) that] by (auto simp: new)
    with rng show ?thesis by blast
  qed
  show ?thesis
    unfolding heap_rep_def len
    using keep heap_rep_order [OF rep] cov new by (auto split: if_splits)
qed


text \<open>The allocation map read off a table: computable, and the one \<open>heap_rep\<close> speaks of.\<close>

fun run_length :: "u8 list \<Rightarrow> nat" where
  "run_length [] = 0"
| "run_length (e # es) = (if e AND HEAP_BLOCK_HAS_NEXT = 0 then 1 else Suc (run_length es))"

definition heap_live :: "u8 list \<Rightarrow> nat \<rightharpoonup> nat" where
  "heap_live es s =
     (if s < length es \<and> es ! s AND HEAP_BLOCK_IS_FIRST \<noteq> 0 then Some (run_length (drop s es))
      else None)"

lemma run_length_drop:
  assumes "0 < n" and "s + n \<le> length es"
    and "\<And>i. s \<le> i \<Longrightarrow> i < s + n \<Longrightarrow> (es ! i AND HEAP_BLOCK_HAS_NEXT = 0) = (Suc i = s + n)"
  shows "run_length (drop s es) = n"
  using assms
proof (induction n arbitrary: s)
  case 0
  then show ?case by simp
next
  case (Suc n)
  have d: "drop s es = es ! s # drop (Suc s) es"
    using Suc.prems(2) by (simp add: Cons_nth_drop_Suc)
  show ?case
  proof (cases "n = 0")
    case True
    with Suc.prems(3) [of s] show ?thesis by (simp add: d)
  next
    case False
    then have "run_length (drop (Suc s) es) = n"
      using Suc.prems by (intro Suc.IH) auto
    with False Suc.prems(3) [of s] show ?thesis by (simp add: d)
  qed
qed

lemma heap_live_rep:
  assumes rep: "heap_rep es A"
  shows "heap_live es = A"
proof
  fix s
  show "heap_live es s = A s"
  proof (cases "A s")
    case (Some n)
    note rng = heap_rep_range [OF rep Some]
    have "run_length (drop s es) = n"
      by (rule run_length_drop)
        (use rng in \<open>auto simp: heap_rep_nth [OF rep Some] heap_entry_simps\<close>)
    moreover have "es ! s AND HEAP_BLOCK_IS_FIRST \<noteq> 0"
      using rng heap_rep_nth [OF rep Some, of s] by (simp add: heap_entry_simps)
    ultimately show ?thesis using Some rng by (simp add: heap_live_def)
  next
    case None
    have "es ! s AND HEAP_BLOCK_IS_FIRST = 0" if s: "s < length es"
    proof (cases "covers A s")
      case True
      then obtain t n where "A t = Some n" "t \<le> s" "s < t + n" by (auto simp: covers_def)
      with rep None show ?thesis by (auto simp: heap_rep_nth heap_entry_simps)
    next
      case False
      with rep s show ?thesis by (simp add: heap_rep_free heap_entry_simps)
    qed
    with None show ?thesis by (auto simp: heap_live_def)
  qed
qed

subsection \<open>The heap as a whole\<close>

definition heap_entries :: "heap \<Rightarrow> u8 list" where
  "heap_entries h = enteies (hp_table h)"

text \<open>
  Well-formedness: the table has \<open>total\<close> entries, encodes its own allocation map, and the
  region it manages starts above address 0 and ends below the top of the address space.
\<close>

definition heap_wf :: "heap \<Rightarrow> bool" where
  "heap_wf h \<longleftrightarrow> length (heap_entries h) = unat (ht_total (hp_table h)) \<and>
     heap_rep (heap_entries h) (heap_live (heap_entries h)) \<and>
     0 < unat (saddr h) \<and> saddr h mod KERNEL_HEAP_BLOCK_SIZE = 0 \<and>
     unat (saddr h) + unat (ht_total (hp_table h)) * 4096 < 2 ^ 32"

lemma heap_wf_len: "heap_wf h \<Longrightarrow> length (heap_entries h) < 2 ^ 20"
  by (auto simp: heap_wf_def)

lemma unat_block_address:
  assumes wf: "heap_wf h" and s: "s \<le> length (heap_entries h)"
  shows "unat (heap_block_to_address h (of_nat s)) = unat (saddr h) + s * 4096"
proof -
  from s wf have lt: "unat (saddr h) + s * 4096 < 2 ^ 32" by (auto simp: heap_wf_def)
  have "heap_block_to_address h (of_nat s) = of_nat (unat (saddr h) + s * 4096)"
    by (simp add: heap_block_to_address_def kconfig)
  then show ?thesis
    using lt by (simp add: unat_of_nat take_bit_nat_eq_self del: of_nat_add of_nat_mult)
qed

lemma block_address_nonzero:
  "heap_wf h \<Longrightarrow> s \<le> length (heap_entries h) \<Longrightarrow> heap_block_to_address h (of_nat s) \<noteq> 0"
  using unat_block_address [of h s] by (auto simp: heap_wf_def)

lemma block_of_address:
  assumes wf: "heap_wf h" and s: "s \<le> length (heap_entries h)"
  shows "unat (heap_address_to_block h (heap_block_to_address h (of_nat s))) = s"
proof -
  from s wf have lt: "s * 4096 < 2 ^ 32" by (auto simp: heap_wf_def)
  have "heap_block_to_address h (of_nat s) - saddr h = of_nat (s * 4096)"
    by (simp add: heap_block_to_address_def kconfig)
  then show ?thesis
    using lt by (simp add: heap_address_to_block_def kconfig unat_div unat_of_nat
        take_bit_nat_eq_self del: of_nat_mult)
qed


lemma heap_taken_frame [simp]:
  "saddr (heap_mark_blocks_taken h b n) = saddr h"
  "ht_total (hp_table (heap_mark_blocks_taken h b n)) = ht_total (hp_table h)"
  "length (heap_entries (heap_mark_blocks_taken h b n)) = length (heap_entries h)"
  by (simp_all add: heap_mark_blocks_taken_def heap_entries_def Let_def)

lemma heap_entries_taken:
  assumes wf: "heap_wf h" and le: "s + unat n \<le> length (heap_entries h)" and n0: "0 < unat n"
  shows "heap_entries (heap_mark_blocks_taken h (of_nat s) n) =
     heap_mark_taken_loop (heap_entries h) s (s + unat n - 1) s"
proof -
  have lt: "length (heap_entries h) < 2 ^ 20" using wf by (rule heap_wf_len)
  have us: "unat (of_nat s :: u32) = s"
    using le lt by (intro unat_of_nat_u32) simp
  have "of_nat s + n - 1 = (of_nat (s + unat n - 1) :: u32)"
    using n0 by (simp add: of_nat_diff)
  then have "unat (of_nat s + n - 1 :: u32) = s + unat n - 1"
    using le lt by (simp add: unat_of_nat_u32)
  with us show ?thesis
    by (simp add: heap_mark_blocks_taken_def heap_entries_def Let_def)
qed

lemma heap_malloc_blocks_some:
  assumes wf: "heap_wf h" and n: "n \<noteq> 0" and fit: "first_fit (heap_entries h) (unat n) s"
    and start: "heap_get_start_block h n = int s"
  shows "heap_malloc_blocks h n =
           (heap_block_to_address h (of_nat s), heap_mark_blocks_taken h (of_nat s) n)"
    and "heap_wf (heap_mark_blocks_taken h (of_nat s) n)"
    and "heap_live (heap_entries (heap_mark_blocks_taken h (of_nat s) n)) =
           (heap_live (heap_entries h))(s \<mapsto> unat n)"
proof -
  show "heap_malloc_blocks h n =
           (heap_block_to_address h (of_nat s), heap_mark_blocks_taken h (of_nat s) n)"
    using n start by (simp add: heap_malloc_blocks_def)
  have n0: "0 < unat n" using n by (metis gr0I unat_eq_zero)
  have run: "free_run (heap_entries h) s (unat n)" using fit by (simp add: first_fit_def)
  then have le: "s + unat n \<le> length (heap_entries h)" by (simp add: free_run_def)
  have rep: "heap_rep (heap_entries (heap_mark_blocks_taken h (of_nat s) n))
      ((heap_live (heap_entries h))(s \<mapsto> unat n))"
    unfolding heap_entries_taken [OF wf le n0]
    by (rule heap_rep_alloc) (use wf run n0 in \<open>auto simp: heap_wf_def\<close>)
  then show live: "heap_live (heap_entries (heap_mark_blocks_taken h (of_nat s) n)) =
           (heap_live (heap_entries h))(s \<mapsto> unat n)"
    by (rule heap_live_rep)
  show "heap_wf (heap_mark_blocks_taken h (of_nat s) n)"
    using wf rep unfolding heap_wf_def live by simp
qed

lemma heap_malloc_blocks_cases:
  assumes wf: "heap_wf h"
  obtains (zero) "n = 0" "heap_malloc_blocks h n = (0, h)"
  | (none) "n \<noteq> 0" "heap_malloc_blocks h n = (0, h)"
      "\<forall>s. \<not> free_run (heap_entries h) s (unat n)"
  | (some) s where "n \<noteq> 0" "first_fit (heap_entries h) (unat n) s"
      "heap_malloc_blocks h n =
         (heap_block_to_address h (of_nat s), heap_mark_blocks_taken h (of_nat s) n)"
      "heap_wf (heap_mark_blocks_taken h (of_nat s) n)"
      "heap_live (heap_entries (heap_mark_blocks_taken h (of_nat s) n)) =
         (heap_live (heap_entries h))(s \<mapsto> unat n)"
      "heap_block_to_address h (of_nat s) \<noteq> 0"
proof (cases "n = 0")
  case True
  then show thesis using zero by (simp add: heap_malloc_blocks_def)
next
  case False
  have len: "length (enteies (hp_table h)) = unat (ht_total (hp_table h))"
    using wf by (simp add: heap_wf_def heap_entries_def)
  show thesis
  proof (cases rule: heap_get_start_block_cases [OF len False])
    case (1 s)
    then have fit: "first_fit (heap_entries h) (unat n) s" by (simp add: heap_entries_def)
    note * = heap_malloc_blocks_some [OF wf False fit 1(1)]
    from fit have "s \<le> length (heap_entries h)" by (simp add: first_fit_def free_run_def)
    then have "heap_block_to_address h (of_nat s) \<noteq> 0"
      by (rule block_address_nonzero [OF wf])
    with * False fit show thesis by (rule_tac some)
  next
    case 2
    then show thesis
      using none False by (simp add: heap_malloc_blocks_def heap_entries_def kconfig)
  qed
qed

lemma heap_free_block:
  assumes wf: "heap_wf h" and live: "heap_live (heap_entries h) s = Some n"
  defines "h' \<equiv> heap_free h (heap_block_to_address h (of_nat s))"
  shows "heap_wf h'" and "heap_live (heap_entries h') = (heap_live (heap_entries h))(s := None)"
    and "saddr h' = saddr h" and "ht_total (hp_table h') = ht_total (hp_table h)"
proof -
  let ?es = "heap_entries h"
  have rep: "heap_rep ?es (heap_live ?es)" using wf by (simp add: heap_wf_def)
  note rng = heap_rep_range [OF rep live]
  have nz: "heap_block_to_address h (of_nat s) \<noteq> 0"
    using rng by (intro block_address_nonzero [OF wf]) simp
  have "unat (heap_address_to_block h (heap_block_to_address h (of_nat s))) = s"
    using rng by (intro block_of_address [OF wf]) simp
  moreover have "heap_mark_free_loop (hp_table h) s =
      (hp_table h)\<lparr>enteies := take s ?es @ replicate n HEAP_BLOCK_TABLE_ENTRY_FREE @ drop (s + n) ?es\<rparr>"
    unfolding heap_entries_def
    by (rule mark_free_loop_run)
      (use rng wf in \<open>auto simp: heap_wf_def heap_entries_def [symmetric] heap_rep_nth [OF rep live]
        heap_entry_simps\<close>)
  ultimately have h': "h' = h\<lparr>hp_table := (hp_table h)\<lparr>enteies :=
      take s ?es @ replicate n HEAP_BLOCK_TABLE_ENTRY_FREE @ drop (s + n) ?es\<rparr>\<rparr>"
    using nz by (simp add: h'_def heap_free_def heap_mark_blocks_free_def)
  then have es': "heap_entries h' =
      take s ?es @ replicate n HEAP_BLOCK_TABLE_ENTRY_FREE @ drop (s + n) ?es"
    by (simp add: heap_entries_def)
  have rep': "heap_rep (heap_entries h') ((heap_live ?es)(s := None))"
    unfolding es' by (rule heap_rep_release [OF rep live])
  then show live': "heap_live (heap_entries h') = (heap_live ?es)(s := None)"
    by (rule heap_live_rep)
  show "saddr h' = saddr h" and tot: "ht_total (hp_table h') = ht_total (hp_table h)"
    by (simp_all add: h')
  have "length (heap_entries h') = length ?es" using rng by (simp add: es')
  with rep' wf show "heap_wf h'"
    unfolding heap_wf_def live' by (simp add: h')
qed


subsection \<open>The allocation map by address\<close>

text \<open>
  \<open>heap_owned h p\<close> is the number of blocks of the allocation that starts at address \<open>p\<close>,
  if there is one.
\<close>

definition heap_owned :: "heap \<Rightarrow> u32 \<rightharpoonup> nat" where
  "heap_owned h p =
     (let b = heap_address_to_block h p in
      if heap_block_to_address h b = p then heap_live (heap_entries h) (unat b) else None)"

lemma heap_live_less: "heap_live es s = Some n \<Longrightarrow> s < length es"
  by (simp add: heap_live_def split: if_splits)

lemma heap_owned_block:
  assumes wf: "heap_wf h" and s: "s \<le> length (heap_entries h)"
  shows "heap_owned h (heap_block_to_address h (of_nat s)) = heap_live (heap_entries h) s"
proof -
  note b = block_of_address [OF wf s]
  then have "heap_address_to_block h (heap_block_to_address h (of_nat s)) = of_nat s"
    by (metis of_nat_unat ucast_id)
  with b show ?thesis by (simp add: heap_owned_def Let_def)
qed

lemma heap_ownedE:
  assumes wf: "heap_wf h" and p: "heap_owned h p = Some n"
  obtains s where "s < length (heap_entries h)" "p = heap_block_to_address h (of_nat s)"
    "heap_live (heap_entries h) s = Some n"
proof -
  let ?b = "heap_address_to_block h p"
  from p have "heap_block_to_address h ?b = p" and l: "heap_live (heap_entries h) (unat ?b) = Some n"
    by (auto simp: heap_owned_def Let_def split: if_splits)
  then show thesis using that [of "unat ?b"] heap_live_less [OF l] by simp
qed

lemma block_address_inj:
  assumes wf: "heap_wf h" and "s \<le> length (heap_entries h)" "t \<le> length (heap_entries h)"
  shows "heap_block_to_address h (of_nat s) = heap_block_to_address h (of_nat t) \<longleftrightarrow> s = t"
  using block_of_address [OF wf assms(2)] block_of_address [OF wf assms(3)] by metis

text \<open>A change of one block of the map is a change at one address.\<close>

lemma heap_owned_upd:
  assumes wf: "heap_wf h" and wf': "heap_wf h'" and sa: "saddr h' = saddr h"
    and len: "length (heap_entries h') = length (heap_entries h)"
    and live: "heap_live (heap_entries h') = (heap_live (heap_entries h))(s := x)"
    and s: "s \<le> length (heap_entries h)"
  shows "heap_owned h' = (heap_owned h)(heap_block_to_address h (of_nat s) := x)"
proof
  fix p
  have addr: "heap_block_to_address h' b = heap_block_to_address h b"
    "heap_address_to_block h' p = heap_address_to_block h p" for b
    by (simp_all add: heap_block_to_address_def heap_address_to_block_def sa)
  show "heap_owned h' p = ((heap_owned h)(heap_block_to_address h (of_nat s) := x)) p"
  proof (cases "p = heap_block_to_address h (of_nat s)")
    case True
    then have "p = heap_block_to_address h' (of_nat s)" by (simp add: addr)
    with heap_owned_block [OF wf'] s len live show ?thesis
      by (simp add: addr)
  next
    case False
    then have "heap_block_to_address h (heap_address_to_block h p) = p \<Longrightarrow>
        unat (heap_address_to_block h p) \<noteq> s"
      by auto
    with False show ?thesis by (auto simp: heap_owned_def addr live Let_def)
  qed
qed

lemma heap_owned_ext:
  assumes wf: "heap_wf h" "heap_wf h'" and sa: "saddr h' = saddr h"
    and tot: "ht_total (hp_table h') = ht_total (hp_table h)"
    and owned: "heap_owned h = heap_owned h'"
  shows "h = h'"
proof -
  have len: "length (heap_entries h') = length (heap_entries h)"
    using wf tot by (simp add: heap_wf_def)
  have addr: "heap_block_to_address h' = heap_block_to_address h"
    by (simp add: fun_eq_iff heap_block_to_address_def sa)
  have "heap_live (heap_entries h) s = heap_live (heap_entries h') s" for s
  proof (cases "s < length (heap_entries h)")
    case True
    then show ?thesis
      using heap_owned_block [OF wf(1), of s] heap_owned_block [OF wf(2), of s] owned len
      by (simp add: addr)
  next
    case False
    then show ?thesis using len by (simp add: heap_live_def)
  qed
  then have "heap_live (heap_entries h) = heap_live (heap_entries h')" ..
  then have "heap_entries h = heap_entries h'"
    using wf len heap_rep_table_unique [of "heap_entries h" "heap_live (heap_entries h)" "heap_entries h'"]
    by (simp add: heap_wf_def)
  then show ?thesis
    using sa tot by (cases h, cases h') (auto simp: heap_entries_def heap_table.splits)
qed

subsection \<open>Sizes, zeroing and creation\<close>

lemma unat_align_upper:
  "unat (heap_align_value_upper sz) =
     (if unat sz + 4095 < 2 ^ 32 then (unat sz + 4095) div 4096 * 4096 else 0)"
proof (cases "sz mod 4096 = 0")
  case True
  then obtain q where q: "unat sz = 4096 * q" by (auto simp: mod_page_0_iff)
  with unat_u32_less [of sz] have "unat sz + 4095 < 2 ^ 32" by simp
  with True q show ?thesis by (simp add: heap_align_value_upper_def kconfig)
next
  case False
  define q r where "q = unat sz div 4096" and "r = unat sz mod 4096"
  have x: "unat sz = 4096 * q + r" "r < 4096" by (simp_all add: q_def r_def)
  have r: "0 < r" using False by (simp add: r_def mod_page_0_iff)
  have "sz = of_nat (unat sz)" by simp
  also have "\<dots> = of_nat (4096 * q) + of_nat r" by (simp only: x(1) of_nat_add)
  finally have sz: "sz = of_nat (4096 * q) + of_nat r" .
  have "sz mod 4096 = of_nat (unat (sz mod 4096))" by simp
  also have "\<dots> = of_nat r" by (simp only: unat_mod_page r_def)
  finally have "sz - sz mod 4096 = of_nat (4096 * q)" using sz by (metis add_diff_cancel_right')
  then have "heap_align_value_upper sz = of_nat (4096 * q) + 4096"
    using False by (simp add: heap_align_value_upper_def kconfig Let_def)
  then have "heap_align_value_upper sz = of_nat (4096 * (q + 1))" by simp
  then have "unat (heap_align_value_upper sz) = 4096 * (q + 1) mod 4294967296"
    by (simp only: unat_of_nat_mod_u32)
  moreover have "4096 * (q + 1) < 4294967296 \<or> 4096 * (q + 1) = 4294967296"
    using x unat_u32_less [of sz] by presburger
  moreover have "(4096 * q + r + 4095) div 4096 = q + 1"
    using x(2) r by (intro div_nat_eqI) auto
  ultimately show ?thesis using x r by auto
qed

lemma mem_memset_apply:
  "n \<le> 2 ^ 32 \<Longrightarrow> mem_memset m a c n x = (if unat (x - a) < n then c else m x)"
proof (induction n)
  case 0
  then show ?case by simp
next
  case (Suc n)
  have "x = a + of_nat n \<longleftrightarrow> unat (x - a) = n"
  proof
    assume "x = a + of_nat n"
    then have "x - a = of_nat n" by simp
    with Suc.prems show "unat (x - a) = n" by (simp add: unat_of_nat take_bit_nat_eq_self)
  next
    assume "unat (x - a) = n"
    then have "of_nat n = x - a" by (metis of_nat_unat ucast_id)
    then show "x = a + of_nat n" by simp
  qed
  with Suc show ?case by (auto simp: less_Suc_eq)
qed


lemma heap_create_wf:
  assumes c: "heap_create h0 ptr e t = (0, h)" and ptr: "0 < unat ptr" "unat ptr \<le> unat e"
    and len: "length (enteies t) = unat (ht_total t)"
  shows "heap_wf h \<and> heap_owned h = Map.empty"
proof -
  from c have al: "ptr mod 4096 = 0" "e mod 4096 = 0" and tot: "ht_total t = (e - ptr) div 4096"
    and h: "h = \<lparr>hp_table = t\<lparr>enteies := replicate (unat (ht_total t)) HEAP_BLOCK_TABLE_ENTRY_FREE\<rparr>, saddr = ptr\<rparr>"
    using len by (auto simp: heap_create_def heap_validate_alignment_def heap_validate_table_def
        kconfig Let_def split: if_splits)
  have sub: "unat (e - ptr) = unat e - unat ptr"
    using ptr by (simp add: unat_sub word_le_nat_alt)
  have "unat ptr mod 4096 = 0" "unat e mod 4096 = 0"
    using al by (simp_all add: mod_page_0_iff)
  then have "unat (ht_total t) * 4096 = unat e - unat ptr"
    by (simp add: tot unat_div_page sub mod_eq_0_iff_dvd dvd_diff_nat)
  then have bound: "unat ptr + unat (ht_total t) * 4096 < 2 ^ 32"
    using ptr unat_u32_less [of e] by simp
  have es: "heap_entries h = replicate (unat (ht_total t)) HEAP_BLOCK_TABLE_ENTRY_FREE"
    by (simp add: heap_entries_def h)
  have live: "heap_live (heap_entries h) = Map.empty"
    unfolding es by (rule heap_live_rep [OF heap_rep_empty])
  then have "heap_owned h = Map.empty" by (simp add: fun_eq_iff heap_owned_def Let_def)
  moreover have "heap_rep (heap_entries h) Map.empty" unfolding es by (rule heap_rep_empty)
  ultimately show ?thesis
    using ptr al bound unfolding heap_wf_def live by (simp add: es) (simp add: h kconfig)
qed


subsection \<open>malloc and free against the allocation map\<close>

definition heap_blocks :: "u32 \<Rightarrow> nat" where
  "heap_blocks sz = unat (heap_align_value_upper sz div KERNEL_HEAP_BLOCK_SIZE)"

lemma heap_malloc_eq:
  "heap_malloc h sz = heap_malloc_blocks h (heap_align_value_upper sz div KERNEL_HEAP_BLOCK_SIZE)"
  by (simp add: heap_malloc_def Let_def)

lemma heap_zalloc_eq:
  "heap_zalloc h m sz =
     (let (p, h') = heap_malloc h sz in
      (p, h', if p = 0 then m else mem_memset m p 0 (unat (heap_align_value_upper sz))))"
  by (simp add: heap_zalloc_def heap_malloc_eq Let_def split: prod.splits)

lemma heap_free_null: "heap_free h 0 = h"
  by (simp add: heap_free_def)

lemma heap_free_owned:
  assumes wf: "heap_wf h" and p: "heap_owned h p = Some n"
  shows "heap_wf (heap_free h p)" and "heap_owned (heap_free h p) = (heap_owned h)(p := None)"
    and "saddr (heap_free h p) = saddr h"
    and "ht_total (hp_table (heap_free h p)) = ht_total (hp_table h)"
proof -
  from wf p obtain s where s: "s < length (heap_entries h)"
    "p = heap_block_to_address h (of_nat s)" "heap_live (heap_entries h) s = Some n"
    by (rule heap_ownedE)
  note f = heap_free_block [OF wf s(3), folded s(2)]
  show "heap_wf (heap_free h p)" "saddr (heap_free h p) = saddr h"
    "ht_total (hp_table (heap_free h p)) = ht_total (hp_table h)"
    by (fact f)+
  show "heap_owned (heap_free h p) = (heap_owned h)(p := None)"
    unfolding s(2)
    by (rule heap_owned_upd) (use wf f s in \<open>auto simp: heap_wf_def\<close>)
qed

lemma heap_malloc_some:
  assumes wf: "heap_wf h" and a: "heap_malloc h sz = (p, h')" and p: "p \<noteq> 0"
  shows "heap_wf h'" and "heap_owned h p = None"
    and "heap_owned h' = (heap_owned h)(p \<mapsto> heap_blocks sz)"
    and "saddr h' = saddr h" and "ht_total (hp_table h') = ht_total (hp_table h)"
proof -
  let ?n = "heap_align_value_upper sz div KERNEL_HEAP_BLOCK_SIZE"
  have "heap_wf h' \<and> heap_owned h p = None \<and> heap_owned h' = (heap_owned h)(p \<mapsto> heap_blocks sz)
    \<and> saddr h' = saddr h \<and> ht_total (hp_table h') = ht_total (hp_table h)"
  proof (cases rule: heap_malloc_blocks_cases [OF wf, of ?n])
    case (3 s)
    then have eq: "p = heap_block_to_address h (of_nat s)"
      "h' = heap_mark_blocks_taken h (of_nat s) ?n"
      using a by (simp_all add: heap_malloc_eq)
    have run: "free_run (heap_entries h) s (unat ?n)" using 3(2) by (simp add: first_fit_def)
    then have sl: "s \<le> length (heap_entries h)" by (simp add: free_run_def)
    have wf': "heap_wf h'" using 3 eq by simp
    have "heap_owned h' = (heap_owned h)(p := Some (unat ?n))"
      unfolding eq(1)
      by (rule heap_owned_upd) (use wf wf' eq 3 sl in \<open>auto simp: heap_wf_def\<close>)
    moreover have "heap_owned h p = None"
    proof -
      have rep: "heap_rep (heap_entries h) (heap_live (heap_entries h))"
        using wf by (simp add: heap_wf_def)
      have "0 < unat ?n" using 3(1) by (metis gr0I unat_eq_zero)
      then have "\<not> covers (heap_live (heap_entries h)) s"
        using run heap_rep_free_run [OF rep] by auto
      then have "heap_live (heap_entries h) s = None"
        using heap_rep_range [OF rep, of s] by (cases "heap_live (heap_entries h) s") (auto simp: covers_def)
      then show ?thesis by (simp add: eq(1) heap_owned_block [OF wf sl])
    qed
    ultimately show ?thesis
      using wf' by (simp add: heap_blocks_def eq(2))
  qed (use a p in \<open>auto simp: heap_malloc_eq\<close>)
  then show "heap_wf h'" and "heap_owned h p = None"
    and "heap_owned h' = (heap_owned h)(p \<mapsto> heap_blocks sz)"
    and "saddr h' = saddr h" and "ht_total (hp_table h') = ht_total (hp_table h)"
    by auto
qed

lemma heap_owned_range:
  assumes wf: "heap_wf h" and p: "heap_owned h p = Some n"
  shows "0 < n \<and> p \<noteq> 0 \<and> p mod KERNEL_HEAP_BLOCK_SIZE = 0 \<and> unat (saddr h) \<le> unat p \<and>
    unat p + n * 4096 \<le> unat (saddr h) + unat (ht_total (hp_table h)) * 4096"
proof -
  from wf p obtain s where s: "s < length (heap_entries h)"
    "p = heap_block_to_address h (of_nat s)" "heap_live (heap_entries h) s = Some n"
    by (rule heap_ownedE)
  have rep: "heap_rep (heap_entries h) (heap_live (heap_entries h))" using wf by (simp add: heap_wf_def)
  note rng = heap_rep_range [OF rep s(3)]
  have up: "unat p = unat (saddr h) + s * 4096"
    using s by (simp add: unat_block_address [OF wf])
  have "4096 dvd unat (saddr h)"
  proof -
    have "unat (saddr h mod 4096) = 0" using wf by (simp add: heap_wf_def kconfig)
    then show ?thesis by (simp add: unat_mod dvd_eq_mod_eq_0)
  qed
  then have "unat p mod 4096 = 0" using up by auto
  then have "p mod KERNEL_HEAP_BLOCK_SIZE = 0"
    by (simp add: kconfig word_eq_iff_unsigned unat_mod flip: unat_eq_zero)
  moreover have "unat (ht_total (hp_table h)) = length (heap_entries h)"
    using wf by (simp add: heap_wf_def)
  ultimately show ?thesis
    using s rng up block_address_nonzero [OF wf, of s] by auto
qed

lemma heap_owned_apart:
  assumes wf: "heap_wf h" and p: "heap_owned h p = Some k" and q: "heap_owned h q = Some l"
    and neq: "p \<noteq> q"
  shows "unat p + k * 4096 \<le> unat q \<or> unat q + l * 4096 \<le> unat p"
proof -
  from wf p obtain s where s: "s < length (heap_entries h)"
    "p = heap_block_to_address h (of_nat s)" "heap_live (heap_entries h) s = Some k"
    by (rule heap_ownedE)
  from wf q obtain t where t: "t < length (heap_entries h)"
    "q = heap_block_to_address h (of_nat t)" "heap_live (heap_entries h) t = Some l"
    by (rule heap_ownedE)
  have rep: "heap_rep (heap_entries h) (heap_live (heap_entries h))" using wf by (simp add: heap_wf_def)
  from s t neq have "s \<noteq> t" by auto
  then consider "s < t" | "t < s" by linarith
  then have "s + k \<le> t \<or> t + l \<le> s"
    using heap_rep_order [OF rep s(3) t(3)] heap_rep_order [OF rep t(3) s(3)] by cases auto
  moreover have "unat p = unat (saddr h) + s * 4096" "unat q = unat (saddr h) + t * 4096"
    using s t by (simp_all add: unat_block_address [OF wf])
  ultimately show ?thesis by auto
qed

interpretation kernel_alloc: allocator heap_malloc heap_free heap_owned heap_blocks heap_wf
  "\<lambda>h. (saddr h, ht_total (hp_table h))"
proof unfold_locales
  fix h h' n assume "heap_wf h" "heap_malloc h n = (0, h')"
  then show "h' = h"
    by (cases rule: heap_malloc_blocks_cases [of h "heap_align_value_upper n div KERNEL_HEAP_BLOCK_SIZE"])
      (auto simp: heap_malloc_eq)
qed (auto simp: heap_malloc_some heap_free_owned heap_free_null dest: heap_owned_range heap_owned_apart
    heap_owned_ext)

lemma heap_free_twice:
  assumes wf: "heap_wf h" and p: "heap_owned h p = Some n"
  shows "heap_free (heap_free h p) p = heap_free h p"
proof -
  let ?h = "heap_free h p"
  from wf p obtain s where s: "s < length (heap_entries h)"
    "p = heap_block_to_address h (of_nat s)" "heap_live (heap_entries h) s = Some n"
    by (rule heap_ownedE)
  note f = heap_free_block [OF wf s(3), folded s(2)]
  have len: "length (heap_entries ?h) = length (heap_entries h)"
    using wf f by (simp add: heap_wf_def)
  have blk: "unat (heap_address_to_block ?h p) = s"
    using block_of_address [OF wf, of s] s f by (simp add: heap_address_to_block_def)
  have rep: "heap_rep (heap_entries ?h) ((heap_live (heap_entries h))(s := None))"
    using f by (simp add: heap_wf_def)
  have rep0: "heap_rep (heap_entries h) (heap_live (heap_entries h))" using wf by (simp add: heap_wf_def)
  have "\<not> covers ((heap_live (heap_entries h))(s := None)) s"
    using heap_rep_order [OF rep0 _ s(3)] by (fastforce simp: covers_def split: if_splits)
  then have "enteies (hp_table ?h) ! s = HEAP_BLOCK_TABLE_ENTRY_FREE"
    using heap_rep_free [OF rep, of s] s len by (simp add: heap_entries_def)
  then show ?thesis
    by (simp add: heap_free_def [of ?h] heap_mark_blocks_free_def blk mark_free_loop_free)
qed

lemma heap_blocks_size: "heap_blocks sz * 4096 = unat (heap_align_value_upper sz)"
  unfolding heap_blocks_def by (simp add: kconfig unat_div_page unat_align_upper)

lemma heap_blocks_fit:
  assumes "heap_wf h" "heap_malloc h sz = (p, h')" "p \<noteq> 0"
  shows "unat sz \<le> heap_blocks sz * 4096"
proof -
  have "0 < heap_blocks sz"
    using kernel_alloc.alloc_some [OF assms] kernel_alloc.owned_nonnull [of h' p "heap_blocks sz"] by simp
  then show ?thesis unfolding heap_blocks_size by (auto simp: unat_align_upper heap_blocks_def kconfig unat_div_page split: if_splits)
qed

lemma heap_malloc_too_big:
  "2 ^ 32 \<le> unat sz + 4095 \<Longrightarrow> heap_malloc h sz = (0, h)"
proof -
  assume "2 ^ 32 \<le> unat sz + 4095"
  then have "unat (heap_align_value_upper sz) = 0" by (simp add: unat_align_upper)
  then have "heap_align_value_upper sz = 0" by (simp only: unat_eq_zero)
  then show ?thesis by (simp add: heap_malloc_eq heap_malloc_blocks_def)
qed


subsection \<open>Histories of the heap\<close>

text \<open>
  One step is a call of \<open>heap_malloc\<close> or a call of \<open>heap_free\<close> on a live allocation or on
  NULL; the states reached by such calls stay well-formed.
\<close>

inductive heap_step :: "heap \<Rightarrow> heap \<Rightarrow> bool" where
  malloc: "heap_malloc h sz = (p, h') \<Longrightarrow> heap_step h h'"
| free: "heap_owned h p = Some k \<Longrightarrow> heap_step h (heap_free h p)"
| free_null: "heap_step h (heap_free h 0)"

lemma heap_step_wf:
  "heap_step h h' \<Longrightarrow> heap_wf h \<Longrightarrow>
     heap_wf h' \<and> saddr h' = saddr h \<and> ht_total (hp_table h') = ht_total (hp_table h)"
proof (induction rule: heap_step.induct)
  case (malloc h sz p h')
  then show ?case using kernel_alloc.alloc_valid by blast
next
  case (free h p k)
  then show ?case by (simp add: heap_free_owned)
next
  case (free_null h)
  then show ?case by (simp add: heap_free_null)
qed

lemma heap_steps_wf:
  "heap_step\<^sup>*\<^sup>* h h' \<Longrightarrow> heap_wf h \<Longrightarrow>
     heap_wf h' \<and> saddr h' = saddr h \<and> ht_total (hp_table h') = ht_total (hp_table h)"
  by (induction rule: rtranclp_induct) (auto dest: heap_step_wf)

end
