(* ===== verification/Kheap.thy ===== *)
theory Kheap
  imports Heap_Alloc
begin

unbundle bit_operations_syntax

section \<open>The kernel heap: mm/kheap.c\<close>

text \<open>
  The one heap of the kernel: 25600 blocks from address 0x01000000, its table in low memory.
  \<open>kstate\<close> is what every component that allocates carries: the global \<open>kernel_heap\<close> and the
  physical memory that \<open>kzalloc\<close> clears. The theorems of this theory are the heap's
  properties; the lemmas are what the clients use of them.
\<close>

subsection \<open>State and operations\<close>

record kstate =
  kernel_heap :: heap
  kmem :: mem

definition kheap_init :: "u8 list \<Rightarrow> 'a kstate_scheme \<Rightarrow> 'a kstate_scheme" where
  "kheap_init raw ks =
     (let table = \<lparr>enteies = raw, ht_total = KERNEL_HEAP_SIZE_BYTES div KERNEL_HEAP_BLOCK_SIZE\<rparr>;
          end_ptr = KERNEL_HEAP_ADDRESS + KERNEL_HEAP_SIZE_BYTES;
          (res, heap) = heap_create (kernel_heap ks) KERNEL_HEAP_ADDRESS end_ptr table
      in ks\<lparr>kernel_heap := heap\<rparr>)"

definition kmalloc :: "'a kstate_scheme \<Rightarrow> u32 \<Rightarrow> u32 \<times> 'a kstate_scheme" where
  "kmalloc ks sz = (let (p, heap) = heap_malloc (kernel_heap ks) sz in (p, ks\<lparr>kernel_heap := heap\<rparr>))"

definition kzalloc :: "'a kstate_scheme \<Rightarrow> u32 \<Rightarrow> u32 \<times> 'a kstate_scheme" where
  "kzalloc ks sz =
     (let (p, heap, m) = heap_zalloc (kernel_heap ks) (kmem ks) sz
      in (p, ks\<lparr>kernel_heap := heap, kmem := m\<rparr>))"

definition kfree :: "'a kstate_scheme \<Rightarrow> u32 \<Rightarrow> 'a kstate_scheme" where
  "kfree ks ptr = ks\<lparr>kernel_heap := heap_free (kernel_heap ks) ptr\<rparr>"

definition kheap_ok :: "'a kstate_scheme \<Rightarrow> bool" where
  "kheap_ok ks \<longleftrightarrow> heap_wf (kernel_heap ks) \<and> saddr (kernel_heap ks) = KERNEL_HEAP_ADDRESS \<and>
     ht_total (hp_table (kernel_heap ks)) = 25600"

lemma kheap_init_ok:
  assumes "length raw = 25600"
  shows "kheap_ok (kheap_init raw ks) \<and> heap_owned (kernel_heap (kheap_init raw ks)) = Map.empty"
proof -
  let ?t = "\<lparr>enteies = raw, ht_total = KERNEL_HEAP_SIZE_BYTES div KERNEL_HEAP_BLOCK_SIZE\<rparr>"
  let ?h = "\<lparr>hp_table = ?t\<lparr>enteies := replicate 25600 HEAP_BLOCK_TABLE_ENTRY_FREE\<rparr>, saddr = KERNEL_HEAP_ADDRESS\<rparr>"
  have c: "heap_create (kernel_heap ks) KERNEL_HEAP_ADDRESS
      (KERNEL_HEAP_ADDRESS + KERNEL_HEAP_SIZE_BYTES) ?t = (0, ?h)"
    using assms by (simp add: heap_create_def heap_validate_alignment_def heap_validate_table_def kconfig)
  have "heap_wf ?h \<and> heap_owned ?h = Map.empty"
    by (rule heap_create_wf [OF c]) (use assms in \<open>simp_all add: kconfig\<close>)
  moreover have "kernel_heap (kheap_init raw ks) = ?h"
    by (simp add: kheap_init_def c)
  ultimately show ?thesis by (simp add: kheap_ok_def kconfig)
qed

lemma kzalloc_heap:
  "kzalloc ks sz = (p, ks') \<Longrightarrow> heap_malloc (kernel_heap ks) sz = (p, kernel_heap ks')"
  by (auto simp: kzalloc_def heap_zalloc_eq Let_def split: prod.splits)

lemma kzalloc_mem:
  "kzalloc ks sz = (p, ks') \<Longrightarrow>
     kmem ks' x = (if p \<noteq> 0 \<and> unat (x - p) < unat (heap_align_value_upper sz) then 0 else kmem ks x)"
  using unat_u32_less [of "heap_align_value_upper sz"]
  by (auto simp: kzalloc_def heap_zalloc_eq mem_memset_apply Let_def split: prod.splits)

lemma kmalloc_heap:
  "kmalloc ks sz = (p, ks') \<Longrightarrow> heap_malloc (kernel_heap ks) sz = (p, kernel_heap ks') \<and> kmem ks' = kmem ks"
  by (auto simp: kmalloc_def split: prod.splits)

lemma kfree_heap [simp]:
  "kernel_heap (kfree ks p) = heap_free (kernel_heap ks) p" "kmem (kfree ks p) = kmem ks"
  by (simp_all add: kfree_def)

lemma heap_malloc_ok:
  assumes "kheap_ok ks" "heap_malloc (kernel_heap ks) sz = (p, kernel_heap ks')"
  shows "kheap_ok ks'"
  using assms kernel_alloc.alloc_valid [of "kernel_heap ks" sz p "kernel_heap ks'"]
  by (simp add: kheap_ok_def)

lemma kheap_ok_alloc:
  "kheap_ok ks \<Longrightarrow> kzalloc ks sz = (p, ks') \<Longrightarrow> kheap_ok ks'"
  "kheap_ok ks \<Longrightarrow> kmalloc ks sz = (p, ks') \<Longrightarrow> kheap_ok ks'"
  by (auto intro: heap_malloc_ok dest: kzalloc_heap kmalloc_heap)

lemma kheap_ok_free:
  "kheap_ok ks \<Longrightarrow> heap_owned (kernel_heap ks) p = Some k \<Longrightarrow> kheap_ok (kfree ks p)"
  using kernel_alloc.release_owned [of "kernel_heap ks" p k] by (simp add: kheap_ok_def)

lemma kheap_owned_range:
  assumes "kheap_ok ks" "heap_owned (kernel_heap ks) p = Some k"
  shows "0 < k \<and> p \<noteq> 0 \<and> p mod 4096 = 0 \<and> 0x1000000 \<le> unat p \<and> unat p + k * 4096 \<le> 0x7400000"
  using heap_owned_range [of "kernel_heap ks" p k] assms by (simp add: kheap_ok_def kconfig)

lemma kheap_owned_not_error:
  "kheap_ok ks \<Longrightarrow> heap_owned (kernel_heap ks) p = Some k \<Longrightarrow> \<not> IS_ERROR p"
  by (rule not_IS_ERROR_low) (use kheap_owned_range [of ks p k] in auto)

lemma kzalloc_zero:
  assumes ok: "kheap_ok ks" and a: "kzalloc ks sz = (p, ks')" and p: "p \<noteq> 0"
    and x: "unat p \<le> unat x" "unat x < unat p + heap_blocks sz * 4096"
  shows "kmem ks' x = 0"
proof -
  have "unat (x - p) < unat (heap_align_value_upper sz)"
    using x by (simp add: unat_sub_le heap_blocks_size)
  with p show ?thesis by (simp add: kzalloc_mem [OF a])
qed

lemma kzalloc_outside:
  assumes ok: "kheap_ok ks" and a: "kzalloc ks sz = (p, ks')"
    and x: "p \<noteq> 0 \<Longrightarrow> unat x < unat p \<or> unat p + heap_blocks sz * 4096 \<le> unat x"
  shows "kmem ks' x = kmem ks x"
proof (cases "p = 0")
  case True
  then show ?thesis by (simp add: kzalloc_mem [OF a])
next
  case False
  have wf: "heap_wf (kernel_heap ks)" using ok by (simp add: kheap_ok_def)
  note s = kernel_alloc.alloc_some [OF wf kzalloc_heap [OF a] False]
  then have "heap_owned (kernel_heap ks') p = Some (heap_blocks sz)" by simp
  from kheap_owned_range [OF kheap_ok_alloc(1) [OF ok a] this]
  have "unat p + heap_blocks sz * 4096 \<le> 4294967296" by simp
  then have "\<not> unat (x - p) < unat (heap_align_value_upper sz)"
    using x [OF False] unat_in_region [of x p "heap_blocks sz * 4096"] by (auto simp: heap_blocks_size)
  then show ?thesis by (simp add: kzalloc_mem [OF a])
qed

lemma kzalloc_frame:
  assumes ok: "kheap_ok ks" and a: "kzalloc ks sz = (p, ks')"
    and q: "heap_owned (kernel_heap ks) q = Some k" and x: "unat q \<le> unat x" "unat x < unat q + k * 4096"
  shows "kmem ks' x = kmem ks x"
proof (rule kzalloc_outside [OF ok a])
  assume p: "p \<noteq> 0"
  have wf: "heap_wf (kernel_heap ks)" using ok by (simp add: kheap_ok_def)
  note s = kernel_alloc.alloc_some [OF wf kzalloc_heap [OF a] p]
  have "heap_owned (kernel_heap ks') p = Some (heap_blocks sz)" "heap_owned (kernel_heap ks') q = Some k"
    "p \<noteq> q"
    using s q by auto
  from kernel_alloc.owned_apart [OF conjunct1 [OF s] this] x
  show "unat x < unat p \<or> unat p + heap_blocks sz * 4096 \<le> unat x" by auto
qed

text \<open>Blocks in use, and what is left: one block can be had as long as the live allocations do
  not add up to the whole heap.\<close>

definition heap_used :: "heap \<Rightarrow> nat" where
  "heap_used h = (\<Sum>p\<in>dom (heap_owned h). the (heap_owned h p))"

lemma heap_used_ge_covered:
  assumes wf: "heap_wf h"
  shows "card {i. i < length (heap_entries h) \<and> covers (heap_live (heap_entries h)) i} \<le> heap_used h"
proof -
  let ?run = "\<lambda>p. {unat (heap_address_to_block h p) ..< unat (heap_address_to_block h p) + the (heap_owned h p)}"
  have "{i. i < length (heap_entries h) \<and> covers (heap_live (heap_entries h)) i} \<subseteq> (\<Union>p\<in>dom (heap_owned h). ?run p)"
  proof
    fix i assume "i \<in> {i. i < length (heap_entries h) \<and> covers (heap_live (heap_entries h)) i}"
    then obtain s n where s: "heap_live (heap_entries h) s = Some n" "s \<le> i" "i < s + n"
      unfolding covers_def by auto
    have "s \<le> length (heap_entries h)" using heap_live_less [OF s(1)] by simp
    then have "heap_owned h (heap_block_to_address h (of_nat s)) = Some n"
      "unat (heap_address_to_block h (heap_block_to_address h (of_nat s))) = s"
      using s(1) block_of_address [OF wf] heap_owned_block [OF wf] by auto
    with s(2,3) show "i \<in> (\<Union>p\<in>dom (heap_owned h). ?run p)" by force
  qed
  then have "card {i. i < length (heap_entries h) \<and> covers (heap_live (heap_entries h)) i} \<le> card (\<Union>p\<in>dom (heap_owned h). ?run p)"
    by (rule card_mono [rotated]) (simp add: finite_code)
  also have "\<dots> \<le> (\<Sum>p\<in>dom (heap_owned h). card (?run p))"
    by (rule card_UN_le) simp
  finally show ?thesis by (simp add: heap_used_def)
qed

lemma heap_used_ge_blocks:
  assumes wf: "heap_wf h" and all: "\<And>i. i < length (heap_entries h) \<Longrightarrow> covers (heap_live (heap_entries h)) i"
  shows "length (heap_entries h) \<le> heap_used h"
proof -
  have "{i. i < length (heap_entries h) \<and> covers (heap_live (heap_entries h)) i} = {..< length (heap_entries h)}" using all by auto
  with heap_used_ge_covered [OF wf] show ?thesis by simp
qed

lemma heap_used_alloc:
  assumes "heap_owned h p = None" "heap_owned h' = (heap_owned h)(p \<mapsto> k)"
  shows "heap_used h' = heap_used h + k"
proof -
  have "(\<Sum>q\<in>dom (heap_owned h). the (heap_owned h' q)) = heap_used h"
    unfolding heap_used_def by (rule sum.cong) (use assms in auto)
  moreover have "p \<notin> dom (heap_owned h)" using assms(1) by auto
  ultimately show ?thesis
    using assms(2) by (simp add: heap_used_def)
qed

lemma heap_one_block:
  assumes wf: "heap_wf h" and room: "heap_used h < unat (ht_total (hp_table h))" and one: "heap_blocks sz = 1"
  shows "fst (heap_malloc h sz) \<noteq> 0"
proof -
  have len: "length (heap_entries h) = unat (ht_total (hp_table h))" using wf by (simp add: heap_wf_def)
  obtain i where i: "i < length (heap_entries h)" "\<not> covers (heap_live (heap_entries h)) i"
    using heap_used_ge_blocks [OF wf] room len by (metis leD)
  have "heap_rep (heap_entries h) (heap_live (heap_entries h))" using wf by (simp add: heap_wf_def)
  from heap_rep_free [OF this i] have "free_run (heap_entries h) i 1"
    using i(1) by (auto simp: free_run_def free_entry less_Suc_eq_le)
  moreover have n: "unat (heap_align_value_upper sz div KERNEL_HEAP_BLOCK_SIZE) = 1"
    using one by (simp add: heap_blocks_def)
  ultimately show ?thesis
    by (cases rule: heap_malloc_blocks_cases [OF wf, of "heap_align_value_upper sz div KERNEL_HEAP_BLOCK_SIZE"])
      (auto simp: heap_malloc_eq)
qed

lemma kzalloc_page:
  assumes ok: "kheap_ok ks" and room: "heap_used (kernel_heap ks) < 25600" and one: "heap_blocks sz = 1"
  obtains p ks' where "kzalloc ks sz = (p, ks')" "p \<noteq> 0" "kheap_ok ks'"
    "heap_owned (kernel_heap ks) p = None" "heap_owned (kernel_heap ks') = (heap_owned (kernel_heap ks))(p \<mapsto> 1)"
    "heap_used (kernel_heap ks') = Suc (heap_used (kernel_heap ks))"
proof -
  obtain p ks' where a: "kzalloc ks sz = (p, ks')" by fastforce
  have wf: "heap_wf (kernel_heap ks)" using ok by (simp add: kheap_ok_def)
  have "p \<noteq> 0"
    using heap_one_block [OF wf _ one] kzalloc_heap [OF a] ok room by (simp add: kheap_ok_def)
  note s = kernel_alloc.alloc_some [OF wf kzalloc_heap [OF a] this]
  then have s': "heap_owned (kernel_heap ks) p = None"
    "heap_owned (kernel_heap ks') = (heap_owned (kernel_heap ks))(p \<mapsto> 1)" using one by auto
  show thesis
    using that [OF a \<open>p \<noteq> 0\<close> kheap_ok_alloc(1) [OF ok a] s'] heap_used_alloc [OF s'] by simp
qed

text \<open>Longer requests: cut the heap into runs of \<open>n\<close> blocks; each block in use spoils at most one of them.\<close>

lemma window_free:
  assumes room: "card {i. i < len \<and> C i} < len div n" and n: "0 < n"
  shows "\<exists>s. s + n \<le> len \<and> (\<forall>i. s \<le> i \<and> i < s + n \<longrightarrow> \<not> C i)"
proof (rule ccontr)
  assume no: "\<not> (\<exists>s. s + n \<le> len \<and> (\<forall>i. s \<le> i \<and> i < s + n \<longrightarrow> \<not> C i))"
  have fit: "j * n + n \<le> len" if "j < len div n" for j
  proof -
    have "Suc j * n \<le> len div n * n" using that by (intro mult_le_mono1) simp
    also have "\<dots> \<le> len" by simp
    finally show ?thesis by simp
  qed
  then have "\<exists>i. j * n \<le> i \<and> i < j * n + n \<and> C i" if "j < len div n" for j
    using no that by blast
  then obtain f where f: "\<And>j. j < len div n \<Longrightarrow> j * n \<le> f j \<and> f j < j * n + n \<and> C (f j)" by metis
  have "inj_on f {..< len div n}"
  proof (rule inj_onI)
    fix j k assume "j \<in> {..< len div n}" "k \<in> {..< len div n}" "f j = f k"
    moreover have "f i div n = i" if "i < len div n" for i
      using f [OF that] n by (intro div_nat_eqI) (simp_all add: algebra_simps)
    ultimately show "j = k" by (metis lessThan_iff)
  qed
  moreover have "f ` {..< len div n} \<subseteq> {i. i < len \<and> C i}" using f fit by fastforce
  ultimately have "len div n \<le> card {i. i < len \<and> C i}" using card_inj_on_le [of f "{..< len div n}"] by fastforce
  with room show False by simp
qed

lemma heap_many_blocks:
  assumes wf: "heap_wf h" and room: "heap_used h < unat (ht_total (hp_table h)) div heap_blocks sz" and nz: "0 < heap_blocks sz"
  shows "fst (heap_malloc h sz) \<noteq> 0"
proof -
  let ?n = "heap_align_value_upper sz div KERNEL_HEAP_BLOCK_SIZE"
  have n: "unat ?n = heap_blocks sz" by (simp add: heap_blocks_def)
  have len: "length (heap_entries h) = unat (ht_total (hp_table h))" using wf by (simp add: heap_wf_def)
  obtain s where s: "s + heap_blocks sz \<le> length (heap_entries h)"
    "\<forall>i. s \<le> i \<and> i < s + heap_blocks sz \<longrightarrow> \<not> covers (heap_live (heap_entries h)) i"
    using window_free [of "length (heap_entries h)" "covers (heap_live (heap_entries h))" "heap_blocks sz"]
      heap_used_ge_covered [OF wf] room len nz by auto
  have "heap_rep (heap_entries h) (heap_live (heap_entries h))" using wf by (simp add: heap_wf_def)
  with s have "free_run (heap_entries h) s (unat ?n)" by (simp add: heap_rep_free_run n)
  moreover have "?n \<noteq> 0" using n nz by auto
  ultimately show ?thesis
    by (cases rule: heap_malloc_blocks_cases [OF wf, of ?n]) (auto simp: heap_malloc_eq)
qed

lemma kzalloc_blocks:
  assumes ok: "kheap_ok ks" and room: "heap_used (kernel_heap ks) < 25600 div n" and n: "heap_blocks sz = n" "0 < n"
  obtains p ks' where "kzalloc ks sz = (p, ks')" "p \<noteq> 0" "kheap_ok ks'"
    "heap_owned (kernel_heap ks) p = None" "heap_owned (kernel_heap ks') = (heap_owned (kernel_heap ks))(p \<mapsto> n)"
    "heap_used (kernel_heap ks') = heap_used (kernel_heap ks) + n"
proof -
  obtain p ks' where a: "kzalloc ks sz = (p, ks')" by fastforce
  have wf: "heap_wf (kernel_heap ks)" using ok by (simp add: kheap_ok_def)
  have "p \<noteq> 0"
    using heap_many_blocks [OF wf, of sz] kzalloc_heap [OF a] ok room n by (simp add: kheap_ok_def)
  note s = kernel_alloc.alloc_some [OF wf kzalloc_heap [OF a] this]
  then have s': "heap_owned (kernel_heap ks) p = None"
    "heap_owned (kernel_heap ks') = (heap_owned (kernel_heap ks))(p \<mapsto> n)" using n by auto
  show thesis
    using that [OF a \<open>p \<noteq> 0\<close> kheap_ok_alloc(1) [OF ok a] s'] heap_used_alloc [OF s'] by simp
qed

subsection \<open>Keeping account of allocations\<close>

text \<open>\<open>heap_grows h ps h'\<close>: \<open>h'\<close> is \<open>h\<close> with the live allocations \<open>ps\<close> added. The clients' leak
  proofs compose these facts: an allocation adds an address, a free removes one, and a heap
  that has grown by nothing is the same heap.\<close>

definition heap_grows :: "heap \<Rightarrow> u32 list \<Rightarrow> heap \<Rightarrow> bool" where
  "heap_grows h ps h' \<longleftrightarrow> heap_wf h \<and> heap_wf h' \<and>
     (saddr h', ht_total (hp_table h')) = (saddr h, ht_total (hp_table h)) \<and> distinct ps \<and>
     (\<forall>p \<in> set ps. heap_owned h p = None \<and> heap_owned h' p \<noteq> None) \<and>
     (\<forall>p. p \<notin> set ps \<longrightarrow> heap_owned h' p = heap_owned h p)"

lemma heap_grows_refl: "heap_wf h \<Longrightarrow> heap_grows h [] h"
  by (simp add: heap_grows_def)

lemma heap_grows_wf: "heap_grows h ps h' \<Longrightarrow> heap_wf h'"
  by (simp add: heap_grows_def)

lemma heap_grows_nil:
  assumes "heap_grows h [] h'"
  shows "h' = h"
  by (rule kernel_alloc.owned_ext) (use assms in \<open>auto simp: heap_grows_def\<close>)

lemma heap_grows_set:
  "heap_grows h ps h' \<Longrightarrow> set qs = set ps \<Longrightarrow> distinct qs \<Longrightarrow> heap_grows h qs h'"
  by (simp add: heap_grows_def)

lemma heap_grows_new:
  assumes g: "heap_grows h ps h1" and a: "heap_malloc h1 n = (p, h2)" and p: "p \<noteq> 0"
  shows "heap_grows h (p # ps) h2"
proof -
  note s = kernel_alloc.alloc_some [OF heap_grows_wf [OF g] a p]
  have "p \<notin> set ps" using s g by (auto simp: heap_grows_def)
  with s g show ?thesis by (auto simp: heap_grows_def)
qed

lemma heap_grows_alloc:
  assumes g: "heap_grows h ps h1" and a: "heap_malloc h1 n = (p, h2)"
  shows "heap_grows h (if p = 0 then ps else p # ps) h2"
  using heap_grows_new [OF g a] kernel_alloc.alloc_null [OF heap_grows_wf [OF g], of n h2] a g by auto

lemma heap_grows_free:
  assumes g: "heap_grows h ps h1" and p: "p \<in> set ps"
  shows "heap_grows h (remove1 p ps) (heap_free h1 p)"
proof -
  from g p obtain k where k: "heap_owned h1 p = Some k" by (auto simp: heap_grows_def)
  note r = kernel_alloc.release_owned [OF heap_grows_wf [OF g] k]
  show ?thesis using r g p by (auto simp: heap_grows_def)
qed

lemma heap_grows_free_null: "heap_grows h ps h1 \<Longrightarrow> heap_grows h ps (heap_free h1 0)"
  by (simp add: heap_free_null)

lemma heap_grows_free_all:
  assumes g: "heap_grows h ps h'" and qs: "distinct qs" "set qs = set ps"
  shows "fold (\<lambda>p h. heap_free h p) qs h' = h"
proof (rule kernel_alloc.release_all_restores)
  show "heap_wf h" "heap_wf h'"
    "(saddr h', ht_total (hp_table h')) = (saddr h, ht_total (hp_table h))"
    using g by (simp_all add: heap_grows_def)
  show "set qs = dom (heap_owned h') - dom (heap_owned h)"
    using g qs(2) unfolding heap_grows_def by (fastforce simp: dom_def)
  show "heap_owned h' p = heap_owned h p" if "heap_owned h p \<noteq> None" for p
    using g that by (cases "p \<in> set ps") (simp_all add: heap_grows_def)
qed (fact qs(1))

lemma heap_grows_trans:
  assumes "heap_grows h ps h1" "heap_grows h1 qs h2"
  shows "heap_grows h (qs @ ps) h2"
  using assms unfolding heap_grows_def by (auto simp: disjoint_iff) metis+

lemma kheap_ok_grows:
  "kheap_ok ks \<Longrightarrow> heap_grows (kernel_heap ks) ps (kernel_heap ks') \<Longrightarrow> kheap_ok ks'"
  by (simp add: kheap_ok_def heap_grows_def)

lemma kheap_ok_wf: "kheap_ok ks \<Longrightarrow> heap_wf (kernel_heap ks)"
  by (simp add: kheap_ok_def)

lemma heap_grows_kzalloc:
  assumes "heap_grows h ps (kernel_heap ks)" "kzalloc ks sz = (p, ks')"
  shows "heap_grows h (if p = 0 then ps else p # ps) (kernel_heap ks')"
  by (rule heap_grows_alloc [OF assms(1) kzalloc_heap [OF assms(2)]])

lemma heap_grows_kmalloc:
  assumes "heap_grows h ps (kernel_heap ks)" "kmalloc ks sz = (p, ks')"
  shows "heap_grows h (if p = 0 then ps else p # ps) (kernel_heap ks')"
  by (rule heap_grows_alloc [OF assms(1) conjunct1 [OF kmalloc_heap [OF assms(2)]]])

text \<open>A pointer from the allocator is never an error code, so \<open>IS_ERROR\<close> and the NULL test tell a
  failed call from a successful one.\<close>

lemma kzalloc_not_error:
  assumes ok: "kheap_ok ks" and a: "kzalloc ks sz = (p, ks')"
  shows "\<not> IS_ERROR p"
proof (cases "p = 0")
  case True
  then show ?thesis by (simp add: IS_ERROR_def ERROR_I_def)
next
  case False
  with heap_grows_kzalloc [OF heap_grows_refl [OF kheap_ok_wf [OF ok]] a]
  obtain k where "heap_owned (kernel_heap ks') p = Some k" by (auto simp: heap_grows_def)
  with kheap_owned_not_error kheap_ok_alloc(1) [OF ok a] show ?thesis by blast
qed

lemma kmalloc_not_error:
  assumes ok: "kheap_ok ks" and a: "kmalloc ks sz = (p, ks')"
  shows "\<not> IS_ERROR p"
proof (cases "p = 0")
  case True
  then show ?thesis by (simp add: IS_ERROR_def ERROR_I_def)
next
  case False
  with heap_grows_kmalloc [OF heap_grows_refl [OF kheap_ok_wf [OF ok]] a]
  obtain k where "heap_owned (kernel_heap ks') p = Some k" by (auto simp: heap_grows_def)
  with kheap_owned_not_error kheap_ok_alloc(2) [OF ok a] show ?thesis by blast
qed

text \<open>An allocation of one block, in one fact.\<close>

lemma kzalloc_small:
  assumes ok: "kheap_ok ks" and one: "heap_blocks sz = 1" and a: "kzalloc ks sz = (p, ks')"
  shows "kheap_ok ks' \<and> \<not> IS_ERROR p \<and>
    (if p = 0 then kernel_heap ks' = kernel_heap ks \<and> 25600 \<le> heap_used (kernel_heap ks)
     else heap_grows (kernel_heap ks) [p] (kernel_heap ks') \<and>
       heap_used (kernel_heap ks') = Suc (heap_used (kernel_heap ks)))"
proof -
  note wf = kheap_ok_wf [OF ok]
  have "25600 \<le> heap_used (kernel_heap ks)" if "p = 0"
    using that kzalloc_page [OF ok _ one] a by (metis Pair_inject not_le)
  moreover have "kernel_heap ks' = kernel_heap ks" if "p = 0"
    using kernel_alloc.alloc_null [OF wf] kzalloc_heap [OF a] that by auto
  moreover have "heap_used (kernel_heap ks') = Suc (heap_used (kernel_heap ks))" if "p \<noteq> 0"
    using kernel_alloc.alloc_some [OF wf kzalloc_heap [OF a] that] one
      heap_used_alloc [of "kernel_heap ks" p "kernel_heap ks'" 1] by simp
  ultimately show ?thesis
    using heap_grows_kzalloc [OF heap_grows_refl [OF wf] a] kheap_ok_alloc(1) [OF ok a]
      kzalloc_not_error [OF ok a] by auto
qed

subsection \<open>Concrete heaps for the witnesses\<close>

definition tiny_heap :: heap where
  "tiny_heap = \<lparr>hp_table = \<lparr>enteies = [0, 0, 0, 0], ht_total = 4\<rparr>, saddr = 0x1000\<rparr>"

lemma tiny_heap_wf: "heap_wf tiny_heap" and tiny_heap_owned: "heap_owned tiny_heap = Map.empty"
proof -
  have rep4: "replicate 4 (0 :: u8) = [0, 0, 0, 0]" by (simp add: eval_nat_numeral)
  have "heap_create h 0x1000 0x5000 \<lparr>enteies = [0, 0, 0, 0], ht_total = 4\<rparr> = (0, tiny_heap)" for h
    using rep4 by (simp add: heap_create_def heap_validate_alignment_def heap_validate_table_def
        kconfig tiny_heap_def)
  from heap_create_wf [OF this] show "heap_wf tiny_heap" and "heap_owned tiny_heap = Map.empty"
    by simp_all
qed

lemma tiny_heap_saddr: "saddr tiny_heap = 4096"
  by (simp add: tiny_heap_def)

lemmas heap_malloc_eval = heap_malloc_def heap_align_value_upper_def heap_malloc_blocks_def
  heap_get_start_block_def heap_get_start_block_loop.simps heap_get_entry_type_def
  heap_mark_blocks_taken_def heap_mark_taken_loop.simps heap_taken_entry_def
  heap_block_to_address_def kconfig

lemma tiny_heap_malloc:
  "heap_malloc tiny_heap 5000 =
     (0x1000, \<lparr>hp_table = \<lparr>enteies = [0xC1, 0x01, 0, 0], ht_total = 4\<rparr>, saddr = 0x1000\<rparr>)"
  by (simp add: heap_malloc_eval tiny_heap_def)

definition boot_kstate :: kstate where
  "boot_kstate = kheap_init (replicate 25600 0xFF)
     \<lparr>kernel_heap = \<lparr>hp_table = \<lparr>enteies = [], ht_total = 0\<rparr>, saddr = 0\<rparr>, kmem = \<lambda>_. 0xFF\<rparr>"

lemma boot_kstate_ok: "kheap_ok boot_kstate" "heap_owned (kernel_heap boot_kstate) = Map.empty"
  by (simp_all add: boot_kstate_def kheap_init_ok)

lemma boot_used: "heap_used (kernel_heap boot_kstate) = 0"
  by (simp add: heap_used_def boot_kstate_ok)

lemma boot_kstate_eq:
  "boot_kstate = \<lparr>kernel_heap = \<lparr>hp_table = \<lparr>enteies = replicate 25600 0, ht_total = 25600\<rparr>,
     saddr = 0x1000000\<rparr>, kmem = \<lambda>_. 0xFF\<rparr>"
  by (simp add: boot_kstate_def kheap_init_def heap_create_def heap_validate_alignment_def
      heap_validate_table_def kconfig)

lemma boot_kzalloc: "fst (kzalloc boot_kstate 10) = 0x1000000"
  by (simp add: boot_kstate_eq kzalloc_def heap_zalloc_eq heap_malloc_eval)

subsection \<open>Properties\<close>

text \<open>C2: \<open>heap_malloc\<close> is first fit. For a request that does not wrap, with
  \<open>n\<close> the size in blocks, rounded up: it returns NULL and leaves the heap alone exactly when no \<open>n\<close> consecutive
  blocks are free; otherwise it returns the address of the lowest such run, writes the run's
  table entries (first, has-next) and no other entry.\<close>

theorem heap_malloc_first_fit:
  assumes "heap_wf h" and "0 < unat sz" and "unat sz + 4095 < 2 ^ 32"
  shows "case heap_malloc h sz of (p, h') \<Rightarrow>
      if p = 0 then h' = h \<and> (\<forall>s. \<not> free_run (heap_entries h) s ((unat sz + 4095) div 4096))
      else \<exists>s. first_fit (heap_entries h) ((unat sz + 4095) div 4096) s \<and>
             unat p = unat (saddr h) + s * 4096 \<and>
             (\<forall>i < length (heap_entries h). heap_entries h' ! i =
                (if s \<le> i \<and> i < s + (unat sz + 4095) div 4096
                 then heap_taken_entry s (s + (unat sz + 4095) div 4096 - 1) i
                 else heap_entries h ! i))"
proof -
  let ?n = "heap_align_value_upper sz div KERNEL_HEAP_BLOCK_SIZE"
  have n: "unat ?n = (unat sz + 4095) div 4096"
    using assms(3) by (simp add: kconfig unat_div_page unat_align_upper)
  then have "?n \<noteq> 0" using assms(2) by auto
  show ?thesis
  proof (cases rule: heap_malloc_blocks_cases [OF assms(1), of ?n])
    case (3 s)
    have "s \<le> length (heap_entries h)" using 3(2) by (simp add: first_fit_def free_run_def)
    then have "unat (heap_block_to_address h (of_nat s)) = unat (saddr h) + s * 4096"
      by (rule unat_block_address [OF assms(1)])
    moreover have "heap_entries (heap_mark_blocks_taken h (of_nat s) ?n) =
        heap_mark_taken_loop (heap_entries h) s (s + unat ?n - 1) s"
      by (rule heap_entries_taken [OF assms(1)])
        (use 3(2) n assms(2) in \<open>auto simp: first_fit_def free_run_def\<close>)
    moreover have "0 < unat ?n" using n assms(2) by auto
    ultimately show ?thesis
      using 3 by (auto simp: heap_malloc_eq n nth_mark_taken_loop intro!: exI [of _ s])
  qed (use \<open>?n \<noteq> 0\<close> n in \<open>simp_all add: heap_malloc_eq\<close>)
qed

theorem heap_malloc_first_fit_witness:
  "\<exists>s. first_fit (heap_entries tiny_heap) 2 s \<and> unat (fst (heap_malloc tiny_heap 5000)) = 4096 + s * 4096"
  using heap_malloc_first_fit [of tiny_heap 5000] tiny_heap_wf
  by (auto simp: tiny_heap_malloc tiny_heap_saddr)

text \<open>C1: \<open>heap_malloc\<close> and \<open>heap_free\<close> implement an allocation map. On a well-formed heap, a
  failed allocation changes nothing, a successful one adds exactly one fresh entry of
  \<open>heap_blocks sz\<close> blocks, and freeing a live address removes exactly that entry; both keep
  the heap well-formed.\<close>

theorem heap_refines_map:
  assumes "heap_wf h"
  shows "(case heap_malloc h sz of (p, h') \<Rightarrow>
            if p = 0 then h' = h
            else heap_wf h' \<and> heap_owned h p = None \<and> heap_owned h' = (heap_owned h)(p \<mapsto> heap_blocks sz)) \<and>
    (\<forall>q k. heap_owned h q = Some k \<longrightarrow>
            heap_wf (heap_free h q) \<and> heap_owned (heap_free h q) = (heap_owned h)(q := None))"
  using assms kernel_alloc.alloc_null [of h sz] kernel_alloc.alloc_some [of h sz]
    kernel_alloc.release_owned [of h]
  by (auto split: prod.splits)

theorem heap_refines_map_witness:
  "heap_owned (snd (heap_malloc tiny_heap 5000)) = [0x1000 \<mapsto> 2]"
  using heap_refines_map [OF tiny_heap_wf, of 5000]
  by (simp add: tiny_heap_malloc tiny_heap_owned heap_blocks_def heap_align_value_upper_def kconfig)

text \<open>C5: In every heap reached from a well-formed one by calls of \<open>heap_malloc\<close> and calls of
  \<open>heap_free\<close> on live allocations, two different live allocations never overlap, and each lies
  inside the region the heap was created for.\<close>

theorem heap_reachable_separated:
  assumes "heap_wf h" and "heap_step\<^sup>*\<^sup>* h h'"
    and "heap_owned h' p = Some k" and "heap_owned h' q = Some l" and "p \<noteq> q"
  shows "(unat p + k * 4096 \<le> unat q \<or> unat q + l * 4096 \<le> unat p) \<and>
    unat (saddr h) \<le> unat p \<and>
    unat p + k * 4096 \<le> unat (saddr h) + unat (ht_total (hp_table h)) * 4096"
  using heap_steps_wf [OF assms(2,1)] heap_owned_apart [of h' p k q l] heap_owned_range [of h' p k] assms(3-5)
  by auto

theorem heap_reachable_separated_witness:
  "\<exists>h'. heap_step\<^sup>*\<^sup>* tiny_heap h' \<and> heap_owned h' 0x1000 = Some 2 \<and> heap_owned h' 0x3000 = Some 1 \<and>
     unat (0x1000 :: u32) + 2 * 4096 \<le> unat (saddr tiny_heap) + unat (ht_total (hp_table tiny_heap)) * 4096"
proof -
  define h where "h = snd (heap_malloc tiny_heap 5000)"
  define h' where "h' = snd (heap_malloc h 100)"
  have "heap_step tiny_heap h"
    unfolding h_def by (rule heap_step.malloc [of _ 5000 "fst (heap_malloc tiny_heap 5000)"]) simp
  moreover have "heap_step h h'"
    unfolding h'_def by (rule heap_step.malloc [of _ 100 "fst (heap_malloc h 100)"]) simp
  ultimately have steps: "heap_step\<^sup>*\<^sup>* tiny_heap h'" by auto
  have h: "h = \<lparr>hp_table = \<lparr>enteies = [0xC1, 0x01, 0, 0], ht_total = 4\<rparr>, saddr = 0x1000\<rparr>"
    by (simp add: h_def tiny_heap_malloc)
  have "h' = \<lparr>hp_table = \<lparr>enteies = [0xC1, 0x01, 0x41, 0], ht_total = 4\<rparr>, saddr = 0x1000\<rparr>"
    unfolding h'_def h by (simp add: heap_malloc_eval)
  then have o: "heap_owned h' 0x1000 = Some 2" "heap_owned h' 0x3000 = Some 1"
    by (simp_all add: heap_owned_def heap_address_to_block_def heap_block_to_address_def
       heap_live_def heap_entries_def kconfig)
  show ?thesis
    using heap_reachable_separated [OF tiny_heap_wf steps o] steps o by auto
qed

text \<open>C6: Freeing what was just allocated restores the heap exactly, table bytes included; a
  failed allocation followed by \<open>heap_free\<close> of its NULL does too.\<close>

theorem heap_malloc_free_restores:
  assumes "heap_wf h" and "heap_malloc h sz = (p, h')"
  shows "heap_free h' p = h"
  by (rule kernel_alloc.alloc_release [OF assms])

theorem heap_malloc_free_restores_witness:
  "heap_free \<lparr>hp_table = \<lparr>enteies = [0xC1, 0x01, 0, 0], ht_total = 4\<rparr>, saddr = 0x1000\<rparr> 0x1000 = tiny_heap"
  by (rule heap_malloc_free_restores [OF tiny_heap_wf tiny_heap_malloc])

text \<open>Freeing a live allocation twice in a row does no more than freeing it once: no other
  allocation's table entries are touched. (\<open>process_terminate\<close> relies on this: it frees every
  argument string once as an allocation and once more through \<open>argv\<close>.)\<close>

lemma heap_double_free_idempotent:
  assumes "heap_wf h" and "heap_owned h p = Some k"
  shows "heap_free (heap_free h p) p = heap_free h p"
  by (rule heap_free_twice [OF assms])

lemma heap_double_free_idempotent_witness:
  "heap_free (heap_free (snd (heap_malloc tiny_heap 5000)) 0x1000) 0x1000 =
     heap_free (snd (heap_malloc tiny_heap 5000)) 0x1000"
proof -
  have "heap_wf (snd (heap_malloc tiny_heap 5000))"
    using heap_malloc_some(1) [OF tiny_heap_wf tiny_heap_malloc] by (simp add: tiny_heap_malloc)
  moreover have "heap_owned (snd (heap_malloc tiny_heap 5000)) 0x1000 = Some 2"
    by (simp add: tiny_heap_malloc heap_owned_def heap_address_to_block_def
        heap_block_to_address_def heap_live_def heap_entries_def kconfig)
  ultimately show ?thesis by (rule heap_double_free_idempotent)
qed

text \<open>C14: \<open>kzalloc\<close> hands out cleared memory and disturbs nobody else's: every byte of the
  requested size at the returned address is 0, and every byte of every allocation that was
  live before is unchanged.\<close>

theorem kzalloc_clears:
  assumes "kheap_ok ks" and "kzalloc ks sz = (p, ks')" and "p \<noteq> 0"
  shows "(\<forall>x. unat p \<le> unat x \<and> unat x < unat p + unat sz \<longrightarrow> kmem ks' x = 0) \<and>
    (\<forall>q k x. heap_owned (kernel_heap ks) q = Some k \<and> unat q \<le> unat x \<and> unat x < unat q + k * 4096 \<longrightarrow>
       kmem ks' x = kmem ks x)"
proof -
  have "unat sz \<le> heap_blocks sz * 4096"
    using assms by (intro heap_blocks_fit [of "kernel_heap ks" _ p "kernel_heap ks'"])
      (auto simp: kheap_ok_def dest: kzalloc_heap)
  then show ?thesis
    using kzalloc_zero [OF assms] kzalloc_frame [OF assms(1,2)] by auto
qed

theorem kzalloc_clears_witness:
  "kmem (snd (kzalloc boot_kstate 10)) 0x1000009 = 0"
  using kzalloc_clears [OF boot_kstate_ok(1), of 10 "0x1000000" "snd (kzalloc boot_kstate 10)"]
    boot_kzalloc surjective_pairing [of "kzalloc boot_kstate 10"]
  by simp

text \<open>A pointer from \<open>kzalloc\<close> is page aligned, lies with all the requested bytes inside
  the kernel heap region 0x01000000 to 0x07400000, and is never mistaken for an error code by
  \<open>IS_ERROR\<close>.\<close>

lemma kheap_pointer_range:
  assumes "kheap_ok ks" and "kzalloc ks sz = (p, ks')" and "p \<noteq> 0"
  shows "p mod 4096 = 0 \<and> 0x1000000 \<le> unat p \<and> unat p + unat sz \<le> 0x7400000 \<and> \<not> IS_ERROR p"
proof -
  have wf: "heap_wf (kernel_heap ks)" using assms(1) by (simp add: kheap_ok_def)
  note a = kernel_alloc.alloc_some [OF wf kzalloc_heap [OF assms(2)] assms(3)]
  then have o: "heap_owned (kernel_heap ks') p = Some (heap_blocks sz)" by simp
  have ok': "kheap_ok ks'" using assms by (blast intro: kheap_ok_alloc)
  have "unat sz \<le> heap_blocks sz * 4096"
    using wf assms(3) by (intro heap_blocks_fit [of "kernel_heap ks" _ p "kernel_heap ks'"])
      (auto intro: kzalloc_heap [OF assms(2)])
  then show ?thesis
    using kheap_owned_range [OF ok' o] kheap_owned_not_error [OF ok' o] by simp
qed

lemma kheap_pointer_range_witness:
  "(0x1000000 :: u32) mod 4096 = 0 \<and> \<not> IS_ERROR (fst (kzalloc boot_kstate 10))"
  using kheap_pointer_range [OF boot_kstate_ok(1), of 10 "0x1000000" "snd (kzalloc boot_kstate 10)"]
    boot_kzalloc surjective_pairing [of "kzalloc boot_kstate 10"]
  by simp

text \<open>Sizes near the top of the 32-bit range: rounding up to a block boundary wraps to 0
  exactly for the last 4095 sizes, and for those \<open>heap_malloc\<close> fails instead of returning a
  block that is too small; for every other size the rounded size is the least multiple of
  4096 that is large enough.\<close>

lemma heap_size_rounding:
  "(if unat sz + 4095 < 2 ^ 32
    then unat (heap_align_value_upper sz) = (unat sz + 4095) div 4096 * 4096
    else heap_align_value_upper sz = 0 \<and> heap_malloc h sz = (0, h))"
  using unat_align_upper [of sz] heap_malloc_too_big [of sz h] by (auto simp flip: unat_eq_iff_u32 [of _ 0])

end
