(* ===== verification/Paging.thy ===== *)
theory Paging
  imports Kheap Phys_Mem
begin

unbundle bit_operations_syntax

section \<open>Paging: arch/x86/kernel/paging.c\<close>

text \<open>
  A \<open>struct paging_4gb_chunk\<close> is, in memory, one word: the address of a page directory of 1024
  words, each the address of a page table of 1024 words with flag bits in the low 12. All
  three live on the kernel heap, so the functions below work on \<open>kstate\<close>: they allocate with
  \<open>kzalloc\<close> and read and write the words with \<open>load32\<close> and \<open>store32\<close>. Loading \<open>cr3\<close> is left
  to the processor; \<open>current_directory\<close> records the last directory loaded.

  The lemmas relate the tables to the abstract page map \<open>page_entry\<close> (page number to entry):
  writing one mapping is a function update of that map, \<open>paging_map_to\<close> maps exactly the pages
  of the requested range, and a new chunk is the identity on all 2^20 pages.
\<close>

definition PAGING_CACHE_DISABLED :: u32 where [kconfig]: "PAGING_CACHE_DISABLED = 0x10"
definition PAGING_WRITE_THROUGH :: u32 where [kconfig]: "PAGING_WRITE_THROUGH = 0x08"
definition PAGING_ACCESS_FROM_ALL :: u32 where [kconfig]: "PAGING_ACCESS_FROM_ALL = 0x04"
definition PAGING_IS_WRITEABLE :: u32 where [kconfig]: "PAGING_IS_WRITEABLE = 0x02"
definition PAGING_IS_PRESENT :: u32 where [kconfig]: "PAGING_IS_PRESENT = 0x01"
definition PAGING_TOTAL_ENTRIES_PER_TABLE :: nat where [kconfig]: "PAGING_TOTAL_ENTRIES_PER_TABLE = 1024"
definition PAGING_PAGE_SIZE :: u32 where [kconfig]: "PAGING_PAGE_SIZE = 4096"

record pgstate = kstate +
  current_directory :: u32

subsection \<open>Operations\<close>

definition paging_is_aligned :: "u32 \<Rightarrow> bool" where
  "paging_is_aligned addr \<longleftrightarrow> addr mod PAGING_PAGE_SIZE = 0"

text \<open>The two out-parameters keep the values they were passed with when the call fails.\<close>

definition paging_get_indexes :: "u32 \<Rightarrow> u32 \<Rightarrow> u32 \<Rightarrow> int \<times> u32 \<times> u32" where
  "paging_get_indexes virt directory_index table_index =
     (if virt = 0 \<or> \<not> paging_is_aligned virt then (- EINVAGS, directory_index, table_index)
      else (KERNEL_ALL_OK,
            virt div (PAGING_PAGE_SIZE * of_nat PAGING_TOTAL_ENTRIES_PER_TABLE),
            virt mod (PAGING_PAGE_SIZE * of_nat PAGING_TOTAL_ENTRIES_PER_TABLE) div PAGING_PAGE_SIZE))"

primrec paging_fill_table :: "mem \<Rightarrow> u32 \<Rightarrow> u32 \<Rightarrow> u8 \<Rightarrow> nat \<Rightarrow> mem" where
  "paging_fill_table m entry offset flag 0 = m"
| "paging_fill_table m entry offset flag (Suc j) =
     store32 (paging_fill_table m entry offset flag j) (word_at entry j)
       ((offset + of_nat j * PAGING_PAGE_SIZE) OR ucast flag)"

function paging_new_loop ::
    "'a kstate_scheme \<Rightarrow> u32 \<Rightarrow> u32 \<Rightarrow> u8 \<Rightarrow> nat \<Rightarrow> 'a kstate_scheme kresult" where
  "paging_new_loop ks directory offset flag i =
     (if i < PAGING_TOTAL_ENTRIES_PER_TABLE then
        let (entry, ks1) = kzalloc ks (4 * of_nat PAGING_TOTAL_ENTRIES_PER_TABLE) in
        if entry = 0 \<or> directory = 0 then Inl NullDeref
        else let m = paging_fill_table (kmem ks1) entry offset flag PAGING_TOTAL_ENTRIES_PER_TABLE;
                 offset' = offset + of_nat PAGING_TOTAL_ENTRIES_PER_TABLE * PAGING_PAGE_SIZE;
                 m' = store32 m (word_at directory i) (entry OR ucast flag OR PAGING_IS_WRITEABLE)
             in paging_new_loop (ks1\<lparr>kmem := m'\<rparr>) directory offset' flag (Suc i)
      else Inr ks)"
  by pat_completeness auto
termination
  by (relation "measure (\<lambda>(ks, d, off, flag, i). PAGING_TOTAL_ENTRIES_PER_TABLE - i)") auto

definition paging_new_4gb_chunk :: "'a kstate_scheme \<Rightarrow> u8 \<Rightarrow> (u32 \<times> 'a kstate_scheme) kresult" where
  "paging_new_4gb_chunk ks flag =
     (let (directory, ks1) = kzalloc ks (4 * of_nat PAGING_TOTAL_ENTRIES_PER_TABLE) in
      kbind (paging_new_loop ks1 directory 0 flag 0) (\<lambda>ks2.
      let (chunk, ks3) = kzalloc ks2 4 in
      if chunk = 0 then Inl NullDeref
      else Inr (chunk, ks3\<lparr>kmem := store32 (kmem ks3) chunk directory\<rparr>)))"

definition paging_4gb_chunk_get_directory :: "'a kstate_scheme \<Rightarrow> u32 \<Rightarrow> u32" where
  "paging_4gb_chunk_get_directory ks chunk = load32 (kmem ks) chunk"

definition paging_switch :: "'a pgstate_scheme \<Rightarrow> u32 \<Rightarrow> 'a pgstate_scheme" where
  "paging_switch ks chunk = ks\<lparr>current_directory := load32 (kmem ks) chunk\<rparr>"

definition paging_set :: "'a kstate_scheme \<Rightarrow> u32 \<Rightarrow> u32 \<Rightarrow> u32 \<Rightarrow> int \<times> 'a kstate_scheme" where
  "paging_set ks directory virt val =
     (if directory = 0 \<or> \<not> paging_is_aligned virt then (- EINVAGS, ks)
      else let (res, directory_index, table_index) = paging_get_indexes virt 0 0 in
        if res \<noteq> KERNEL_ALL_OK then (res, ks)
        else let directory_entry = load32 (kmem ks) (word_at directory (unat directory_index));
                 table = directory_entry AND 0xFFFFF000
             in (KERNEL_ALL_OK,
                 ks\<lparr>kmem := store32 (kmem ks) (word_at table (unat table_index)) val\<rparr>))"

definition paging_free_4gb :: "'a kstate_scheme \<Rightarrow> u32 \<Rightarrow> 'a kstate_scheme" where
  "paging_free_4gb ks chunk =
     (let ks1 = fold (\<lambda>i ks.
            let entry = load32 (kmem ks) (word_at (load32 (kmem ks) chunk) i);
                table = entry AND 0xFFFFF000
            in kfree ks table) [0..<PAGING_TOTAL_ENTRIES_PER_TABLE] ks;
          ks2 = kfree ks1 (load32 (kmem ks1) chunk)
      in kfree ks2 chunk)"

definition paging_map :: "'a kstate_scheme \<Rightarrow> u32 \<Rightarrow> u32 \<Rightarrow> u32 \<Rightarrow> u32 \<Rightarrow> int \<times> 'a kstate_scheme" where
  "paging_map ks chunk virt phys flags =
     (if virt mod PAGING_PAGE_SIZE \<noteq> 0 \<or> phys mod PAGING_PAGE_SIZE \<noteq> 0 then (- EINVAGS, ks)
      else paging_set ks (load32 (kmem ks) chunk) virt (phys OR flags))"

text \<open>The loop of \<open>paging_map_range\<close>: \<open>n\<close> iterations left, \<open>res\<close> the last result.\<close>

fun paging_map_range_loop ::
    "'a kstate_scheme \<Rightarrow> u32 \<Rightarrow> u32 \<Rightarrow> u32 \<Rightarrow> u32 \<Rightarrow> nat \<Rightarrow> int \<Rightarrow> int \<times> 'a kstate_scheme" where
  "paging_map_range_loop ks chunk virt phys flags 0 res = (res, ks)"
| "paging_map_range_loop ks chunk virt phys flags (Suc n) res =
     (let (res', ks') = paging_map ks chunk virt phys flags in
      if res' < 0 then (res', ks')
      else paging_map_range_loop ks' chunk (virt + PAGING_PAGE_SIZE) (phys + PAGING_PAGE_SIZE) flags n res')"

definition paging_map_range ::
    "'a kstate_scheme \<Rightarrow> u32 \<Rightarrow> u32 \<Rightarrow> u32 \<Rightarrow> int \<Rightarrow> u32 \<Rightarrow> int \<times> 'a kstate_scheme" where
  "paging_map_range ks chunk virt phys count flags =
     paging_map_range_loop ks chunk virt phys flags (nat count) 0"

definition paging_map_to ::
    "'a kstate_scheme \<Rightarrow> u32 \<Rightarrow> u32 \<Rightarrow> u32 \<Rightarrow> u32 \<Rightarrow> u32 \<Rightarrow> int \<times> 'a kstate_scheme" where
  "paging_map_to ks chunk virt phys phys_end flags =
     (if virt mod PAGING_PAGE_SIZE \<noteq> 0 then (- EINVAGS, ks)
      else if phys mod PAGING_PAGE_SIZE \<noteq> 0 then (- EINVAGS, ks)
      else if phys_end mod PAGING_PAGE_SIZE \<noteq> 0 then (- EINVAGS, ks)
      else if phys > phys_end then (- EINVAGS, ks)
      else let total_bytes = phys_end - phys;
               total_pages = uint (total_bytes div PAGING_PAGE_SIZE)
           in paging_map_range ks chunk virt phys total_pages flags)"

definition paging_align_lower_address :: "u32 \<Rightarrow> u32" where
  "paging_align_lower_address ptr = ptr - ptr mod PAGING_PAGE_SIZE"

definition paging_align_address :: "u32 \<Rightarrow> u32" where
  "paging_align_address ptr =
     (if ptr mod PAGING_PAGE_SIZE \<noteq> 0 then ptr + PAGING_PAGE_SIZE - ptr mod PAGING_PAGE_SIZE else ptr)"

definition paging_get :: "'a kstate_scheme \<Rightarrow> u32 \<Rightarrow> u32 \<Rightarrow> u32" where
  "paging_get ks chunk virt =
     (let (res, directory_index, table_index) = paging_get_indexes virt 0 0;
          entry = load32 (kmem ks) (word_at (load32 (kmem ks) chunk) (unat directory_index));
          table = entry AND 0xFFFFF000
      in load32 (kmem ks) (word_at table (unat table_index)))"

definition paging_get_physical_address :: "'a kstate_scheme \<Rightarrow> u32 \<Rightarrow> u32 \<Rightarrow> u32" where
  "paging_get_physical_address ks chunk virt =
     (let virt_addr_new = paging_align_lower_address virt;
          offset = virt - virt_addr_new
      in (paging_get ks chunk virt_addr_new AND 0xFFFFF000) + offset)"

declare paging_new_loop.simps [simp del]

subsection \<open>Page frames and flag bits\<close>

lemma page_mask: "(0xFFFFF000 :: u32) = NOT (mask 12)"
  by (simp add: mask_eq_exp_minus_1)

lemma page_aligned_take_bit: "page_aligned p \<longleftrightarrow> take_bit 12 p = 0"
  by (simp add: page_aligned_def take_bit_eq_mod)

lemma page_aligned_mask [simp]: "page_aligned (x AND 0xFFFFF000)"
  unfolding page_aligned_take_bit page_mask by (simp add: take_bit_eq_mask and.assoc)

lemma page_frame_unique:
  assumes "page_aligned p" "page_aligned q" "drop_bit 12 p = drop_bit 12 q"
  shows "p = q"
  using assms bits_ident [of 12 p] bits_ident [of 12 q] by (simp add: page_aligned_take_bit)

lemma page_mask_or:
  assumes "page_aligned p" and "unat f < 4096"
  shows "(p OR f) AND 0xFFFFF000 = p"
proof (rule page_frame_unique)
  have "drop_bit 12 f = 0"
    using assms(2) unat_div_page [of f] by (simp add: drop_bit_eq_div flip: unat_eq_zero)
  then show "drop_bit 12 ((p OR f) AND 0xFFFFF000) = drop_bit 12 p"
    unfolding page_mask by (auto simp: bit_eq_iff bit_simps dest: bit_imp_le_length)
qed (use assms in simp_all)

subsection \<open>Bytes of a page\<close>

definition in_page :: "u32 \<Rightarrow> u32 \<Rightarrow> bool" where
  "in_page p x \<longleftrightarrow> unat p \<le> unat x \<and> unat x < unat p + 4096"

lemma in_page_unique:
  assumes "page_aligned p" "page_aligned q" "in_page p x" "in_page q x"
  shows "p = q"
proof -
  from assms obtain a b where ab: "unat p = 4096 * a" "unat q = 4096 * b"
    using page_multiple page_aligned_def by metis
  with assms(3,4) have "a = b" by (simp add: in_page_def)
  with ab show ?thesis by (simp flip: unat_eq_iff_u32)
qed

lemma in_page_word:
  assumes "page_aligned p" "i < 1024" "k < 4"
  shows "in_page p (word_at p i + of_nat k)"
  using assms unat_aligned4_add [of "word_at p i" k] unat_word_at [of p i] by (simp add: in_page_def)

lemma load32_page_cong:
  assumes "page_aligned p" "i < 1024" "\<And>x. in_page p x \<Longrightarrow> m' x = m x"
  shows "load32 m' (word_at p i) = load32 m (word_at p i)"
  by (rule load32_cong) (use assms in_page_word in blast)

lemma store32_outside:
  assumes "page_aligned p" "i < 1024" "\<not> in_page p x"
  shows "store32 m (word_at p i) v x = m x"
  by (rule store32_other) (use assms in_page_word in blast)

subsection \<open>The page map of a chunk\<close>

definition page_table :: "mem \<Rightarrow> u32 \<Rightarrow> nat \<Rightarrow> u32" where
  "page_table m chunk i = load32 m (word_at (load32 m chunk) i) AND 0xFFFFF000"

definition page_entry :: "mem \<Rightarrow> u32 \<Rightarrow> nat \<Rightarrow> u32" where
  "page_entry m chunk n = load32 m (word_at (page_table m chunk (n div 1024)) (n mod 1024))"

text \<open>The 1026 pages a chunk occupies: the chunk itself, its directory and its tables.\<close>

definition chunk_frames :: "mem \<Rightarrow> u32 \<Rightarrow> u32 list" where
  "chunk_frames m chunk = chunk # load32 m chunk # map (page_table m chunk) [0..<1024]"

definition chunk_wf :: "mem \<Rightarrow> u32 \<Rightarrow> bool" where
  "chunk_wf m chunk \<longleftrightarrow> page_aligned chunk \<and> chunk \<noteq> 0 \<and> page_aligned (load32 m chunk) \<and>
     load32 m chunk \<noteq> 0 \<and> chunk \<noteq> load32 m chunk \<and>
     (\<forall>i < 1024. page_aligned (page_table m chunk i) \<and> page_table m chunk i \<noteq> 0 \<and>
        page_table m chunk i \<noteq> chunk \<and> page_table m chunk i \<noteq> load32 m chunk) \<and>
     (\<forall>i < 1024. \<forall>j < 1024. page_table m chunk i = page_table m chunk j \<longrightarrow> i = j)"

lemma chunk_wfD:
  assumes "chunk_wf m chunk"
  shows "page_aligned chunk" "chunk \<noteq> 0" "page_aligned (load32 m chunk)" "load32 m chunk \<noteq> 0"
    "chunk \<noteq> load32 m chunk"
    "i < 1024 \<Longrightarrow> page_aligned (page_table m chunk i) \<and> page_table m chunk i \<noteq> 0 \<and>
       page_table m chunk i \<noteq> chunk \<and> page_table m chunk i \<noteq> load32 m chunk"
    "i < 1024 \<Longrightarrow> j < 1024 \<Longrightarrow> page_table m chunk i = page_table m chunk j \<longleftrightarrow> i = j"
  using assms unfolding chunk_wf_def by blast+

lemma unat_div_dir: "unat (v div 4194304 :: u32) = unat v div 4194304"
  by (simp add: unat_div_distrib)

lemma paging_get_indexes_ok:
  assumes "page_aligned virt" "virt \<noteq> 0"
  shows "\<exists>d t. paging_get_indexes virt x y = (0, d, t) \<and>
     unat d = unat virt div 4096 div 1024 \<and> unat t = unat virt div 4096 mod 1024"
proof -
  have "unat virt div 4194304 = unat virt div 4096 div 1024" by (simp add: div_mult2_eq)
  moreover have "unat virt mod 4194304 div 4096 = unat virt div 4096 mod 1024"
    using mod_mult2_eq [of "unat virt" 4096 1024] by simp
  ultimately show ?thesis
    using assms by (simp add: paging_get_indexes_def paging_is_aligned_def kconfig page_aligned_def
        unat_div_distrib unat_mod_distrib)
qed

lemma paging_get_eq:
  assumes "page_aligned virt"
  shows "paging_get ks chunk virt = page_entry (kmem ks) chunk (unat virt div 4096)"
proof (cases "virt = 0")
  case True
  then show ?thesis
    by (simp add: paging_get_def paging_get_indexes_def page_entry_def page_table_def)
next
  case False
  then show ?thesis
    using paging_get_indexes_ok [OF assms False, of 0 0]
    by (auto simp: paging_get_def page_entry_def page_table_def)
qed

lemma paging_get_physical_address_eq:
  "paging_get_physical_address ks chunk v =
     (page_entry (kmem ks) chunk (unat v div 4096) AND 0xFFFFF000) + v mod 4096"
proof -
  have le: "unat (v mod 4096) \<le> unat v" by (simp add: unat_mod_page)
  then have u: "unat (v - v mod 4096) = unat v - unat v mod 4096"
    using unat_sub_le [OF le] by (simp add: unat_mod_page)
  then have a: "page_aligned (v - v mod 4096)"
    by (simp add: page_aligned_def mod_page_0_iff minus_mod_eq_mult_div)
  have "unat (v - v mod 4096) div 4096 = unat v div 4096"
    using u by (simp add: minus_mod_eq_mult_div)
  with a show ?thesis
    by (simp add: paging_get_physical_address_def paging_align_lower_address_def paging_get_eq kconfig)
qed

text \<open>Two memories that agree on the chunk's own word and directory have the same tables.\<close>

lemma page_table_store:
  assumes wf: "chunk_wf m chunk" and k: "k < 1024" "j < 1024"
  shows "load32 (store32 m (word_at (page_table m chunk k) j) v) chunk = load32 m chunk"
    "i < 1024 \<Longrightarrow> page_table (store32 m (word_at (page_table m chunk k) j) v) chunk i = page_table m chunk i"
proof -
  note w = chunk_wfD [OF wf]
  have "aligned4 chunk" and "word_at (page_table m chunk k) j \<noteq> chunk"
    using w(1) w(6) [OF k(1)] aligned4_word_at [of chunk 0] k(2)
      word_at_eq_iff [of "page_table m chunk k" chunk j 0]
    by (auto simp: word_at_def)
  then show *: "load32 (store32 m (word_at (page_table m chunk k) j) v) chunk = load32 m chunk"
    using w(6) [OF k(1)] k(2) by simp
  assume i: "i < 1024"
  have "word_at (page_table m chunk k) j \<noteq> word_at (load32 m chunk) i"
    using w(3) w(6) [OF k(1)] k(2) i by (simp add: word_at_eq_iff)
  then show "page_table (store32 m (word_at (page_table m chunk k) j) v) chunk i = page_table m chunk i"
    unfolding page_table_def [of "store32 _ _ _"] *
    using w(3) w(6) [OF k(1)] k(2) i by (simp add: page_table_def)
qed

text \<open>Writing one entry is a function update of the page map, and moves no table.\<close>

lemma page_entry_store:
  assumes wf: "chunk_wf m chunk" and k: "k < 2 ^ 20" and n: "n < 2 ^ 20"
  shows "page_entry (store32 m (word_at (page_table m chunk (k div 1024)) (k mod 1024)) v) chunk n =
           (if n = k then v else page_entry m chunk n)"
proof -
  have kd: "k div 1024 < 1024" "k mod 1024 < 1024" and nd: "n div 1024 < 1024" "n mod 1024 < 1024"
    using k n by (simp_all add: less_mult_imp_div_less)
  note w = chunk_wfD [OF wf]
  have "n = k \<longleftrightarrow> n div 1024 = k div 1024 \<and> n mod 1024 = k mod 1024"
    by (metis div_mult_mod_eq)
  moreover have "word_at (page_table m chunk (k div 1024)) (k mod 1024) = word_at (page_table m chunk (n div 1024)) (n mod 1024)
      \<longleftrightarrow> k div 1024 = n div 1024 \<and> k mod 1024 = n mod 1024"
    using w(6) [OF kd(1)] w(6) [OF nd(1)] w(7) [OF kd(1) nd(1)] kd nd by (simp add: word_at_eq_iff)
  ultimately show ?thesis
    unfolding page_entry_def page_table_store(2) [OF wf kd nd(1)]
    using w(6) [OF kd(1)] w(6) [OF nd(1)] kd nd by auto
qed

lemma chunk_frames_store:
  assumes "chunk_wf m chunk" "k < 1024" "j < 1024"
  shows "chunk_frames (store32 m (word_at (page_table m chunk k) j) v) chunk = chunk_frames m chunk"
  using page_table_store [OF assms] by (auto simp: chunk_frames_def)

lemma chunk_frames_eq:
  "chunk_frames m' chunk = chunk_frames m chunk \<longleftrightarrow>
     load32 m' chunk = load32 m chunk \<and> (\<forall>i < 1024. page_table m' chunk i = page_table m chunk i)"
  by (simp add: chunk_frames_def Ball_def)

lemma chunk_wf_frames:
  assumes "chunk_frames m' chunk = chunk_frames m chunk" "chunk_wf m chunk"
  shows "chunk_wf m' chunk"
  using assms unfolding chunk_frames_eq chunk_wf_def by simp

lemma paging_set_ok:
  assumes wf: "chunk_wf (kmem ks) chunk" and v: "page_aligned virt" "virt \<noteq> 0"
  obtains ks' where "paging_set ks (load32 (kmem ks) chunk) virt val = (0, ks')"
    "chunk_frames (kmem ks') chunk = chunk_frames (kmem ks) chunk"
    "\<forall>n < 2 ^ 20. page_entry (kmem ks') chunk n =
       (if n = unat virt div 4096 then val else page_entry (kmem ks) chunk n)"
    "ks' = ks\<lparr>kmem := kmem ks'\<rparr>"
    "\<forall>x. (\<forall>t \<in> set (chunk_frames (kmem ks) chunk). \<not> in_page t x) \<longrightarrow> kmem ks' x = kmem ks x"
proof -
  let ?k = "unat virt div 4096"
  have k: "?k < 2 ^ 20" using unat_u32_less [of virt] by simp
  then have kd: "?k div 1024 < 1024" "?k mod 1024 < 1024" by (simp_all add: less_mult_imp_div_less)
  let ?m = "store32 (kmem ks) (word_at (page_table (kmem ks) chunk (?k div 1024)) (?k mod 1024)) val"
  have "paging_set ks (load32 (kmem ks) chunk) virt val = (0, ks\<lparr>kmem := ?m\<rparr>)"
    using paging_get_indexes_ok [OF v, of 0 0] chunk_wfD(4) [OF wf] v
    by (auto simp: paging_set_def paging_is_aligned_def kconfig page_aligned_def page_table_def)
  moreover have "?m x = kmem ks x" if "\<forall>t \<in> set (chunk_frames (kmem ks) chunk). \<not> in_page t x" for x
    using that kd chunk_wfD(6) [OF wf kd(1)] by (intro store32_outside) (auto simp: chunk_frames_def)
  ultimately show thesis
    using that [of "ks\<lparr>kmem := ?m\<rparr>"] chunk_frames_store [OF wf kd] page_entry_store [OF wf k]
    by simp
qed

subsection \<open>Mapping a range\<close>

lemma page_aligned_add: "page_aligned v \<Longrightarrow> page_aligned (v + 4096)"
  by (simp add: page_aligned_def mod_page_0_iff unat_word_ariths mod_mod_cancel)

lemma unat_next_page:
  assumes "unat v + 4096 < 4294967296"
  shows "unat (v + 4096 :: u32) = unat v + 4096"
  using unat_of_nat_u32 [OF assms] by simp

text \<open>\<open>remaps m m' chunk vp n phys flags\<close>: from \<open>m\<close> to \<open>m'\<close>, the \<open>n\<close> pages from page \<open>vp\<close> on
  come to point at consecutive frames from \<open>phys\<close> on, no other page changes, and no memory outside
  the chunk's own pages is written.\<close>

definition remaps :: "mem \<Rightarrow> mem \<Rightarrow> u32 \<Rightarrow> nat \<Rightarrow> nat \<Rightarrow> u32 \<Rightarrow> u32 \<Rightarrow> bool" where
  "remaps m m' chunk vp n phys flags \<longleftrightarrow>
     chunk_frames m' chunk = chunk_frames m chunk \<and>
     (\<forall>x. (\<forall>t \<in> set (chunk_frames m chunk). \<not> in_page t x) \<longrightarrow> m' x = m x) \<and>
     (\<forall>k < 2 ^ 20. page_entry m' chunk k =
        (if vp \<le> k \<and> k < vp + n then (phys + of_nat (k - vp) * 4096) OR flags else page_entry m chunk k))"

lemma remaps_0: "remaps m m chunk vp 0 phys flags"
  by (auto simp: remaps_def)

lemma remaps_Suc:
  assumes "remaps m m1 chunk vp 1 phys flags" "remaps m1 m' chunk (Suc vp) n (phys + 4096) flags"
  shows "remaps m m' chunk vp (Suc n) phys flags"
proof -
  have "page_entry m' chunk k =
      (if vp \<le> k \<and> k < vp + Suc n then (phys + of_nat (k - vp) * 4096) OR flags
       else page_entry m chunk k)" if k: "k < 2 ^ 20" for k
  proof (cases "Suc vp \<le> k")
    case True
    then have "k - vp = Suc (k - Suc vp)" by simp
    then have "phys + of_nat (k - vp) * 4096 = phys + 4096 + of_nat (k - Suc vp) * 4096"
      by (simp only: of_nat_Suc) (simp add: algebra_simps)
    with True k assms show ?thesis by (simp add: remaps_def add.assoc del: of_nat_diff)
  next
    case False
    with k assms show ?thesis by (auto simp: remaps_def)
  qed
  with assms show ?thesis by (simp add: remaps_def)
qed

lemma paging_map_ok:
  assumes "chunk_wf (kmem ks) chunk" "page_aligned virt" "page_aligned phys" "virt \<noteq> 0"
  obtains m' where "paging_map ks chunk virt phys flags = (0, ks\<lparr>kmem := m'\<rparr>)"
    "remaps (kmem ks) m' chunk (unat virt div 4096) 1 phys flags"
proof -
  from paging_set_ok [OF assms(1,2,4), of "phys OR flags"] obtain ks'
    where s: "paging_set ks (load32 (kmem ks) chunk) virt (phys OR flags) = (0, ks')"
      "chunk_frames (kmem ks') chunk = chunk_frames (kmem ks) chunk"
      "\<forall>k < 2 ^ 20. page_entry (kmem ks') chunk k =
         (if k = unat virt div 4096 then phys OR flags else page_entry (kmem ks) chunk k)"
      "ks' = ks\<lparr>kmem := kmem ks'\<rparr>"
      "\<forall>x. (\<forall>t \<in> set (chunk_frames (kmem ks) chunk). \<not> in_page t x) \<longrightarrow> kmem ks' x = kmem ks x" .
  then have "remaps (kmem ks) (kmem ks') chunk (unat virt div 4096) 1 phys flags"
    by (simp add: remaps_def)
  moreover have "paging_map ks chunk virt phys flags = (0, ks\<lparr>kmem := kmem ks'\<rparr>)"
    using s(1,4) assms(2,3) by (simp add: paging_map_def kconfig page_aligned_def)
  ultimately show thesis by (rule that [rotated])
qed

lemma paging_map_range_loop_ok:
  assumes "chunk_wf (kmem ks) chunk" "page_aligned virt" "page_aligned phys"
    and "0 < n \<Longrightarrow> virt \<noteq> 0" and "unat virt + n * 4096 \<le> 4294967296"
  shows "\<exists>m'. paging_map_range_loop ks chunk virt phys flags n res = (if n = 0 then res else 0, ks\<lparr>kmem := m'\<rparr>) \<and>
     remaps (kmem ks) m' chunk (unat virt div 4096) n phys flags"
  using assms
proof (induction n arbitrary: ks virt phys res)
  case 0
  then show ?case by (auto intro!: exI [of _ "kmem ks"] remaps_0)
next
  case (Suc n)
  from Suc.prems have "virt \<noteq> 0" by simp
  from paging_map_ok [OF Suc.prems(1-3) this, of flags]
  obtain m where m: "paging_map ks chunk virt phys flags = (0, ks\<lparr>kmem := m\<rparr>)"
    "remaps (kmem ks) m chunk (unat virt div 4096) 1 phys flags" by metis
  then have wf: "chunk_wf m chunk" using chunk_wf_frames Suc.prems(1) by (auto simp: remaps_def)
  show ?case
  proof (cases "n = 0")
    case True
    with m show ?thesis by (auto simp: kconfig)
  next
    case False
    then have u: "unat (virt + 4096) = unat virt + 4096"
      using Suc.prems(5) by (intro unat_next_page) auto
    then have v: "unat (virt + 4096) div 4096 = Suc (unat virt div 4096)" by simp
    from u have "virt + 4096 \<noteq> 0" by (metis add_is_0 unat_0 zero_neq_numeral)
    moreover have "unat (virt + 4096) + n * 4096 \<le> 4294967296" using u Suc.prems(5) by simp
    ultimately obtain m' where
      "paging_map_range_loop (ks\<lparr>kmem := m\<rparr>) chunk (virt + 4096) (phys + 4096) flags n 0 = (0, ks\<lparr>kmem := m'\<rparr>)"
      "remaps m m' chunk (Suc (unat virt div 4096)) n (phys + 4096) flags"
      using Suc.IH [of "ks\<lparr>kmem := m\<rparr>" "virt + 4096" "phys + 4096" 0] Suc.prems(2,3) wf page_aligned_add
      unfolding v by auto
    with m show ?thesis using remaps_Suc by (auto simp: kconfig)
  qed
qed

lemma paging_map_to_ok:
  assumes "chunk_wf (kmem ks) chunk" "page_aligned virt" "page_aligned phys" "page_aligned phys_end"
    and "phys \<le> phys_end" and "virt \<noteq> 0" and "unat virt + (unat phys_end - unat phys) \<le> 4294967296"
  obtains m' where "paging_map_to ks chunk virt phys phys_end flags = (0, ks\<lparr>kmem := m'\<rparr>)"
    "remaps (kmem ks) m' chunk (unat virt div 4096) ((unat phys_end - unat phys) div 4096) phys flags"
proof -
  let ?n = "(unat phys_end - unat phys) div 4096"
  have "unat (phys_end - phys) = unat phys_end - unat phys"
    using assms(5) by (intro unat_sub_le) (simp add: word_le_nat_alt)
  then have n: "nat (uint ((phys_end - phys) div 4096)) = ?n"
    by (simp add: unat_div_page flip: unat_eq_nat_uint)
  have "?n * 4096 \<le> unat phys_end - unat phys" by simp
  with assms(7) have "unat virt + ?n * 4096 \<le> 4294967296" by linarith
  from paging_map_range_loop_ok [OF assms(1-3) _ this, of flags 0] assms(6)
  obtain m' where "paging_map_range_loop ks chunk virt phys flags ?n 0 = (0, ks\<lparr>kmem := m'\<rparr>)"
    "remaps (kmem ks) m' chunk (unat virt div 4096) ?n phys flags"
    by auto
  moreover have "\<not> phys_end < phys" using assms(5) by simp
  ultimately show thesis
    using that [of m'] assms(2-4) n
    by (simp add: paging_map_to_def paging_map_range_def page_aligned_def kconfig)
qed

subsection \<open>Building and freeing a chunk\<close>

lemma paging_fill_table_outside:
  assumes "page_aligned e" "n \<le> 1024" "\<not> in_page e x"
  shows "paging_fill_table m e off flag n x = m x"
  using assms(2) by (induction n) (simp_all add: store32_outside [OF assms(1) _ assms(3)])

lemma paging_fill_table_entry:
  assumes "page_aligned e" "n \<le> 1024" "k < n"
  shows "load32 (paging_fill_table m e off flag n) (word_at e k) = (off + of_nat k * 4096) OR ucast flag"
  using assms(2,3)
proof (induction n)
  case (Suc n)
  then show ?case
    by (cases "k = n") (use assms(1) in \<open>simp_all add: word_at_eq_iff kconfig\<close>)
qed simp

text \<open>The state of \<open>paging_new_4gb_chunk\<close> when the tables \<open>ts\<close> are in place: \<open>h0\<close>, \<open>m0\<close> are the heap and
  the memory before the first one.\<close>

definition tables_built :: "heap \<Rightarrow> mem \<Rightarrow> u32 \<Rightarrow> u8 \<Rightarrow> u32 list \<Rightarrow> 'a kstate_scheme \<Rightarrow> bool" where
  "tables_built h0 m0 dir flag ts ks \<longleftrightarrow>
     kheap_ok ks \<and> heap_used (kernel_heap ks) = heap_used h0 + length ts \<and>
     distinct ts \<and> (\<forall>t \<in> set ts. heap_owned h0 t = None) \<and>
     heap_owned (kernel_heap ks) = (\<lambda>p. if p \<in> set ts then Some 1 else heap_owned h0 p) \<and>
     (\<forall>j < length ts. load32 (kmem ks) (word_at dir j) = ts ! j OR ucast flag OR PAGING_IS_WRITEABLE) \<and>
     (\<forall>j < length ts. \<forall>k < 1024. load32 (kmem ks) (word_at (ts ! j) k) =
        (of_nat j * 4194304 + of_nat k * 4096) OR ucast flag) \<and>
     (\<forall>q k x. heap_owned h0 q = Some k \<and> q \<noteq> dir \<and> unat q \<le> unat x \<and> unat x < unat q + k * 4096 \<longrightarrow>
        kmem ks x = m0 x)"

lemma owned_page_aligned:
  "kheap_ok ks \<Longrightarrow> heap_owned (kernel_heap ks) p = Some k \<Longrightarrow> page_aligned p"
  using kheap_owned_range [of ks p k] by (simp add: page_aligned_def)

lemma owned_apart_page:
  assumes "kheap_ok ks" "heap_owned (kernel_heap ks) p = Some 1" "heap_owned (kernel_heap ks) q = Some k"
    "p \<noteq> q" "unat q \<le> unat x" "unat x < unat q + k * 4096"
  shows "\<not> in_page p x"
  using kernel_alloc.owned_apart [of "kernel_heap ks" p 1 q k] assms
  by (auto simp: kheap_ok_def in_page_def)

lemma heap_blocks_page: "heap_blocks (4 * of_nat PAGING_TOTAL_ENTRIES_PER_TABLE) = 1" "heap_blocks 4 = 1"
  by (simp_all add: heap_blocks_def heap_align_value_upper_def kconfig)

text \<open>What one round of the loop writes: the table \<open>e\<close>, and its entry of the directory.\<close>

lemma table_write:
  assumes al: "page_aligned e" "page_aligned dir" "e \<noteq> dir" and i: "i < 1024"
    and m: "m = store32 (paging_fill_table m1 e off flag 1024) (word_at dir i) v"
  shows "load32 m (word_at dir i) = v"
    and "j < 1024 \<Longrightarrow> j \<noteq> i \<Longrightarrow> load32 m (word_at dir j) = load32 m1 (word_at dir j)"
    and "k < 1024 \<Longrightarrow> load32 m (word_at e k) = (off + of_nat k * 4096) OR ucast flag"
    and "\<not> in_page e x \<Longrightarrow> \<not> in_page dir x \<Longrightarrow> m x = m1 x"
proof -
  show "load32 m (word_at dir i) = v" by (simp add: m)
  show "load32 m (word_at e k) = (off + of_nat k * 4096) OR ucast flag" if "k < 1024"
  proof -
    have "load32 m (word_at e k) = load32 (paging_fill_table m1 e off flag 1024) (word_at e k)"
      unfolding m using that al i by (intro load32_store32_other) (simp_all add: word_at_eq_iff)
    then show ?thesis using that al(1) by (simp add: paging_fill_table_entry)
  qed
  show "m x = m1 x" if "\<not> in_page e x" "\<not> in_page dir x"
    using that al i by (simp add: m store32_outside paging_fill_table_outside)
  show "load32 m (word_at dir j) = load32 m1 (word_at dir j)" if "j < 1024" "j \<noteq> i"
  proof -
    have "load32 m (word_at dir j) = load32 (paging_fill_table m1 e off flag 1024) (word_at dir j)"
      unfolding m using that al i by (intro load32_store32_other) (simp_all add: word_at_eq_iff)
    also have "\<dots> = load32 m1 (word_at dir j)"
      by (rule load32_page_cong [OF al(2) that(1)], rule paging_fill_table_outside [OF al(1) order_refl])
        (use al in_page_unique in blast)
    finally show ?thesis .
  qed
qed

lemma owned_page_load:
  assumes ok: "kheap_ok ks" and p: "heap_owned (kernel_heap ks) p = Some 1" and k: "k < 1024"
    and eq: "\<And>x. unat p \<le> unat x \<Longrightarrow> unat x < unat p + 1 * 4096 \<Longrightarrow> m' x = m x"
  shows "load32 m' (word_at p k) = load32 m (word_at p k)"
  by (rule load32_page_cong [OF owned_page_aligned [OF ok p] k]) (simp add: in_page_def eq)

lemma tables_built_step:
  assumes b: "tables_built h0 m0 dir flag ts ks" and dir: "heap_owned h0 dir = Some 1"
    and len: "length ts < 1024"
    and a: "kzalloc ks (4 * of_nat PAGING_TOTAL_ENTRIES_PER_TABLE) = (e, ks1)" and e: "e \<noteq> 0"
    and m: "m = store32 (paging_fill_table (kmem ks1) e (of_nat (length ts) * 4194304) flag 1024)
      (word_at dir (length ts)) (e OR ucast flag OR PAGING_IS_WRITEABLE)"
  shows "tables_built h0 m0 dir flag (ts @ [e]) (ks1\<lparr>kmem := m\<rparr>)"
proof -
  have ok: "kheap_ok ks" and wf: "heap_wf (kernel_heap ks)" using b by (simp_all add: tables_built_def kheap_ok_def)
  note s = kernel_alloc.alloc_some [OF wf kzalloc_heap [OF a] e, unfolded heap_blocks_page]
  have ok1: "kheap_ok ks1" by (rule kheap_ok_alloc(1) [OF ok a])
  have own1: "heap_owned (kernel_heap ks1) = (\<lambda>p. if p \<in> set (ts @ [e]) then Some 1 else heap_owned h0 p)"
    and new: "e \<notin> set ts" "heap_owned h0 e = None"
    using s b by (auto simp: tables_built_def fun_eq_iff split: if_splits)
  have dts: "dir \<notin> set ts" "e \<noteq> dir" using b dir new by (auto simp: tables_built_def)
  then have o: "heap_owned (kernel_heap ks1) e = Some 1" "heap_owned (kernel_heap ks1) dir = Some 1"
    and od: "heap_owned (kernel_heap ks) dir = Some 1"
    using own1 dir b by (auto simp: tables_built_def)
  note al = owned_page_aligned [OF ok1 o(1)] owned_page_aligned [OF ok1 o(2)]
  note w = table_write [OF al dts(2) len m]
  have frame: "m x = kmem ks x"
    if "heap_owned (kernel_heap ks) q = Some k" "unat q \<le> unat x" "unat x < unat q + k * 4096" "q \<noteq> dir" for q k x
  proof -
    have q1: "heap_owned (kernel_heap ks1) q = Some k" and "q \<noteq> e" using that(1) s by auto
    then show ?thesis
      using owned_apart_page [OF ok1 o(1) q1] owned_apart_page [OF ok1 o(2) q1] that
        kzalloc_frame [OF ok a that(1-3)] w(4) by auto
  qed
  have dirold: "load32 m (word_at dir j) = load32 (kmem ks) (word_at dir j)" if "j < length ts" for j
    using w(2) [of j] owned_page_load [OF ok od, of j, OF _ kzalloc_frame [OF ok a od]] that len by simp
  have told: "load32 m (word_at (ts ! j) k) = load32 (kmem ks) (word_at (ts ! j) k)"
    if "j < length ts" "k < 1024" for j k
  proof -
    have oj: "heap_owned (kernel_heap ks) (ts ! j) = Some 1" "ts ! j \<noteq> dir"
      using that b dts nth_mem [OF \<open>j < length ts\<close>] by (auto simp: tables_built_def)
    show ?thesis by (rule owned_page_load [OF ok oj(1) that(2) frame [OF oj(1) _ _ oj(2)]])
  qed
  have used: "heap_used (kernel_heap ks1) = Suc (heap_used (kernel_heap ks))"
    using heap_used_alloc [of "kernel_heap ks" e "kernel_heap ks1" 1] s by simp
  have keep: "m x = m0 x" if "heap_owned h0 q = Some k" "q \<noteq> dir" "unat q \<le> unat x" "unat x < unat q + k * 4096"
    for q k x
  proof -
    have "heap_owned (kernel_heap ks) q = Some k" using that b by (auto simp: tables_built_def)
    with frame [OF this] that b show ?thesis by (simp add: tables_built_def)
  qed
  have "kheap_ok (ks1\<lparr>kmem := m\<rparr>)" using ok1 by (simp add: kheap_ok_def)
  then show ?thesis
    using b used new own1 dirold told w(1,3) keep
    by (auto simp: tables_built_def nth_append less_Suc_eq)
qed

lemma paging_new_loop_ok:
  assumes "tables_built h0 m0 dir flag ts ks" "length ts \<le> 1024"
    and dir: "heap_owned h0 dir = Some 1" "dir \<noteq> 0" and room: "heap_used h0 + 1024 \<le> 25600"
  shows "\<exists>ts' ks'. paging_new_loop ks dir (of_nat (length ts) * 4194304) flag (length ts) = Inr ks' \<and>
    length ts' = 1024 \<and> tables_built h0 m0 dir flag ts' ks'"
  using assms(1,2)
proof (induction "1024 - length ts" arbitrary: ts ks)
  case 0
  then show ?case
    by (auto simp: paging_new_loop.simps [of ks] kconfig intro!: exI [of _ ts])
next
  case (Suc d)
  then have len: "length ts < 1024" by simp
  have ok: "kheap_ok ks" and "heap_used (kernel_heap ks) < 25600"
    using Suc.prems(1) room len by (auto simp: tables_built_def)
  then obtain e ks1 where a: "kzalloc ks (4 * of_nat PAGING_TOTAL_ENTRIES_PER_TABLE) = (e, ks1)" "e \<noteq> 0"
    by (rule kzalloc_page [OF _ _ heap_blocks_page(1)])
  let ?m = "store32 (paging_fill_table (kmem ks1) e (of_nat (length ts) * 4194304) flag 1024)
      (word_at dir (length ts)) (e OR ucast flag OR PAGING_IS_WRITEABLE)"
  have b: "tables_built h0 m0 dir flag (ts @ [e]) (ks1\<lparr>kmem := ?m\<rparr>)"
    by (rule tables_built_step [OF Suc.prems(1) dir(1) len a]) simp
  have off: "of_nat (length ts) * 4194304 + of_nat PAGING_TOTAL_ENTRIES_PER_TABLE * PAGING_PAGE_SIZE =
      (of_nat (length (ts @ [e])) * 4194304 :: u32)"
    by (simp add: kconfig algebra_simps)
  have "paging_new_loop ks dir (of_nat (length ts) * 4194304) flag (length ts) =
      paging_new_loop (ks1\<lparr>kmem := ?m\<rparr>) dir (of_nat (length (ts @ [e])) * 4194304) flag (length (ts @ [e]))"
    unfolding paging_new_loop.simps [of ks] off [symmetric]
    using a dir(2) len by (simp add: PAGING_TOTAL_ENTRIES_PER_TABLE_def)
  with Suc.hyps(1) [OF _ b] Suc.hyps(2) len show ?case by simp
qed

lemma unat_less_take_bit:
  assumes "take_bit 12 (f :: u32) = f"
  shows "unat f < 4096"
proof -
  have "unat f = take_bit 12 (unat f)" using assms by (metis unsigned_take_bit_eq)
  also have "\<dots> < 2 ^ 12" by (rule take_bit_nat_less_exp)
  finally show ?thesis by simp
qed

lemma flag_bits:
  "unat (ucast (flag :: u8) OR PAGING_IS_WRITEABLE :: u32) < 4096" "unat (ucast flag :: u32) < 4096"
  by (rule unat_less_take_bit, rule bit_word_eqI, auto simp: bit_simps kconfig dest: bit_imp_le_length)+

text \<open>A chunk fresh from \<open>paging_new_4gb_chunk\<close>: an identity map in 1026 newly allocated pages, with
  every earlier allocation as it was.\<close>

text \<open>The directory entries of a new chunk carry its flags.\<close>

definition directory_flags :: "mem \<Rightarrow> u32 \<Rightarrow> u8 \<Rightarrow> bool" where
  "directory_flags m chunk flag \<longleftrightarrow>
     (\<forall>i < 1024. load32 m (word_at (load32 m chunk) i) = page_table m chunk i OR ucast flag OR PAGING_IS_WRITEABLE)"

definition fresh_chunk :: "'a kstate_scheme \<Rightarrow> 'a kstate_scheme \<Rightarrow> u32 \<Rightarrow> u8 \<Rightarrow> bool" where
  "fresh_chunk ks ks' chunk flag \<longleftrightarrow>
     kheap_ok ks' \<and> chunk_wf (kmem ks') chunk \<and>
     (\<forall>n < 2 ^ 20. page_entry (kmem ks') chunk n = of_nat n * 4096 OR ucast flag) \<and>
     (\<forall>p \<in> set (chunk_frames (kmem ks') chunk). heap_owned (kernel_heap ks) p = None) \<and>
     heap_owned (kernel_heap ks') =
       (\<lambda>p. if p \<in> set (chunk_frames (kmem ks') chunk) then Some 1 else heap_owned (kernel_heap ks) p) \<and>
     (\<forall>q k x. heap_owned (kernel_heap ks) q = Some k \<and> unat q \<le> unat x \<and> unat x < unat q + k * 4096 \<longrightarrow>
        kmem ks' x = kmem ks x) \<and>
     directory_flags (kmem ks') chunk flag"

lemma fresh_chunk_keeps:
  assumes "fresh_chunk ks ks' chunk flag" "heap_owned (kernel_heap ks) q = Some k"
    "unat q \<le> unat x" "unat x < unat q + k * 4096"
  shows "kmem ks' x = kmem ks x"
  using assms unfolding fresh_chunk_def by blast

lemma fresh_chunk_new:
  "fresh_chunk ks ks' chunk flag \<Longrightarrow> p \<in> set (chunk_frames (kmem ks') chunk) \<Longrightarrow>
     heap_owned (kernel_heap ks) p = None"
  by (simp add: fresh_chunk_def)

lemma tables_built_init:
  assumes "kheap_ok ks1" "heap_owned (kernel_heap ks1) dir = Some 1"
  shows "tables_built (kernel_heap ks1) (kmem ks1) dir flag [] ks1"
  using assms by (simp add: tables_built_def)

lemma page_entry_of_tables:
  fixes flag :: u8
  assumes "load32 m chunk = dir" "length ts = 1024" "\<forall>t \<in> set ts. page_aligned t"
    and "\<And>j. j < 1024 \<Longrightarrow> load32 m (word_at dir j) = ts ! j OR ucast flag OR PAGING_IS_WRITEABLE"
    and "\<And>j k. j < 1024 \<Longrightarrow> k < 1024 \<Longrightarrow> load32 m (word_at (ts ! j) k) =
        (of_nat j * 4194304 + of_nat k * 4096) OR ucast flag"
  shows "\<forall>i < 1024. page_table m chunk i = ts ! i"
    and "\<forall>n < 2 ^ 20. page_entry m chunk n = of_nat n * 4096 OR ucast flag"
proof -
  show t: "\<forall>i < 1024. page_table m chunk i = ts ! i"
    unfolding page_table_def using assms(1-4) flag_bits(1) [of flag]
    by (simp add: or.assoc page_mask_or)
  show "\<forall>n < 2 ^ 20. page_entry m chunk n = of_nat n * 4096 OR ucast flag"
  proof (intro allI impI)
    fix n :: nat assume "n < 2 ^ 20"
    then have d: "n div 1024 < 1024" "n mod 1024 < 1024" by (simp_all add: less_mult_imp_div_less)
    have "of_nat (n div 1024) * 4194304 + of_nat (n mod 1024) * 4096 =
        (of_nat (n div 1024 * 1024 + n mod 1024) * 4096 :: u32)"
      by (simp only: of_nat_add of_nat_mult) (simp add: algebra_simps)
    then have "of_nat (n div 1024) * 4194304 + of_nat (n mod 1024) * 4096 = (of_nat n * 4096 :: u32)"
      by simp
    with assms(5) [OF d] t d show "page_entry m chunk n = of_nat n * 4096 OR ucast flag"
      by (simp add: page_entry_def)
  qed
qed

lemma chunk_word:
  assumes ok2: "kheap_ok ks2" and a: "kzalloc ks2 4 = (chunk, ks3)" "chunk \<noteq> 0"
    and q: "heap_owned (kernel_heap ks2) q = Some k" "unat q \<le> unat x" "unat x < unat q + k * 4096"
  shows "store32 (kmem ks3) chunk dir x = kmem ks2 x"
proof -
  have wf: "heap_wf (kernel_heap ks2)" using ok2 by (simp add: kheap_ok_def)
  note s = kernel_alloc.alloc_some [OF wf kzalloc_heap [OF a(1)] a(2), unfolded heap_blocks_page]
  have ok3: "kheap_ok ks3" by (rule kheap_ok_alloc(1) [OF ok2 a(1)])
  have o: "heap_owned (kernel_heap ks3) chunk = Some 1" "heap_owned (kernel_heap ks3) q = Some k" "chunk \<noteq> q"
    using s q(1) by auto
  have "\<not> in_page chunk x" by (rule owned_apart_page [OF ok3 o q(2,3)])
  from store32_outside [OF owned_page_aligned [OF ok3 o(1)] _ this, of 0]
  show ?thesis using kzalloc_frame [OF ok2 a(1) q] by (simp add: word_at_def)
qed

lemma tables_built_chunk:
  assumes b: "tables_built h0 m0 dir flag ts ks2" and len: "length ts = 1024"
    and dir: "heap_owned h0 dir = Some 1"
    and a: "kzalloc ks2 4 = (chunk, ks3)" "chunk \<noteq> 0"
    and m: "m = store32 (kmem ks3) chunk dir"
  shows "chunk_frames m chunk = chunk # dir # ts" "chunk_wf m chunk" "chunk \<notin> set ts" "chunk \<noteq> dir"
    "\<forall>n < 2 ^ 20. page_entry m chunk n = of_nat n * 4096 OR ucast flag"
    "heap_owned (kernel_heap ks3) = (\<lambda>p. if p \<in> set (chunk # ts) then Some 1 else heap_owned h0 p)"
    "directory_flags m chunk flag"
proof -
  have ok2: "kheap_ok ks2" and wf: "heap_wf (kernel_heap ks2)"
    using b by (simp_all add: tables_built_def kheap_ok_def)
  note s = kernel_alloc.alloc_some [OF wf kzalloc_heap [OF a(1)] a(2), unfolded heap_blocks_page]
  note ok3 = kheap_ok_alloc(1) [OF ok2 a(1)]
  show own: "heap_owned (kernel_heap ks3) = (\<lambda>p. if p \<in> set (chunk # ts) then Some 1 else heap_owned h0 p)"
    using s b by (auto simp: tables_built_def)
  have none: "heap_owned (kernel_heap ks2) chunk = None" using s by simp
  then show c: "chunk \<notin> set ts" "chunk \<noteq> dir"
    using b dir by (auto simp: tables_built_def split: if_splits)
  have dts: "dir \<notin> set ts" using b dir by (auto simp: tables_built_def)
  have o2: "heap_owned (kernel_heap ks2) p = Some 1" if "p \<in> insert dir (set ts)" for p
    using that b dir dts by (auto simp: tables_built_def)
  have ld: "load32 m (word_at p k) = load32 (kmem ks2) (word_at p k)"
    if "p \<in> insert dir (set ts)" "k < 1024" for p k
    unfolding m by (rule owned_page_load [OF ok2 o2 [OF that(1)] that(2) chunk_word [OF ok2 a o2 [OF that(1)]]])
  have al: "page_aligned p \<and> p \<noteq> 0" if "p \<in> insert chunk (insert dir (set ts))" for p
  proof -
    have "heap_owned (kernel_heap ks3) p = Some 1" using that own dir dts c by auto
    then show ?thesis
      using owned_page_aligned [OF ok3] kheap_owned_range [OF ok3] by auto
  qed
  have cd: "load32 m chunk = dir" by (simp add: m)
  have t: "\<forall>i < 1024. page_table m chunk i = ts ! i"
    and e: "\<forall>n < 2 ^ 20. page_entry m chunk n = of_nat n * 4096 OR ucast flag"
    using page_entry_of_tables [OF cd len, of flag] al b len ld
    by (simp_all add: tables_built_def)
  show "\<forall>n < 2 ^ 20. page_entry m chunk n = of_nat n * 4096 OR ucast flag" by (rule e)
  show "directory_flags m chunk flag" unfolding directory_flags_def cd using t ld b len by (simp add: tables_built_def)
  show "chunk_frames m chunk = chunk # dir # ts"
    using t cd len by (auto simp: chunk_frames_def intro!: nth_equalityI)
  have dist: "distinct ts" using b by (simp add: tables_built_def)
  show "chunk_wf m chunk"
    unfolding chunk_wf_def cd using t al c dts dist len
    by (auto simp: nth_eq_iff_index_eq)
qed

lemma paging_new_4gb_chunk_ok:
  assumes ok: "kheap_ok ks" and room: "heap_used (kernel_heap ks) + 1026 \<le> 25600"
  shows "\<exists>chunk ks'. paging_new_4gb_chunk ks flag = Inr (chunk, ks') \<and> fresh_chunk ks ks' chunk flag"
proof -
  obtain dir ks1 where d: "kzalloc ks (4 * of_nat PAGING_TOTAL_ENTRIES_PER_TABLE) = (dir, ks1)" "dir \<noteq> 0"
    "kheap_ok ks1" "heap_owned (kernel_heap ks) dir = None"
    "heap_owned (kernel_heap ks1) = (heap_owned (kernel_heap ks))(dir \<mapsto> 1)"
    "heap_used (kernel_heap ks1) = Suc (heap_used (kernel_heap ks))"
    using kzalloc_page [OF ok _ heap_blocks_page(1)] room by auto
  then have od: "heap_owned (kernel_heap ks1) dir = Some 1" by simp
  have "heap_used (kernel_heap ks1) + 1024 \<le> 25600" using d(6) room by simp
  from paging_new_loop_ok [OF tables_built_init [OF d(3) od] _ od d(2) this]
  obtain ts ks2 where l: "paging_new_loop ks1 dir 0 flag 0 = Inr ks2" "length ts = 1024"
    "tables_built (kernel_heap ks1) (kmem ks1) dir flag ts ks2"
    by fastforce
  have ok2: "kheap_ok ks2" and "heap_used (kernel_heap ks2) < 25600"
    using l(2,3) d(6) room by (auto simp: tables_built_def)
  then obtain chunk ks3 where a: "kzalloc ks2 4 = (chunk, ks3)" "chunk \<noteq> 0" "kheap_ok ks3"
    by (rule kzalloc_page [OF _ _ heap_blocks_page(2)])
  define m where "m = store32 (kmem ks3) chunk dir"
  note c = tables_built_chunk [OF l(3,2) od a(1,2) m_def]
  have new: "paging_new_4gb_chunk ks flag = Inr (chunk, ks3\<lparr>kmem := m\<rparr>)"
    using d(1) l(1) a(1,2) by (simp add: paging_new_4gb_chunk_def m_def)
  have none: "heap_owned (kernel_heap ks) p = None" if "p \<in> set (chunk # dir # ts)" for p
  proof -
    have "heap_owned (kernel_heap ks2) chunk = None"
      using kernel_alloc.alloc_some [OF _ kzalloc_heap [OF a(1)] a(2)] ok2 by (simp add: kheap_ok_def)
    then have "heap_owned (kernel_heap ks1) chunk = None" using l(3) c(3) by (simp add: tables_built_def)
    with that l(3) d(4,5) show ?thesis by (auto simp: tables_built_def split: if_splits)
  qed
  have keep: "m x = kmem ks x"
    if q: "heap_owned (kernel_heap ks) q = Some k" "unat q \<le> unat x" "unat x < unat q + k * 4096" for q k x
  proof -
    have q1: "heap_owned (kernel_heap ks1) q = Some k" "q \<noteq> dir" using q(1) d(4,5) by auto
    then have q2: "heap_owned (kernel_heap ks2) q = Some k" using l(3) by (auto simp: tables_built_def)
    show ?thesis
      using chunk_word [OF ok2 a(1,2) q2 q(2,3)] kzalloc_frame [OF ok d(1) q] l(3) q1 q
      by (simp add: m_def tables_built_def)
  qed
  have own: "heap_owned (kernel_heap ks3) = (\<lambda>p. if p \<in> set (chunk # dir # ts) then Some 1 else heap_owned (kernel_heap ks) p)"
    using c(6) d(5) by (auto simp: fun_eq_iff)
  have "fresh_chunk ks (ks3\<lparr>kmem := m\<rparr>) chunk flag"
    unfolding fresh_chunk_def using c(1,2,5,7) own none a(3) by (auto simp: kheap_ok_def intro: keep)
  with new show ?thesis by blast
qed

lemma fold_kfree:
  "fold (\<lambda>p ks. kfree ks p) ps ks = ks\<lparr>kernel_heap := fold (\<lambda>p h. heap_free h p) ps (kernel_heap ks)\<rparr>"
  by (induction ps arbitrary: ks) (simp_all add: kfree_def)

lemma paging_free_4gb_eq:
  "kernel_heap (paging_free_4gb ks chunk) =
     fold (\<lambda>p h. heap_free h p)
       (map (page_table (kmem ks) chunk) [0..<1024] @ [load32 (kmem ks) chunk, chunk]) (kernel_heap ks)"
  "kmem (paging_free_4gb ks chunk) = kmem ks"
proof -
  let ?free = "\<lambda>i ks'. let entry = load32 (kmem ks') (word_at (load32 (kmem ks') chunk) i);
      table = entry AND 0xFFFFF000 in kfree ks' table"
  have "fold ?free is ks' = fold (\<lambda>p ks. kfree ks p) (map (page_table (kmem ks) chunk) is) ks'"
    if "kmem ks' = kmem ks" for "is" ks'
    using that by (induction "is" arbitrary: ks') (simp_all add: page_table_def)
  from this [of ks "[0..<1024]"] have "fold ?free [0..<1024] ks = ks\<lparr>kernel_heap :=
      fold (\<lambda>p h. heap_free h p) (map (page_table (kmem ks) chunk) [0..<1024]) (kernel_heap ks)\<rparr>"
    unfolding fold_kfree by blast
  then show "kernel_heap (paging_free_4gb ks chunk) =
     fold (\<lambda>p h. heap_free h p)
       (map (page_table (kmem ks) chunk) [0..<1024] @ [load32 (kmem ks) chunk, chunk]) (kernel_heap ks)"
    and "kmem (paging_free_4gb ks chunk) = kmem ks"
    unfolding paging_free_4gb_def PAGING_TOTAL_ENTRIES_PER_TABLE_def
    by (simp_all add: Let_def kfree_def)
qed

lemma chunk_frames_distinct: "chunk_wf m chunk \<Longrightarrow> distinct (chunk_frames m chunk)"
  using chunk_wfD(5,6,7) [of m chunk]
  by (auto simp: chunk_frames_def distinct_map inj_on_def image_iff) metis+

lemma paging_free_fresh:
  assumes ok: "kheap_ok ks" and f: "fresh_chunk ks ks1 chunk flag"
    and same: "kernel_heap ks2 = kernel_heap ks1" "chunk_frames (kmem ks2) chunk = chunk_frames (kmem ks1) chunk"
  shows "kernel_heap (paging_free_4gb ks2 chunk) = kernel_heap ks"
proof -
  let ?ps = "map (page_table (kmem ks2) chunk) [0..<1024] @ [load32 (kmem ks2) chunk, chunk]"
  have wf: "chunk_wf (kmem ks1) chunk" using f by (simp add: fresh_chunk_def)
  have "distinct (chunk_frames (kmem ks2) chunk)"
    using chunk_frames_distinct [OF wf] same(2) by simp
  then have dist: "distinct ?ps" by (auto simp: chunk_frames_def)
  have set: "set ?ps = set (chunk_frames (kmem ks1) chunk)"
    unfolding same(2) [symmetric] by (auto simp: chunk_frames_def)
  have own: "heap_owned (kernel_heap ks1) =
       (\<lambda>p. if p \<in> set ?ps then Some 1 else heap_owned (kernel_heap ks) p)"
    and none: "\<forall>p \<in> set ?ps. heap_owned (kernel_heap ks) p = None"
    unfolding set using f by (simp_all add: fresh_chunk_def)
  show ?thesis
    unfolding paging_free_4gb_eq(1) same(1)
  proof (rule kernel_alloc.release_all_restores [OF _ _ _ dist])
    show "heap_wf (kernel_heap ks)" "heap_wf (kernel_heap ks1)"
      "(saddr (kernel_heap ks1), ht_total (hp_table (kernel_heap ks1))) =
         (saddr (kernel_heap ks), ht_total (hp_table (kernel_heap ks)))"
      using ok f by (simp_all add: fresh_chunk_def kheap_ok_def)
    show "set ?ps = dom (heap_owned (kernel_heap ks1)) - dom (heap_owned (kernel_heap ks))"
      using none unfolding own by (auto simp: dom_def simp del: set_append)
    show "heap_owned (kernel_heap ks1) p = heap_owned (kernel_heap ks) p"
      if "heap_owned (kernel_heap ks) p \<noteq> None" for p
      using none that unfolding own by (auto simp del: set_append)
  qed
qed

subsection \<open>Translation\<close>

lemma fresh_chunk_translation:
  assumes "fresh_chunk ks ks' chunk flag"
  shows "paging_get_physical_address ks' chunk v = v"
proof -
  have n: "unat v div 4096 < 2 ^ 20" using unat_u32_less [of v] by simp
  let ?p = "of_nat (unat v div 4096) * 4096 :: u32"
  have p: "?p = v div 4096 * 4096"
    by (metis of_nat_unat_u32 unat_div_page)
  have "unat (v div 4096 * 4096) = unat v div 4096 * 4096"
  proof -
    have "unat v div 4096 * 4096 < 4294967296" using unat_u32_less [of v] by (simp add: n)
    from unat_of_nat_u32 [OF this] show ?thesis by (simp add: p flip: unat_div_page)
  qed
  then have "page_aligned ?p" unfolding p by (simp add: page_aligned_def mod_page_0_iff)
  then have "(?p OR ucast flag) AND 0xFFFFF000 = ?p" using flag_bits(2) by (rule page_mask_or)
  moreover have "page_entry (kmem ks') chunk (unat v div 4096) = ?p OR ucast flag"
    using assms n by (simp add: fresh_chunk_def)
  ultimately show ?thesis
    unfolding paging_get_physical_address_eq p by (simp add: word_mod_div_equality)
qed

lemma page_aligned_offset:
  assumes "page_aligned p"
  shows "page_aligned (p + of_nat k * 4096)"
proof (induction k)
  case (Suc k)
  from page_aligned_add [OF this] show ?case by (simp add: algebra_simps)
qed (use assms in simp)

lemma remaps_translation:
  assumes r: "remaps (kmem ks) m' chunk (unat virt div 4096) (len div 4096) phys flags"
    and al: "page_aligned virt" "page_aligned phys" and len: "len mod 4096 = 0" and fl: "unat flags < 4096"
  shows "paging_get_physical_address (ks\<lparr>kmem := m'\<rparr>) chunk v =
     (if unat virt \<le> unat v \<and> unat v < unat virt + len then phys + (v - virt)
      else paging_get_physical_address ks chunk v)"
proof -
  obtain q where q: "unat virt = 4096 * q" using al(1) page_multiple page_aligned_def by metis
  obtain l where l: "len = 4096 * l" using len by (metis mod_0_imp_dvd dvdE)
  have n: "unat v div 4096 < 2 ^ 20" using unat_u32_less [of v] by simp
  have iff: "unat virt \<le> unat v \<and> unat v < unat virt + len \<longleftrightarrow>
      unat virt div 4096 \<le> unat v div 4096 \<and> unat v div 4096 < unat virt div 4096 + len div 4096"
    unfolding q l by auto
  show ?thesis
  proof (cases "unat virt \<le> unat v \<and> unat v < unat virt + len")
    case True
    let ?k = "unat v div 4096 - unat virt div 4096"
    have "page_entry m' chunk (unat v div 4096) = (phys + of_nat ?k * 4096) OR flags"
      using r n iff True by (simp add: remaps_def del: of_nat_diff)
    then have "page_entry m' chunk (unat v div 4096) AND 0xFFFFF000 = phys + of_nat ?k * 4096"
      using page_mask_or [OF page_aligned_offset [OF al(2)] fl] by simp
    moreover have "of_nat ?k * 4096 + v mod 4096 = v - virt"
    proof -
      have "of_nat (?k * 4096 + unat v mod 4096) = (of_nat (unat v - unat virt) :: u32)"
        using True iff unfolding q by (simp add: algebra_simps del: of_nat_add of_nat_diff of_nat_mult)
      also have "\<dots> = v - virt" using True by (simp add: of_nat_diff)
      finally show ?thesis by (simp add: unat_mod_page [symmetric] del: of_nat_diff)
    qed
    ultimately show ?thesis
      using True by (simp add: paging_get_physical_address_eq add.assoc del: of_nat_diff)
  next
    case False
    then have "page_entry m' chunk (unat v div 4096) = page_entry (kmem ks) chunk (unat v div 4096)"
      using r n iff by (auto simp: remaps_def)
    with False show ?thesis by (auto simp: paging_get_physical_address_eq)
  qed
qed

lemma page_entry_outside:
  assumes wf: "chunk_wf m c" and keep: "\<And>x t. t \<in> set (chunk_frames m c) \<Longrightarrow> in_page t x \<Longrightarrow> m' x = m x"
    and n: "n < 2 ^ 20"
  shows "page_entry m' c n = page_entry m c n"
proof -
  have d: "n div 1024 < 1024" "n mod 1024 < 1024" using n by (simp_all add: less_mult_imp_div_less)
  note w = chunk_wfD [OF wf]
  have f: "c \<in> set (chunk_frames m c)" "load32 m c \<in> set (chunk_frames m c)"
    "page_table m c (n div 1024) \<in> set (chunk_frames m c)"
    using d by (auto simp: chunk_frames_def)
  have c: "load32 m' c = load32 m c"
    using load32_page_cong [OF w(1), of 0 m' m] keep [OF f(1)] by (simp add: word_at_def)
  have "page_table m' c (n div 1024) = page_table m c (n div 1024)"
    unfolding page_table_def c using load32_page_cong [OF w(3) d(1), of m' m] keep [OF f(2)] by simp
  then show ?thesis
    unfolding page_entry_def using load32_page_cong [OF _ d(2), of "page_table m c (n div 1024)" m' m]
      keep [OF f(3)] w(6) [OF d(1)] by simp
qed

lemma boot_chunk:
  obtains chunk ks' where "paging_new_4gb_chunk boot_kstate flag = Inr (chunk, ks')"
    "fresh_chunk boot_kstate ks' chunk flag"
  using paging_new_4gb_chunk_ok [OF boot_kstate_ok(1), of flag] boot_used by auto

subsection \<open>Properties\<close>

text \<open>C7: With 1026 blocks to spare, \<open>paging_new_4gb_chunk\<close> returns, and the address space it builds
  is the identity: every one of the 2^32 virtual addresses translates to itself, every page
  has the requested flags, the heap grows by exactly the pages of the chunk, and no byte of
  an earlier allocation changes.\<close>

theorem paging_new_identity:
  assumes "kheap_ok ks" and "heap_used (kernel_heap ks) + 1026 \<le> 25600"
  shows "\<exists>chunk ks'. paging_new_4gb_chunk ks flag = Inr (chunk, ks') \<and>
    (\<forall>v. paging_get_physical_address ks' chunk v = v) \<and>
    (\<forall>n < 2 ^ 20. paging_get ks' chunk (of_nat (n * 4096)) = of_nat (n * 4096) OR ucast flag) \<and>
    heap_owned (kernel_heap ks') = (\<lambda>p. if p \<in> set (chunk_frames (kmem ks') chunk) then Some 1
                                       else heap_owned (kernel_heap ks) p) \<and>
    (\<forall>q k x. heap_owned (kernel_heap ks) q = Some k \<and> unat q \<le> unat x \<and> unat x < unat q + k * 4096 \<longrightarrow>
       kmem ks' x = kmem ks x)"
proof -
  obtain chunk ks' where n: "paging_new_4gb_chunk ks flag = Inr (chunk, ks')"
    and f: "fresh_chunk ks ks' chunk flag"
    using paging_new_4gb_chunk_ok [OF assms] by metis
  have "paging_get ks' chunk (of_nat (n * 4096)) = of_nat (n * 4096) OR ucast flag" if "n < 2 ^ 20" for n
  proof -
    have u: "unat (of_nat (n * 4096) :: u32) = n * 4096" by (rule unat_of_nat_u32) (use that in simp)
    then have "page_aligned (of_nat (n * 4096))" by (simp add: page_aligned_def mod_page_0_iff del: of_nat_mult)
    from paging_get_eq [OF this, of ks' chunk] show ?thesis
      using f that unfolding u by (simp add: fresh_chunk_def)
  qed
  with n f fresh_chunk_translation [OF f] show ?thesis
    unfolding fresh_chunk_def by blast
qed

theorem paging_new_identity_witness:
  "\<exists>chunk ks'. paging_new_4gb_chunk boot_kstate 7 = Inr (chunk, ks') \<and>
     paging_get_physical_address ks' chunk 0xB8000 = 0xB8000 \<and> paging_get ks' chunk 0xB8000 = 0xB8007"
proof -
  from paging_new_identity [OF boot_kstate_ok(1), of 7] boot_used
  obtain chunk ks' where c: "paging_new_4gb_chunk boot_kstate 7 = Inr (chunk, ks')"
    "\<forall>v. paging_get_physical_address ks' chunk v = v"
    "\<forall>n < 2 ^ 20. paging_get ks' chunk (of_nat (n * 4096)) = of_nat (n * 4096) OR ucast (7 :: u8)"
    by auto
  from c(3) [rule_format, of "0xB8"] have "paging_get ks' chunk 0xB8000 = 0xB8007" by simp
  with c show ?thesis by blast
qed

text \<open>C3: \<open>paging_map_to\<close> maps exactly the requested range. With page-aligned addresses, a physical range that
  does not end before it starts, a virtual range that is not at NULL and does not wrap around, and
  flags within the low twelve bits, it succeeds, each address of the virtual range translates to the corresponding physical address, and every other address of
  the 4 GB translates as before.\<close>

theorem paging_map_to_translates:
  assumes "chunk_wf (kmem ks) chunk" and "page_aligned virt" and "page_aligned phys"
    and "page_aligned phys_end" and "phys \<le> phys_end" and "virt \<noteq> 0" and "unat flags < 4096"
    and "unat virt + (unat phys_end - unat phys) \<le> 2 ^ 32"
  shows "\<exists>ks'. paging_map_to ks chunk virt phys phys_end flags = (KERNEL_ALL_OK, ks') \<and>
    chunk_wf (kmem ks') chunk \<and> kernel_heap ks' = kernel_heap ks \<and>
    (\<forall>v. paging_get_physical_address ks' chunk v =
       (if unat virt \<le> unat v \<and> unat v < unat virt + (unat phys_end - unat phys)
        then phys + (v - virt) else paging_get_physical_address ks chunk v))"
proof -
  obtain m' where m': "paging_map_to ks chunk virt phys phys_end flags = (0, ks\<lparr>kmem := m'\<rparr>)"
    "remaps (kmem ks) m' chunk (unat virt div 4096) ((unat phys_end - unat phys) div 4096) phys flags"
    using paging_map_to_ok [OF assms(1-6)] assms(8) by auto
  have "(unat phys_end - unat phys) mod 4096 = 0"
    using assms(3,4) by (auto simp: page_aligned_def mod_page_0_iff dvd_diff_nat simp flip: dvd_eq_mod_eq_0)
  note t = remaps_translation [OF m'(2) assms(2,3) this assms(7)]
  have "chunk_wf m' chunk" using m'(2) chunk_wf_frames [OF _ assms(1)] by (simp add: remaps_def)
  with m'(1) t show ?thesis by (auto simp: kconfig)
qed

theorem paging_map_to_translates_witness:
  "\<exists>chunk ks'. paging_new_4gb_chunk boot_kstate 7 = Inr (chunk, ks') \<and>
     paging_get_physical_address (snd (paging_map_to ks' chunk 0x400000 0x1000000 0x1002000 7)) chunk 0x401234
       = 0x1001234"
proof -
  obtain chunk ks' where c: "paging_new_4gb_chunk boot_kstate 7 = Inr (chunk, ks')"
    "fresh_chunk boot_kstate ks' chunk 7" by (rule boot_chunk)
  from c(2) have "chunk_wf (kmem ks') chunk" by (simp add: fresh_chunk_def)
  from paging_map_to_translates [OF this, of "0x400000" "0x1000000" "0x1002000" 7]
  have "paging_get_physical_address (snd (paging_map_to ks' chunk 0x400000 0x1000000 0x1002000 7)) chunk 0x401234
     = 0x1001234"
    by (auto simp: page_aligned_def)
  with c(1) show ?thesis by blast
qed

text \<open>C8: Address spaces are isolated: mapping into one chunk changes no translation of another
  chunk that shares no page with it.\<close>

theorem paging_map_isolated:
  assumes "chunk_wf (kmem ks) chunk" and "chunk_wf (kmem ks) other"
    and "set (chunk_frames (kmem ks) chunk) \<inter> set (chunk_frames (kmem ks) other) = {}"
    and "page_aligned virt" and "page_aligned phys"
    and "page_aligned phys_end" and "phys \<le> phys_end" and "virt \<noteq> 0"
    and "unat virt + (unat phys_end - unat phys) \<le> 2 ^ 32"
  shows "paging_get_physical_address (snd (paging_map_to ks chunk virt phys phys_end flags)) other v =
    paging_get_physical_address ks other v"
proof -
  obtain m' where m': "paging_map_to ks chunk virt phys phys_end flags = (0, ks\<lparr>kmem := m'\<rparr>)"
    "remaps (kmem ks) m' chunk (unat virt div 4096) ((unat phys_end - unat phys) div 4096) phys flags"
    using paging_map_to_ok [OF assms(1,4-8)] assms(9) by auto
  have al: "page_aligned t" if "t \<in> set (chunk_frames (kmem ks) chunk) \<union> set (chunk_frames (kmem ks) other)" for t
    using that chunk_wfD(1,3,6) [OF assms(1)] chunk_wfD(1,3,6) [OF assms(2)]
    by (auto simp: chunk_frames_def)
  have "m' x = kmem ks x" if "t \<in> set (chunk_frames (kmem ks) other)" "in_page t x" for t x
    using m'(2) that assms(3) al in_page_unique unfolding remaps_def by (metis UnCI disjoint_iff)
  then have "page_entry m' other (unat v div 4096) = page_entry (kmem ks) other (unat v div 4096)"
    using unat_u32_less [of v] by (intro page_entry_outside [OF assms(2)]) auto
  then show ?thesis using m'(1) by (simp add: paging_get_physical_address_eq)
qed

lemma fresh_chunk_used:
  assumes "fresh_chunk ks ks' chunk flag"
  shows "heap_used (kernel_heap ks') = heap_used (kernel_heap ks) + 1026"
proof -
  let ?F = "set (chunk_frames (kmem ks') chunk)" and ?D = "dom (heap_owned (kernel_heap ks))"
  note f = assms [unfolded fresh_chunk_def]
  have own: "heap_owned (kernel_heap ks') = (\<lambda>p. if p \<in> ?F then Some 1 else heap_owned (kernel_heap ks) p)"
    and none: "\<forall>p \<in> ?F. heap_owned (kernel_heap ks) p = None" and wf: "chunk_wf (kmem ks') chunk"
    using f by blast+
  have dom: "dom (heap_owned (kernel_heap ks')) = ?D \<union> ?F" and dis: "?D \<inter> ?F = {}"
    unfolding own using none by (auto split: if_splits)
  have "card ?F = 1026"
    using distinct_card [OF chunk_frames_distinct [OF wf]] by (simp add: chunk_frames_def)
  moreover have "(\<Sum>p\<in>?F. the (heap_owned (kernel_heap ks') p)) = card ?F"
    by (simp add: own)
  moreover have "(\<Sum>p\<in>?D. the (heap_owned (kernel_heap ks') p)) = heap_used (kernel_heap ks)"
    unfolding heap_used_def by (rule sum.cong) (use none in \<open>auto simp: own\<close>)
  ultimately show ?thesis
    unfolding heap_used_def dom by (simp add: sum.union_disjoint [OF _ _ dis] finite_code)
qed

lemma chunk_frames_keep:
  assumes wf: "chunk_wf m c" and keep: "\<And>x. in_page c x \<or> in_page (load32 m c) x \<Longrightarrow> m' x = m x"
  shows "chunk_frames m' c = chunk_frames m c"
proof -
  note w = chunk_wfD [OF wf]
  have c: "load32 m' c = load32 m c"
    using load32_page_cong [OF w(1), of 0 m' m] keep by (simp add: word_at_def)
  moreover have "page_table m' c i = page_table m c i" if "i < 1024" for i
    unfolding page_table_def c using load32_page_cong [OF w(3) that, of m' m] keep by simp
  ultimately show ?thesis by (simp add: chunk_frames_eq)
qed

lemma two_chunks:
  obtains c1 ks1 c2 ks2 where "paging_new_4gb_chunk boot_kstate 7 = Inr (c1, ks1)"
    "paging_new_4gb_chunk ks1 7 = Inr (c2, ks2)" "chunk_wf (kmem ks2) c1" "chunk_wf (kmem ks2) c2"
    "set (chunk_frames (kmem ks2) c1) \<inter> set (chunk_frames (kmem ks2) c2) = {}"
proof -
  obtain c1 ks1 where f1: "paging_new_4gb_chunk boot_kstate 7 = Inr (c1, ks1)" "fresh_chunk boot_kstate ks1 c1 7"
    by (rule boot_chunk)
  have "kheap_ok ks1" "heap_used (kernel_heap ks1) + 1026 \<le> 25600"
    using f1(2) fresh_chunk_used [OF f1(2)] boot_used by (simp_all add: fresh_chunk_def)
  then obtain c2 ks2 where f2: "paging_new_4gb_chunk ks1 7 = Inr (c2, ks2)" "fresh_chunk ks1 ks2 c2 7"
    using paging_new_4gb_chunk_ok by metis
  have wf1: "chunk_wf (kmem ks1) c1" and wf2: "chunk_wf (kmem ks2) c2"
    using f1(2) f2(2) by (simp_all add: fresh_chunk_def)
  have own1: "heap_owned (kernel_heap ks1) p = Some 1" if "p \<in> set (chunk_frames (kmem ks1) c1)" for p
    using that f1(2) by (simp add: fresh_chunk_def)
  have page: "kmem ks2 x = kmem ks1 x" if "in_page p x" "heap_owned (kernel_heap ks1) p = Some 1" for p x
    using that fresh_chunk_keeps [OF f2(2) that(2)] by (simp add: in_page_def)
  have "c1 \<in> set (chunk_frames (kmem ks1) c1)" "load32 (kmem ks1) c1 \<in> set (chunk_frames (kmem ks1) c1)"
    by (simp_all add: chunk_frames_def)
  then have same: "chunk_frames (kmem ks2) c1 = chunk_frames (kmem ks1) c1"
    using page own1 by (intro chunk_frames_keep [OF wf1]) blast
  have "set (chunk_frames (kmem ks2) c1) \<inter> set (chunk_frames (kmem ks2) c2) = {}"
    using fresh_chunk_new [OF f2(2)] own1 unfolding same by (metis disjoint_iff option.distinct(1))
  with that [OF f1(1) f2(1) chunk_wf_frames [OF same wf1] wf2] show thesis by simp
qed

theorem paging_map_isolated_witness:
  "\<exists>c1 ks1 c2 ks2. paging_new_4gb_chunk boot_kstate 7 = Inr (c1, ks1) \<and>
     paging_new_4gb_chunk ks1 7 = Inr (c2, ks2) \<and>
     paging_get_physical_address (snd (paging_map_to ks2 c2 0x400000 0x1000000 0x1002000 7)) c1 0x400010 =
     paging_get_physical_address ks2 c1 0x400010"
proof -
  obtain c1 ks1 c2 ks2 where c: "paging_new_4gb_chunk boot_kstate 7 = Inr (c1, ks1)"
    "paging_new_4gb_chunk ks1 7 = Inr (c2, ks2)" "chunk_wf (kmem ks2) c1" "chunk_wf (kmem ks2) c2"
    "set (chunk_frames (kmem ks2) c1) \<inter> set (chunk_frames (kmem ks2) c2) = {}"
    by (rule two_chunks)
  from c(5) have "set (chunk_frames (kmem ks2) c2) \<inter> set (chunk_frames (kmem ks2) c1) = {}" by blast
  from paging_map_isolated [OF c(4,3) this, of "0x400000" "0x1000000" "0x1002000" 7 "0x400010"] c(1,2)
  show ?thesis by (auto simp: page_aligned_def)
qed

text \<open>C9: \<open>paging_free_4gb\<close> undoes \<open>paging_new_4gb_chunk\<close>: after building an address space and
  mapping a range into it, freeing it gives back the heap exactly as it was before.\<close>

theorem paging_free_restores:
  assumes "kheap_ok ks" and "heap_used (kernel_heap ks) + 1026 \<le> 25600"
    and "page_aligned virt" and "page_aligned phys" and "page_aligned phys_end" and "phys \<le> phys_end"
    and "virt \<noteq> 0" and "unat virt + (unat phys_end - unat phys) \<le> 2 ^ 32"
  shows "\<exists>chunk ks1 ks2. paging_new_4gb_chunk ks flag = Inr (chunk, ks1) \<and>
    paging_map_to ks1 chunk virt phys phys_end flags = (KERNEL_ALL_OK, ks2) \<and>
    kernel_heap (paging_free_4gb ks2 chunk) = kernel_heap ks"
proof -
  obtain chunk ks1 where c: "paging_new_4gb_chunk ks flag = Inr (chunk, ks1)"
    and f: "fresh_chunk ks ks1 chunk flag"
    using paging_new_4gb_chunk_ok [OF assms(1,2)] by metis
  have wf: "chunk_wf (kmem ks1) chunk" using f by (simp add: fresh_chunk_def)
  obtain m' where m': "paging_map_to ks1 chunk virt phys phys_end flags = (0, ks1\<lparr>kmem := m'\<rparr>)"
    "remaps (kmem ks1) m' chunk (unat virt div 4096) ((unat phys_end - unat phys) div 4096) phys flags"
    using paging_map_to_ok [OF wf assms(3-7)] assms(8) by auto
  have "kernel_heap (paging_free_4gb (ks1\<lparr>kmem := m'\<rparr>) chunk) = kernel_heap ks"
    by (rule paging_free_fresh [OF assms(1) f]) (use m'(2) in \<open>simp_all add: remaps_def\<close>)
  with c m'(1) show ?thesis by (auto simp: kconfig)
qed

theorem paging_free_restores_witness:
  "\<exists>chunk ks1 ks2. paging_new_4gb_chunk boot_kstate 7 = Inr (chunk, ks1) \<and>
    paging_map_to ks1 chunk 0x400000 0x1000000 0x1002000 7 = (KERNEL_ALL_OK, ks2) \<and>
    kernel_heap (paging_free_4gb ks2 chunk) = kernel_heap boot_kstate"
  by (rule paging_free_restores) (simp_all add: boot_kstate_ok boot_used page_aligned_def)

text \<open>The requests \<open>paging_map_to\<close> refuses: a misaligned virtual, physical or end address,
  an end before the start, or a non-empty range that starts at virtual page 0 (which
  \<open>paging_get_indexes\<close> takes for NULL). It then returns \<open>-EINVAGS\<close> and changes nothing.\<close>

lemma paging_map_to_refuses:
  assumes "\<not> page_aligned virt \<or> \<not> page_aligned phys \<or> \<not> page_aligned phys_end \<or> phys_end < phys \<or>
    virt = 0 \<and> phys < phys_end"
  shows "paging_map_to ks chunk virt phys phys_end flags = (- EINVAGS, ks)"
proof (cases "page_aligned virt \<and> page_aligned phys \<and> page_aligned phys_end \<and> \<not> phys_end < phys")
  case True
  with assms have a: "virt = 0" "phys < phys_end" by auto
  have "unat (phys_end - phys) = unat phys_end - unat phys"
    using a by (intro unat_sub_le) (simp add: word_less_nat_alt)
  moreover obtain p q where pq: "unat phys = 4096 * p" "unat phys_end = 4096 * q"
    using True page_multiple page_aligned_def by metis
  moreover have "p < q" using a(2) pq by (simp add: word_less_nat_alt)
  ultimately have "unat ((phys_end - phys) div 4096) = Suc (q - p - 1)" by (simp add: unat_div_page)
  then have "nat (uint ((phys_end - phys) div 4096)) = Suc (q - p - 1)" by (simp flip: unat_eq_nat_uint)
  moreover have "paging_map ks chunk 0 phys flags = (- EINVAGS, ks)"
    using True by (simp add: paging_map_def paging_set_def paging_get_indexes_def page_aligned_def kconfig)
  ultimately show ?thesis
    using True a by (simp add: paging_map_to_def paging_map_range_def page_aligned_def kconfig)
qed (auto simp: paging_map_to_def page_aligned_def kconfig)

lemma paging_map_to_refuses_witness:
  "paging_map_to boot_kstate 0x1000000 0 0x1000 0x2000 7 = (- EINVAGS, boot_kstate)"
  by (rule paging_map_to_refuses) simp

end
