(* ===== verification/Keyboard.thy ===== *)
theory Keyboard
  imports Kernel_Prelude
begin

unbundle bit_operations_syntax

section \<open>Keyboard input: kernel/keyboard.c and driver/keyboard/classic.c\<close>

text \<open>
  Each process has a ring buffer of 1024 characters in its \<open>task_struct\<close>; the keyboard
  interrupt pushes into the buffer of the current process and the \<open>getkey\<close> system call pops
  from it. The functions of \<open>keyboard.c\<close> all start from \<open>process_current ()\<close>, so they act here
  on the keyboard buffer of the current process, \<open>None\<close> when there is none. The \<open>int\<close> indices
  start at 0 (the structure is cleared) and are only ever set to remainders modulo 1024, so
  they are natural numbers here, on which C's \<open>%\<close> is \<open>mod\<close>.

  \<open>char_queue\<close> is the interface the interrupt handler and the system call rely on: a bounded
  FIFO queue of non-zero characters. The interpretation shows that the ring buffer provides it.
\<close>

subsection \<open>State\<close>

record keyboard_buffer =
  buffer :: "u8 list"
  head :: nat
  tail :: nat
  kb_size :: nat

text \<open>\<open>memset (process, 0, ...)\<close> clears it.\<close>

definition keyboard_buffer_zero :: keyboard_buffer where
  "keyboard_buffer_zero = \<lparr>buffer = replicate KERNEL_KEYBOARD_BUFFER_SIZE 0, head = 0, tail = 0, kb_size = 0\<rparr>"

subsection \<open>kernel/keyboard.c\<close>

definition keyboard_get_next_index :: "nat \<Rightarrow> nat" where
  "keyboard_get_next_index index = (index + 1) mod KERNEL_KEYBOARD_BUFFER_SIZE"

definition keyboard_get_last_index :: "nat \<Rightarrow> nat" where
  "keyboard_get_last_index index = (index + KERNEL_KEYBOARD_BUFFER_SIZE - 1) mod KERNEL_KEYBOARD_BUFFER_SIZE"

definition keyboard_push :: "keyboard_buffer option \<Rightarrow> u8 \<Rightarrow> keyboard_buffer option" where
  "keyboard_push process c =
     (case process of
        None \<Rightarrow> None
      | Some kb \<Rightarrow>
          if c = 0 then Some kb
          else if kb_size kb = KERNEL_KEYBOARD_BUFFER_SIZE then Some kb
          else let index = keyboard_get_next_index (tail kb)
               in Some (kb\<lparr>buffer := (buffer kb)[index := c], tail := index, kb_size := kb_size kb + 1\<rparr>))"

definition keyboard_pop :: "keyboard_buffer option \<Rightarrow> u8 \<times> keyboard_buffer option" where
  "keyboard_pop process =
     (case process of
        None \<Rightarrow> (0, None)
      | Some kb \<Rightarrow>
          if kb_size kb = 0 then (0, Some kb)
          else let index = keyboard_get_next_index (head kb);
                   c = buffer kb ! index
               in (c, Some (kb\<lparr>buffer := (buffer kb)[index := 0], head := index, kb_size := kb_size kb - 1\<rparr>)))"

definition keyboard_backspace :: "keyboard_buffer option \<Rightarrow> keyboard_buffer option" where
  "keyboard_backspace process =
     (case process of
        None \<Rightarrow> None
      | Some kb \<Rightarrow>
          if kb_size kb = 0 then Some kb
          else let index = keyboard_get_last_index (tail kb)
               in Some (kb\<lparr>buffer := (buffer kb)[tail kb := 0], tail := index, kb_size := kb_size kb - 1\<rparr>))"

text \<open>
  The list of keyboard drivers, by address; \<open>kbd_init\<close> is the driver's \<open>init\<close> function, acting on
  the rest of the machine \<open>'w\<close> (\<open>None\<close> when the pointer is NULL).
\<close>

datatype KEYBOARD_CAPS_LOCK_STATE = KEYBOARD_CAPS_LOCK_OFF | KEYBOARD_CAPS_LOCK_ON

record 'w keyboard =
  kbd_init :: "('w \<Rightarrow> int \<times> 'w) option"
  kbd_name :: string
  kbd_next :: u32
  kbd_state :: KEYBOARD_CAPS_LOCK_STATE

record 'w keyboard_drivers =
  keyboard_list_head :: u32
  keyboard_list_tail :: u32
  keyboards :: "u32 \<Rightarrow> 'w keyboard"
  machine :: 'w

definition keyboard_insert :: "'w keyboard_drivers \<Rightarrow> u32 \<Rightarrow> int \<times> 'w keyboard_drivers" where
  "keyboard_insert ds keyboard =
     (if keyboard = 0 then (- EINVAGS, ds)
      else case kbd_init (keyboards ds keyboard) of
        None \<Rightarrow> (- EINVAGS, ds)
      | Some init \<Rightarrow>
          let ds1 = (if keyboard_list_head ds = 0
                     then ds\<lparr>keyboard_list_head := keyboard, keyboard_list_tail := keyboard\<rparr>
                     else ds\<lparr>keyboards := (keyboards ds)(keyboard_list_tail ds :=
                                 (keyboards ds (keyboard_list_tail ds))\<lparr>kbd_next := keyboard\<rparr>),
                              keyboard_list_tail := keyboard\<rparr>);
              (res, w) = init (machine ds1)
          in (res, ds1\<lparr>machine := w\<rparr>))"

definition keyboard_set_capslock :: "'w keyboard \<Rightarrow> KEYBOARD_CAPS_LOCK_STATE \<Rightarrow> 'w keyboard" where
  "keyboard_set_capslock keyboard state = keyboard\<lparr>kbd_state := state\<rparr>"

definition keyboard_get_capslock :: "'w keyboard \<Rightarrow> KEYBOARD_CAPS_LOCK_STATE" where
  "keyboard_get_capslock keyboard = kbd_state keyboard"

subsection \<open>driver/keyboard/classic.c\<close>

definition CLASSIC_KEYBOARD_CAPSLOCK :: u8 where [kconfig]: "CLASSIC_KEYBOARD_CAPSLOCK = 0x3A"
definition CLASSIC_KEYBOARD_KEY_RELEASED :: u8 where [kconfig]: "CLASSIC_KEYBOARD_KEY_RELEASED = 0x80"

definition keyboard_scan_set_one :: "u8 list" where
  "keyboard_scan_set_one =
    [0x00, 0x1B, 0x31, 0x32, 0x33, 0x34, 0x35,
     0x36, 0x37, 0x38, 0x39, 0x30, 0x2D, 0x3D,
     0x08, 0x09, 0x71, 0x77, 0x65, 0x72, 0x74,
     0x79, 0x75, 0x69, 0x6F, 0x70, 0x5B, 0x5D,
     0x0D, 0x00, 0x61, 0x73, 0x64, 0x66, 0x67,
     0x68, 0x6A, 0x6B, 0x6C, 0x3B, 0x27, 0x60,
     0x00, 0x5C, 0x7A, 0x78, 0x63, 0x76, 0x62,
     0x6E, 0x6D, 0x2C, 0x2E, 0x2F, 0x00, 0x2A,
     0x00, 0x20, 0x00, 0x00, 0x00, 0x00,
     0x00, 0x00, 0x00, 0x00, 0x00, 0x00,
     0x00, 0x37, 0x38, 0x39, 0x2D, 0x34, 0x35,
     0x36, 0x2B, 0x31, 0x32, 0x33, 0x30, 0x2E]"

text \<open>A scan code equal to the table's size passes the check and reads one past the table.\<close>

definition classic_keyboard_scancode_to_char :: "KEYBOARD_CAPS_LOCK_STATE \<Rightarrow> u8 \<Rightarrow> u8 kresult" where
  "classic_keyboard_scancode_to_char state scancode =
     (if unat scancode > length keyboard_scan_set_one then Inr 0
      else if unat scancode = length keyboard_scan_set_one then Inl OutOfBounds
      else let c = keyboard_scan_set_one ! unat scancode
           in Inr (if state = KEYBOARD_CAPS_LOCK_ON \<and> 0x61 \<le> c \<and> c \<le> 0x7A then c - 32 else c))"

text \<open>The handler's state: the driver's own record and the buffer of the current process. The second
  byte read from the port is dropped.\<close>

record 'w kbd_irq =
  classic_keyboard :: "'w keyboard"
  current_buffer :: "keyboard_buffer option"

definition classic_keyboard_handle_interrupt :: "'w kbd_irq \<Rightarrow> u8 \<Rightarrow> u8 \<Rightarrow> 'w kbd_irq kresult" where
  "classic_keyboard_handle_interrupt st scancode dropped =
     (if scancode AND CLASSIC_KEYBOARD_KEY_RELEASED \<noteq> 0 then Inr st
      else let st1 = (if scancode = CLASSIC_KEYBOARD_CAPSLOCK
                      then let old_state = keyboard_get_capslock (classic_keyboard st)
                           in st\<lparr>classic_keyboard := keyboard_set_capslock (classic_keyboard st)
                                 (if old_state = KEYBOARD_CAPS_LOCK_ON then KEYBOARD_CAPS_LOCK_OFF
                                  else KEYBOARD_CAPS_LOCK_ON)\<rparr>
                      else st)
           in kbind (classic_keyboard_scancode_to_char (kbd_state (classic_keyboard st1)) scancode) (\<lambda>c.
              Inr (if c \<noteq> 0 then st1\<lparr>current_buffer := keyboard_push (current_buffer st1) c\<rparr> else st1)))"

text \<open>\<open>classic_keyboard_init\<close>: the interrupt callback it registers and the byte it writes to the
  controller are the machine's; on the driver itself it turns caps lock off.\<close>

definition PS2_PORT :: u16 where [kconfig]: "PS2_PORT = 0x64"
definition PS2_COMMAND_ENABLE_FIRST_PORT :: u8 where [kconfig]: "PS2_COMMAND_ENABLE_FIRST_PORT = 0xAE"
definition ISR_KEYBOARD_INTERRUPT :: nat where [kconfig]: "ISR_KEYBOARD_INTERRUPT = 0x21"

definition classic_keyboard_init ::
    "(nat \<Rightarrow> 'm \<Rightarrow> 'm) \<Rightarrow> (u16 \<Rightarrow> u8 \<Rightarrow> 'm \<Rightarrow> 'm) \<Rightarrow> 'w keyboard \<times> 'm \<Rightarrow> int \<times> 'w keyboard \<times> 'm" where
  "classic_keyboard_init register outb = (\<lambda>(kbd, m).
     (0, keyboard_set_capslock kbd KEYBOARD_CAPS_LOCK_OFF,
      outb PS2_PORT PS2_COMMAND_ENABLE_FIRST_PORT (register ISR_KEYBOARD_INTERRUPT m)))"

subsection \<open>The queue interface\<close>

primrec pop_n :: "('q \<Rightarrow> u8 \<times> 'q) \<Rightarrow> nat \<Rightarrow> 'q \<Rightarrow> u8 list \<times> 'q" where
  "pop_n pop 0 q = ([], q)"
| "pop_n pop (Suc n) q = (let (c, q1) = pop q; (cs, q2) = pop_n pop n q1 in (c # cs, q2))"

text \<open>
  What the producers and consumers of keys rely on. \<open>contents\<close> is the queue as a list, oldest
  first; a full queue drops what is pushed, an empty one pops the zero character.
\<close>

locale char_queue =
  fixes push :: "'q \<Rightarrow> u8 \<Rightarrow> 'q"
    and pop :: "'q \<Rightarrow> u8 \<times> 'q"
    and erase :: "'q \<Rightarrow> 'q"
    and contents :: "'q \<Rightarrow> u8 list"
    and valid :: "'q \<Rightarrow> bool"
    and capacity :: nat
  assumes push_law: "valid q \<Longrightarrow> valid (push q c) \<and>
      contents (push q c) = (if c = 0 \<or> length (contents q) = capacity then contents q else contents q @ [c])"
    and pop_law: "valid q \<Longrightarrow> pop q = (c, q') \<Longrightarrow> valid q' \<and>
      (if contents q = [] then c = 0 \<and> q' = q else contents q = c # contents q')"
    and erase_law: "valid q \<Longrightarrow> valid (erase q) \<and> contents (erase q) = butlast (contents q)"
    and capacity_law: "valid q \<Longrightarrow> length (contents q) \<le> capacity"
begin

lemma push_all:
  assumes "valid q" "0 \<notin> set cs"
  shows "valid (fold (\<lambda>c q. push q c) cs q) \<and>
    contents (fold (\<lambda>c q. push q c) cs q) = contents q @ take (capacity - length (contents q)) cs"
  using assms
proof (induction cs arbitrary: q)
  case (Cons c cs)
  note p = push_law [OF Cons.prems(1), of c] and cap = capacity_law [OF Cons.prems(1)]
  have ih: "valid (fold (\<lambda>c q. push q c) cs (push q c)) \<and>
      contents (fold (\<lambda>c q. push q c) cs (push q c)) =
        contents (push q c) @ take (capacity - length (contents (push q c))) cs"
    by (rule Cons.IH) (use p Cons.prems(2) in auto)
  show ?case
  proof (cases "length (contents q) = capacity")
    case True
    with ih p show ?thesis by simp
  next
    case False
    with cap have "capacity - length (contents q) = Suc (capacity - Suc (length (contents q)))" by simp
    with False ih p Cons.prems(2) show ?thesis by simp
  qed
qed simp

lemma pop_all:
  assumes "valid q" "n \<le> length (contents q)"
  shows "fst (pop_n pop n q) = take n (contents q) \<and> valid (snd (pop_n pop n q)) \<and>
    contents (snd (pop_n pop n q)) = drop n (contents q)"
  using assms
proof (induction n arbitrary: q)
  case (Suc n)
  obtain c q1 where p: "pop q = (c, q1)" by fastforce
  from Suc.prems(2) have "contents q \<noteq> []" by auto
  with pop_law [OF Suc.prems(1) p] have q1: "valid q1" "contents q = c # contents q1" by auto
  with Suc.IH [OF q1(1)] Suc.prems(2) p show ?case by (simp add: split_beta)
qed simp

text \<open>What is pushed into an empty queue comes out in the same order.\<close>

lemma fifo:
  assumes "valid q" "contents q = []" "0 \<notin> set cs" "length cs \<le> capacity"
  shows "fst (pop_n pop (length cs) (fold (\<lambda>c q. push q c) cs q)) = cs"
  using push_all [OF assms(1,3)] pop_all [of "fold (\<lambda>c q. push q c) cs q" "length cs"] assms by simp

end

subsection \<open>The ring buffer as a list\<close>

definition kb_index :: "keyboard_buffer \<Rightarrow> nat \<Rightarrow> nat" where
  "kb_index kb i = (head kb + 1 + i) mod KERNEL_KEYBOARD_BUFFER_SIZE"

definition kb_contents :: "keyboard_buffer \<Rightarrow> u8 list" where
  "kb_contents kb = map (\<lambda>i. buffer kb ! kb_index kb i) [0..<kb_size kb]"

definition kb_wf :: "keyboard_buffer \<Rightarrow> bool" where
  "kb_wf kb \<longleftrightarrow> length (buffer kb) = KERNEL_KEYBOARD_BUFFER_SIZE \<and>
     head kb < KERNEL_KEYBOARD_BUFFER_SIZE \<and> kb_size kb \<le> KERNEL_KEYBOARD_BUFFER_SIZE \<and>
     tail kb = (head kb + kb_size kb) mod KERNEL_KEYBOARD_BUFFER_SIZE"

lemma mod_add_inj:
  assumes "i < N" "j < N" "(a + i) mod N = (a + j) mod N"
  shows "i = (j :: nat)"
proof (rule linorder_cases [of i j])
  assume "i < j"
  with assms mod_eq_dvd_iff_nat [of "a + i" "a + j" N] have "N dvd j - i" by simp
  with \<open>i < j\<close> assms(2) show ?thesis by (auto dest!: dvd_imp_le)
next
  assume "j < i"
  with assms mod_eq_dvd_iff_nat [of "a + j" "a + i" N] have "N dvd i - j" by simp
  with \<open>j < i\<close> assms(1) show ?thesis by (auto dest!: dvd_imp_le)
qed

lemma kb_index_less: "kb_index kb i < KERNEL_KEYBOARD_BUFFER_SIZE"
  by (simp add: kb_index_def kconfig)

lemma kb_index_upd [simp]: "kb_index (kb\<lparr>buffer := b, tail := t, kb_size := n\<rparr>) i = kb_index kb i"
  by (simp add: kb_index_def)

lemma kb_index_inj:
  "i < KERNEL_KEYBOARD_BUFFER_SIZE \<Longrightarrow> j < KERNEL_KEYBOARD_BUFFER_SIZE \<Longrightarrow>
     kb_index kb i = kb_index kb j \<longleftrightarrow> i = j"
  unfolding kb_index_def using mod_add_inj by blast

lemma kb_tail_next: "kb_wf kb \<Longrightarrow> keyboard_get_next_index (tail kb) = kb_index kb (kb_size kb)"
  by (simp add: kb_wf_def keyboard_get_next_index_def kb_index_def mod_Suc_eq)

lemma kb_head_next: "keyboard_get_next_index (head kb) = kb_index kb 0"
  by (simp add: keyboard_get_next_index_def kb_index_def)

lemma ring_previous:
  assumes "0 < N"
  shows "((h + Suc t) mod N + N - 1) mod N = (h + t) mod (N :: nat)"
proof -
  have "((h + Suc t) mod N + N - 1) mod N = ((h + Suc t) mod N + (N - 1)) mod N" using assms by simp
  also have "\<dots> = (h + Suc t + (N - 1)) mod N" by (rule mod_add_left_eq)
  also have "h + Suc t + (N - 1) = h + t + N" using assms by simp
  finally show ?thesis by simp
qed

lemma kb_tail_last:
  assumes "kb_wf kb" "kb_size kb = Suc n"
  shows "tail kb = kb_index kb n"
    and "keyboard_get_last_index (tail kb) = (head kb + n) mod KERNEL_KEYBOARD_BUFFER_SIZE"
proof -
  have "0 < KERNEL_KEYBOARD_BUFFER_SIZE" by (simp add: kconfig)
  from ring_previous [OF this] show "tail kb = kb_index kb n"
    and "keyboard_get_last_index (tail kb) = (head kb + n) mod KERNEL_KEYBOARD_BUFFER_SIZE"
    using assms by (simp_all add: kb_wf_def kb_index_def keyboard_get_last_index_def)
qed

text \<open>The queue of the current process, as the interface wants it.\<close>

definition buffer_contents :: "keyboard_buffer option \<Rightarrow> u8 list" where
  "buffer_contents b = (case b of None \<Rightarrow> [] | Some kb \<Rightarrow> kb_contents kb)"

definition buffer_ok :: "keyboard_buffer option \<Rightarrow> bool" where
  "buffer_ok b \<longleftrightarrow> (case b of None \<Rightarrow> False | Some kb \<Rightarrow> kb_wf kb)"

lemma keyboard_push_law:
  assumes "buffer_ok b"
  shows "buffer_ok (keyboard_push b c) \<and> buffer_contents (keyboard_push b c) =
    (if c = 0 \<or> length (buffer_contents b) = KERNEL_KEYBOARD_BUFFER_SIZE then buffer_contents b
     else buffer_contents b @ [c])"
proof -
  obtain kb where b: "b = Some kb" and wf: "kb_wf kb" using assms by (auto simp: buffer_ok_def split: option.splits)
  show ?thesis
  proof (cases "c = 0 \<or> kb_size kb = KERNEL_KEYBOARD_BUFFER_SIZE")
    case True
    with b assms show ?thesis
      by (auto simp: keyboard_push_def buffer_contents_def kb_contents_def)
  next
    case False
    let ?i = "kb_index kb (kb_size kb)"
    let ?kb = "kb\<lparr>buffer := (buffer kb)[?i := c], tail := ?i, kb_size := kb_size kb + 1\<rparr>"
    have lt: "kb_size kb < KERNEL_KEYBOARD_BUFFER_SIZE" using False wf by (simp add: kb_wf_def)
    have push: "keyboard_push b c = Some ?kb"
      using False by (simp add: keyboard_push_def b kb_tail_next [OF wf] Let_def)
    have "kb_contents ?kb = kb_contents kb @ [c]"
      using lt wf kb_index_inj [of "kb_size kb" _ kb] kb_index_less [of kb]
      by (auto simp: kb_contents_def kb_wf_def)
    moreover have "kb_wf ?kb"
      using wf lt by (simp add: kb_wf_def kb_index_def)
    ultimately show ?thesis
      using False push b by (simp add: buffer_ok_def buffer_contents_def kb_contents_def)
  qed
qed

lemma keyboard_pop_law:
  assumes "buffer_ok b" "keyboard_pop b = (c, b')"
  shows "buffer_ok b' \<and>
    (if buffer_contents b = [] then c = 0 \<and> b' = b else buffer_contents b = c # buffer_contents b')"
proof -
  obtain kb where b: "b = Some kb" and wf: "kb_wf kb" using assms(1) by (auto simp: buffer_ok_def split: option.splits)
  show ?thesis
  proof (cases "kb_size kb")
    case 0
    with b assms show ?thesis
      by (auto simp: keyboard_pop_def buffer_contents_def kb_contents_def)
  next
    case (Suc n)
    let ?i = "kb_index kb 0"
    let ?kb = "kb\<lparr>buffer := (buffer kb)[?i := 0], head := ?i, kb_size := n\<rparr>"
    have pop: "c = buffer kb ! ?i" "b' = Some ?kb"
      using assms(2) Suc by (simp_all add: keyboard_pop_def b kb_head_next Let_def)
    have lt: "n < KERNEL_KEYBOARD_BUFFER_SIZE" using Suc wf by (simp add: kb_wf_def)
    have ix: "kb_index ?kb i = kb_index kb (Suc i)" for i
      unfolding kb_index_def using mod_add_left_eq [of "head kb + 1" KERNEL_KEYBOARD_BUFFER_SIZE "1 + i"] by simp
    have ne: "kb_index kb 0 \<noteq> kb_index kb (Suc i)" if "i < n" for i
      using kb_index_inj [of 0 "Suc i" kb] that lt by (simp add: kconfig)
    have "kb_contents kb = c # kb_contents ?kb"
      unfolding kb_contents_def Suc map_upt_Suc using ne pop(1) by (simp add: ix)
    moreover have "kb_wf ?kb"
      using wf lt Suc kb_index_less [of kb 0]
      by (auto simp: kb_wf_def kb_index_def mod_simps)
    ultimately show ?thesis
      using pop b by (simp add: buffer_ok_def buffer_contents_def)
  qed
qed

lemma keyboard_backspace_law:
  assumes "buffer_ok b"
  shows "buffer_ok (keyboard_backspace b) \<and> buffer_contents (keyboard_backspace b) = butlast (buffer_contents b)"
proof -
  obtain kb where b: "b = Some kb" and wf: "kb_wf kb" using assms(1) by (auto simp: buffer_ok_def split: option.splits)
  show ?thesis
  proof (cases "kb_size kb")
    case 0
    with b assms show ?thesis
      by (auto simp: keyboard_backspace_def buffer_contents_def kb_contents_def)
  next
    case (Suc n)
    let ?kb = "kb\<lparr>buffer := (buffer kb)[kb_index kb n := 0],
      tail := (head kb + n) mod KERNEL_KEYBOARD_BUFFER_SIZE, kb_size := n\<rparr>"
    have erased: "keyboard_backspace b = Some ?kb"
      using Suc kb_tail_last [OF wf Suc] by (simp add: keyboard_backspace_def b Let_def)
    have lt: "n < KERNEL_KEYBOARD_BUFFER_SIZE" using Suc wf by (simp add: kb_wf_def)
    have "kb_contents ?kb = butlast (kb_contents kb)"
      unfolding kb_contents_def Suc using kb_index_inj [of n _ kb] lt by (simp add: map_butlast [symmetric])
    moreover have "kb_wf ?kb" using wf lt by (simp add: kb_wf_def)
    ultimately show ?thesis
      using erased b by (simp add: buffer_ok_def buffer_contents_def)
  qed
qed

interpretation ring: char_queue keyboard_push keyboard_pop keyboard_backspace buffer_contents buffer_ok
    KERNEL_KEYBOARD_BUFFER_SIZE
proof
  show "length (buffer_contents q) \<le> KERNEL_KEYBOARD_BUFFER_SIZE" if "buffer_ok q" for q
    using that by (auto simp: buffer_ok_def buffer_contents_def kb_contents_def kb_wf_def split: option.splits)
qed (rule keyboard_push_law keyboard_pop_law keyboard_backspace_law; assumption)+

subsection \<open>Properties\<close>

definition empty_buffer :: "keyboard_buffer option" where
  "empty_buffer = Some keyboard_buffer_zero"

lemma empty_buffer_ok: "buffer_ok empty_buffer" "buffer_contents empty_buffer = []"
  by (simp_all add: empty_buffer_def keyboard_buffer_zero_def buffer_ok_def kb_wf_def
      buffer_contents_def kb_contents_def kconfig)

text \<open>C4: The ring buffer is a bounded FIFO queue. On a well-formed buffer, \<open>keyboard_push\<close> appends
  the character unless it is 0 or 1024 characters are waiting, \<open>keyboard_pop\<close> takes the oldest one
  (0 and no change when there is none), \<open>keyboard_backspace\<close> drops the newest, and all three
  keep the buffer well-formed.\<close>

theorem keyboard_refines_queue:
  assumes "buffer_ok b"
  shows "buffer_ok (keyboard_push b c) \<and> buffer_ok (snd (keyboard_pop b)) \<and> buffer_ok (keyboard_backspace b) \<and>
    buffer_contents (keyboard_push b c) =
      (if c = 0 \<or> length (buffer_contents b) = 1024 then buffer_contents b else buffer_contents b @ [c]) \<and>
    (case buffer_contents b of [] \<Rightarrow> keyboard_pop b = (0, b)
     | x # xs \<Rightarrow> fst (keyboard_pop b) = x \<and> buffer_contents (snd (keyboard_pop b)) = xs) \<and>
    buffer_contents (keyboard_backspace b) = butlast (buffer_contents b)"
  using ring.push_law [OF assms, of c] ring.erase_law [OF assms] ring.pop_law [OF assms surjective_pairing]
  by (auto simp: kconfig prod_eq_iff split: list.splits)

theorem keyboard_refines_queue_witness:
  "buffer_contents (keyboard_push empty_buffer 0x61) = [0x61] \<and> keyboard_pop empty_buffer = (0, empty_buffer)"
  using keyboard_refines_queue [OF empty_buffer_ok(1), of "0x61"] by (simp add: empty_buffer_ok)

text \<open>Keys come out in the order they went in: pushing up to 1024 non-zero characters into an
  empty buffer and popping as many returns exactly that sequence, wherever in the ring the
  buffer happens to start.\<close>

lemma keyboard_fifo:
  assumes "buffer_ok b" and "buffer_contents b = []" and "0 \<notin> set cs" and "length cs \<le> 1024"
  shows "fst (pop_n keyboard_pop (length cs) (fold (\<lambda>c b. keyboard_push b c) cs b)) = cs"
  by (rule ring.fifo [OF assms(1-3)]) (use assms(4) in \<open>simp add: kconfig\<close>)

lemma keyboard_fifo_witness:
  "fst (pop_n keyboard_pop 3 (fold (\<lambda>c b. keyboard_push b c) [0x6C, 0x73, 0x0D] empty_buffer)) = [0x6C, 0x73, 0x0D]"
  using keyboard_fifo [OF empty_buffer_ok, of "[0x6C, 0x73, 0x0D]"] by (simp add: numeral_3_eq_3)

text \<open>C13: What a key press does: a release does nothing; any other scan code but 0x52 is handled, caps
  lock toggles the driver's state, and a code with a character pushes that character (upper
  case exactly when caps lock is on) into the current process's buffer and changes nothing
  else.\<close>

theorem classic_keyboard_interrupt:
  assumes "scancode \<noteq> 0x52"
  shows "\<exists>st'. classic_keyboard_handle_interrupt st scancode dropped = Inr st' \<and>
    (scancode AND 0x80 \<noteq> 0 \<longrightarrow> st' = st) \<and>
    (scancode = 0x3A \<longrightarrow> st' = st\<lparr>classic_keyboard := (classic_keyboard st)\<lparr>kbd_state :=
        (if kbd_state (classic_keyboard st) = KEYBOARD_CAPS_LOCK_ON then KEYBOARD_CAPS_LOCK_OFF
         else KEYBOARD_CAPS_LOCK_ON)\<rparr>\<rparr>) \<and>
    (scancode AND 0x80 = 0 \<and> scancode \<noteq> 0x3A \<and> unat scancode < 82 \<longrightarrow>
       st' = st\<lparr>current_buffer := keyboard_push (current_buffer st)
         (let c = keyboard_scan_set_one ! unat scancode in
          if kbd_state (classic_keyboard st) = KEYBOARD_CAPS_LOCK_ON \<and> 0x61 \<le> c \<and> c \<le> 0x7A
          then c - 32 else c)\<rparr>)"
proof -
  have len: "length keyboard_scan_set_one = 82" by (simp add: keyboard_scan_set_one_def)
  have ne: "unat scancode \<noteq> 82"
  proof
    assume "unat scancode = 82"
    then have "scancode = of_nat 82" by (metis of_nat_unat ucast_id)
    with assms show False by simp
  qed
  have caps: "keyboard_scan_set_one ! 58 = 0" by (simp add: keyboard_scan_set_one_def)
  have zero: "keyboard_push b 0 = b" for b by (simp add: keyboard_push_def split: option.splits)
  have up: "c - 32 \<noteq> 0" if "0x61 \<le> c" for c :: u8 using that by auto
  show ?thesis
    using ne by (auto simp: classic_keyboard_handle_interrupt_def classic_keyboard_scancode_to_char_def
        keyboard_set_capslock_def keyboard_get_capslock_def len caps zero up kconfig Let_def)
qed

definition idle_irq :: "unit kbd_irq" where
  "idle_irq = \<lparr>classic_keyboard = \<lparr>kbd_init = None, kbd_name = ''Classic'', kbd_next = 0,
      kbd_state = KEYBOARD_CAPS_LOCK_ON\<rparr>, current_buffer = empty_buffer\<rparr>"

theorem classic_keyboard_interrupt_witness:
  "classic_keyboard_handle_interrupt idle_irq 0x1E 0 =
     Inr (idle_irq\<lparr>current_buffer := keyboard_push empty_buffer 0x41\<rparr>)"
proof -
  have "keyboard_scan_set_one ! 30 = 0x61" by (simp add: keyboard_scan_set_one_def)
  with classic_keyboard_interrupt [of "0x1E" idle_irq 0] show ?thesis
    by (auto simp: idle_irq_def)
qed

subsection \<open>The driver list\<close>

text \<open>The drivers linked from \<open>p\<close>, in order.\<close>

inductive driver_chain :: "(u32 \<Rightarrow> 'w keyboard) \<Rightarrow> u32 \<Rightarrow> u32 list \<Rightarrow> bool" for ks where
  empty: "driver_chain ks 0 []"
| link: "p \<noteq> 0 \<Longrightarrow> driver_chain ks (kbd_next (ks p)) ps \<Longrightarrow> driver_chain ks p (p # ps)"

inductive_simps driver_chain_simps [simp]: "driver_chain ks p []" "driver_chain ks p (q # ps)"

definition drivers_ok :: "'w keyboard_drivers \<Rightarrow> u32 list \<Rightarrow> bool" where
  "drivers_ok ds ps \<longleftrightarrow> driver_chain (keyboards ds) (keyboard_list_head ds) ps \<and> distinct ps \<and>
     (ps \<noteq> [] \<longrightarrow> keyboard_list_tail ds = last ps)"

lemma driver_chain_other:
  "driver_chain ks p ps \<Longrightarrow> q \<notin> set ps \<Longrightarrow> driver_chain (ks(q := k)) p ps"
  by (induction ps arbitrary: p) auto

lemma driver_chain_append:
  assumes "driver_chain ks p ps" "ps \<noteq> []" "distinct ps" "q \<notin> set ps" "q \<noteq> 0" "kbd_next (ks q) = 0"
  shows "driver_chain (ks(last ps := (ks (last ps))\<lparr>kbd_next := q\<rparr>)) p (ps @ [q])"
  using assms
proof (induction ps arbitrary: p rule: list.induct)
  case (Cons x xs)
  show ?case
  proof (cases "xs = []")
    case True
    with Cons.prems show ?thesis by auto
  next
    case False
    then have "x \<noteq> last xs" using Cons.prems(3) by auto
    with False Cons show ?thesis by auto
  qed
qed simp

text \<open>\<open>keyboard_insert\<close> appends the driver to the list, then runs its \<open>init\<close> and returns what that
  returns; a NULL driver or one without \<open>init\<close> is refused and nothing changes.\<close>

lemma keyboard_insert_appends:
  assumes "drivers_ok ds ps" and "kb \<notin> set ps" and "kbd_next (keyboards ds kb) = 0"
  shows "if kb = 0 \<or> kbd_init (keyboards ds kb) = None then keyboard_insert ds kb = (- EINVAGS, ds)
    else drivers_ok (snd (keyboard_insert ds kb)) (ps @ [kb]) \<and>
      (fst (keyboard_insert ds kb), machine (snd (keyboard_insert ds kb))) =
        the (kbd_init (keyboards ds kb)) (machine ds)"
proof (cases "kb = 0 \<or> kbd_init (keyboards ds kb) = None")
  case False
  then obtain init where init: "kbd_init (keyboards ds kb) = Some init" and "kb \<noteq> 0" by auto
  show ?thesis
  proof (cases "keyboard_list_head ds = 0")
    case True
    with assms(1) have "ps = []" by (auto simp: drivers_ok_def elim: driver_chain.cases)
    with True init \<open>kb \<noteq> 0\<close> assms show ?thesis
      by (auto simp: keyboard_insert_def drivers_ok_def Let_def split: prod.splits)
  next
    case head: False
    with assms(1) have "ps \<noteq> []" by (auto simp: drivers_ok_def)
    then have "driver_chain ((keyboards ds)(last ps := (keyboards ds (last ps))\<lparr>kbd_next := kb\<rparr>))
        (keyboard_list_head ds) (ps @ [kb])"
      using assms \<open>kb \<noteq> 0\<close> by (intro driver_chain_append) (auto simp: drivers_ok_def)
    with head init \<open>kb \<noteq> 0\<close> \<open>ps \<noteq> []\<close> assms show ?thesis
      by (auto simp: keyboard_insert_def drivers_ok_def Let_def split: prod.splits)
  qed
qed (auto simp: keyboard_insert_def split: option.splits)

definition no_drivers :: "nat keyboard_drivers" where
  "no_drivers = \<lparr>keyboard_list_head = 0, keyboard_list_tail = 0,
      keyboards = (\<lambda>_. \<lparr>kbd_init = Some (\<lambda>w. (0, Suc w)), kbd_name = ''Classic'', kbd_next = 0,
        kbd_state = KEYBOARD_CAPS_LOCK_OFF\<rparr>), machine = 0\<rparr>"

lemma keyboard_insert_appends_witness:
  "drivers_ok (snd (keyboard_insert no_drivers 0x2000)) [0x2000]"
proof -
  have "drivers_ok no_drivers []" by (simp add: drivers_ok_def no_drivers_def)
  from keyboard_insert_appends [OF this, of "0x2000"] show ?thesis by (simp add: no_drivers_def)
qed

end
