(* ===== verification/Pparser.thy ===== *)
theory Pparser
  imports Kheap Kstring
begin

unbundle bit_operations_syntax

section \<open>Path parsing: fs/pparser.c\<close>

text \<open>
  \<open>pathparser_parse\<close> splits a path such as \<open>0:/dir/file\<close> into a drive number and a linked list of
  parts, each part two allocations (the node and its string). The nodes are values here that
  carry the addresses of their two allocations, in list order, which is what following the
  \<open>next\<close> pointers gives; every \<open>kzalloc\<close> and \<open>kfree\<close> of the code is made on the kernel heap. A C
  string argument is the byte list from the pointer on; reading past its end and writing past
  the 108 bytes of a part's buffer are \<open>OutOfBounds\<close>.

  The lemmas show that neither happens for any terminated path, that the parts are the pieces
  of the path between slashes up to the first empty one, and that no outcome leaks memory.
\<close>

subsection \<open>State and operations\<close>

record path_part =
  pp_addr :: u32
  part_addr :: u32
  part :: "u8 list"

record path_root =
  pr_addr :: u32
  drive_no :: int
  first :: "path_part list"

definition SLASH :: u8 where [kconfig]: "SLASH = 47"

definition pathpraser_path_vaild_format :: "u8 list \<Rightarrow> bool kresult" where
  "pathpraser_path_vaild_format path =
     (case strnlen path KERNEL_MAX_PATH of
        None \<Rightarrow> Inl OutOfBounds
      | Some len \<Rightarrow>
          if 3 \<le> len \<and> isdigit (path ! 0) then
            (case memcmp (drop 1 path) [58, 47, 0] 2 of
               None \<Rightarrow> Inl OutOfBounds
             | Some r \<Rightarrow> Inr (r = 0))
          else Inr False)"

definition pathparser_get_drive_by_path :: "u8 list \<Rightarrow> (int \<times> u8 list) kresult" where
  "pathparser_get_drive_by_path path =
     kbind (pathpraser_path_vaild_format path) (\<lambda>ok.
     if \<not> ok then Inr (- EBADPATH, path)
     else Inr (tonumericdigit (path ! 0), drop 3 path))"

definition pathparser_create_root :: "'a kstate_scheme \<Rightarrow> int \<Rightarrow> u32 \<times> path_root \<times> 'a kstate_scheme" where
  "pathparser_create_root ks drive =
     (let (path_root, ks1) = kzalloc ks 8 in
      if path_root = 0 then (ERROR (- ENOMEM), \<lparr>pr_addr = 0, drive_no = 0, first = []\<rparr>, ks1)
      else (path_root, \<lparr>pr_addr = path_root, drive_no = drive, first = []\<rparr>, ks1))"

text \<open>The copy loop of \<open>pathparser_get_path_part\<close>: \<open>str\<close> is what it has written so far.\<close>

fun pathparser_copy_part :: "u8 list \<Rightarrow> u8 list \<Rightarrow> (u8 list \<times> u8 list) kresult" where
  "pathparser_copy_part str [] = Inl OutOfBounds"
| "pathparser_copy_part str (c # path) =
     (if c \<noteq> SLASH \<and> c \<noteq> 0 then
        if length str < KERNEL_MAX_PATH then pathparser_copy_part (str @ [c]) path else Inl OutOfBounds
      else Inr (str, c # path))"

definition pathparser_get_path_part ::
    "'a kstate_scheme \<Rightarrow> u8 list \<Rightarrow> (u32 \<times> u8 list \<times> u8 list \<times> 'a kstate_scheme) kresult" where
  "pathparser_get_path_part ks path =
     (let (path_part_str, ks1) = kzalloc ks (of_nat KERNEL_MAX_PATH) in
      if path_part_str = 0 then Inr (ERROR (- ENOMEM), [], path, ks1)
      else kbind (pathparser_copy_part [] path) (\<lambda>(str, path1).
        let path2 = (if hd path1 = SLASH then tl path1 else path1) in
        if KERNEL_MAX_PATH \<le> length str then Inl OutOfBounds
        else if str = [] then Inr (0, [], path2, kfree ks1 path_part_str)
        else Inr (path_part_str, str, path2, ks1)))"

definition pathparser_parse_path_part ::
    "'a kstate_scheme \<Rightarrow> u8 list \<Rightarrow> (u32 \<times> path_part \<times> u8 list \<times> 'a kstate_scheme) kresult" where
  "pathparser_parse_path_part ks path =
     kbind (pathparser_get_path_part ks path) (\<lambda>(path_part_str, str, path1, ks1).
     let none = \<lparr>pp_addr = 0, part_addr = 0, part = []\<rparr> in
     if path_part_str = 0 then Inr (0, none, path1, ks1)
     else if IS_ERROR path_part_str then Inr (ERROR (ERROR_I path_part_str), none, path1, ks1)
     else let (path_part, ks2) = kzalloc ks1 8 in
       if path_part = 0 then Inr (ERROR (- ENOMEM), none, path1, kfree ks2 path_part_str)
       else Inr (path_part, \<lparr>pp_addr = path_part, part_addr = path_part_str, part = str\<rparr>, path1, ks2))"

lemma pathparser_copy_part_eq:
  assumes "is_cstr path"
  shows "pathparser_copy_part str path =
    (if length str + length (takeWhile (\<lambda>c. c \<noteq> SLASH) (cstr path)) \<le> KERNEL_MAX_PATH \<or>
        takeWhile (\<lambda>c. c \<noteq> SLASH) (cstr path) = []
     then Inr (str @ takeWhile (\<lambda>c. c \<noteq> SLASH) (cstr path),
               drop (length (takeWhile (\<lambda>c. c \<noteq> SLASH) (cstr path))) path)
     else Inl OutOfBounds)"
  using assms by (induction str path rule: pathparser_copy_part.induct) auto

lemma pathparser_copy_part_shorter:
  "pathparser_copy_part str path = Inr (str', path') \<Longrightarrow>
     length str + length path = length str' + length path'"
  by (induction str path rule: pathparser_copy_part.induct) (auto split: if_splits)

lemma pathparser_get_path_part_shorter:
  assumes "pathparser_get_path_part ks path = Inr (p, str, path', ks')" "p \<noteq> 0" "\<not> IS_ERROR p"
  shows "length path' < length path"
proof -
  have e: "IS_ERROR (ERROR (- ENOMEM))"
    unfolding IS_ERROR_def by (subst ERROR_I_ERROR) (simp_all add: kconfig)
  obtain q ks1 where a: "kzalloc ks (of_nat KERNEL_MAX_PATH) = (q, ks1)" by fastforce
  with assms e have "q \<noteq> 0" by (auto simp: pathparser_get_path_part_def)
  with assms a obtain path1 where "pathparser_copy_part [] path = Inr (str, path1)"
    "str \<noteq> []" "path' = (if hd path1 = SLASH then tl path1 else path1)"
    by (fastforce simp: pathparser_get_path_part_def kbind_Inr_iff Let_def split: if_splits)
  with pathparser_copy_part_shorter [of "[]" path str path1] show ?thesis
    by (cases str) auto
qed

lemma ERROR_ENOMEM: "IS_ERROR (ERROR (- ENOMEM))" "ERROR_I (ERROR (- ENOMEM)) = - ENOMEM"
  "ERROR (- ENOMEM) \<noteq> 0"
proof -
  show e: "ERROR_I (ERROR (- ENOMEM)) = - ENOMEM" by (rule ERROR_I_ERROR) (simp_all add: kconfig)
  then show "IS_ERROR (ERROR (- ENOMEM))" by (simp add: IS_ERROR_def kconfig)
  show "ERROR (- ENOMEM) \<noteq> 0" using e by (auto simp: ERROR_I_def kconfig)
qed

lemma ERROR_ERROR_I [simp]: "ERROR (ERROR_I p) = p"
  by (simp add: ERROR_def ERROR_I_def)

lemma pathparser_parse_path_part_shorter:
  assumes "pathparser_parse_path_part ks path = Inr (p, pt, path', ks')" "p \<noteq> 0" "\<not> IS_ERROR p"
  shows "length path' < length path"
  using assms pathparser_get_path_part_shorter [of ks path _ _ path'] ERROR_ENOMEM
  by (fastforce simp: pathparser_parse_path_part_def kbind_Inr_iff Let_def split: if_splits prod.splits)

text \<open>The loop of \<open>pathparser_parse\<close>; \<open>parts\<close> are the nodes linked so far. It returns \<open>ret\<close>.\<close>

function pathparser_parse_loop ::
    "'a kstate_scheme \<Rightarrow> u8 list \<Rightarrow> path_part list \<Rightarrow> (int \<times> path_part list \<times> 'a kstate_scheme) kresult" where
  "pathparser_parse_loop ks path parts =
     (case pathparser_parse_path_part ks path of
        Inl e \<Rightarrow> Inl e
      | Inr (p, pt, path1, ks1) \<Rightarrow>
          if IS_ERROR p then Inr (ERROR_I p, parts, ks1)
          else if p = 0 then Inr (0, parts, ks1)
          else pathparser_parse_loop ks1 path1 (parts @ [pt]))"
  by pat_completeness auto
termination
  by (relation "measure (\<lambda>(ks, path, parts). length path)") (auto dest: pathparser_parse_path_part_shorter)

declare pathparser_parse_loop.simps [simp del]

definition pathparser_free :: "'a kstate_scheme \<Rightarrow> u32 \<Rightarrow> path_root \<Rightarrow> 'a kstate_scheme" where
  "pathparser_free ks root_ptr root =
     (if root_ptr = 0 then ks
      else kfree (fold (\<lambda>pt ks. kfree (kfree ks (part_addr pt)) (pp_addr pt)) (first root) ks) root_ptr)"

definition pathparser_parse ::
    "'a kstate_scheme \<Rightarrow> u8 list \<Rightarrow> (u32 \<times> path_root \<times> 'a kstate_scheme) kresult" where
  "pathparser_parse ks path =
     (let no_root = \<lparr>pr_addr = 0, drive_no = 0, first = []\<rparr>;
          out = (\<lambda>ret root_ptr root ks.
            if ret < 0 then
              let ks' = (if root_ptr \<noteq> 0 \<and> \<not> IS_ERROR root_ptr then pathparser_free ks root_ptr root else ks)
              in Inr (ERROR ret, root, ks')
            else Inr (root_ptr, root, ks))
      in case strlen path of
        None \<Rightarrow> Inl OutOfBounds
      | Some len \<Rightarrow>
        if len > KERNEL_MAX_PATH then out (- EINVAGS) 0 no_root ks
        else kbind (pathparser_get_drive_by_path path) (\<lambda>(drive, tmp_path).
          if drive < 0 then out (- EINVAGS) 0 no_root ks
          else let (root_ptr, root, ks1) = pathparser_create_root ks drive in
            if IS_ERROR root_ptr then out (ERROR_I root_ptr) root_ptr root ks1
            else kbind (pathparser_parse_path_part ks1 tmp_path) (\<lambda>(p, pt, tmp_path1, ks2).
              if IS_ERROR p \<or> p = 0
              then out (if IS_ERROR p then ERROR_I p else - EINVAGS) root_ptr root ks2
              else kbind (pathparser_parse_loop ks2 tmp_path1 [pt]) (\<lambda>(ret, parts, ks3).
                out ret root_ptr (root\<lparr>first := parts\<rparr>) ks3))))"

subsection \<open>What a path means\<close>

text \<open>The pieces of a path between slashes, and the ones the parser keeps: those before the
  first empty piece.\<close>

function split_path :: "u8 list \<Rightarrow> u8 list list" where
  "split_path s =
     (let p = takeWhile (\<lambda>c. c \<noteq> SLASH) s; r = dropWhile (\<lambda>c. c \<noteq> SLASH) s
      in if r = [] then [p] else p # split_path (tl r))"
  by pat_completeness auto
termination
proof (relation "measure length", goal_cases)
  case (2 s p r)
  have "length (dropWhile (\<lambda>c. c \<noteq> SLASH) s) \<le> length s" by (rule length_dropWhile_le)
  with 2 show ?case by (cases "dropWhile (\<lambda>c. c \<noteq> SLASH) s") auto
qed simp

declare split_path.simps [simp del]

definition path_parts :: "u8 list \<Rightarrow> u8 list list" where
  "path_parts s = takeWhile (\<lambda>p. p \<noteq> []) (split_path s)"

definition path_format_ok :: "u8 list \<Rightarrow> bool" where
  "path_format_ok s \<longleftrightarrow> 3 \<le> length s \<and> isdigit (s ! 0) \<and> s ! 1 = 58 \<and> s ! 2 = SLASH"

text \<open>The whole meaning of a path: its drive and its parts, or nothing when it is refused.\<close>

definition path_meaning :: "u8 list \<Rightarrow> (int \<times> u8 list list) option" where
  "path_meaning s =
     (if length s \<le> KERNEL_MAX_PATH \<and> path_format_ok s \<and> path_parts (drop 3 s) \<noteq> []
      then Some (tonumericdigit (s ! 0), path_parts (drop 3 s)) else None)"

subsection \<open>Parsing one part\<close>

text \<open>The rest of a path after its first part: past the slash, if there is one.\<close>

definition path_rest :: "u8 list \<Rightarrow> u8 list" where
  "path_rest path =
     (let r = drop (length (takeWhile (\<lambda>c. c \<noteq> SLASH) (cstr path))) path
      in if hd r = SLASH then tl r else r)"

definition path_piece :: "u8 list \<Rightarrow> u8 list" where
  "path_piece path = takeWhile (\<lambda>c. c \<noteq> SLASH) (cstr path)"

lemma drop_cstr: "n \<le> length (cstr s) \<Longrightarrow> cstr (drop n s) = drop n (cstr s)"
  by (induction s arbitrary: n) (auto simp: drop_Cons split: nat.splits if_splits)

lemma is_cstr_drop: "is_cstr s \<Longrightarrow> n \<le> length (cstr s) \<Longrightarrow> is_cstr (drop n s)"
  by (induction s arbitrary: n) (auto simp: drop_Cons split: nat.splits if_splits)

lemma path_rest_cstr:
  assumes "is_cstr path"
  shows "is_cstr (path_rest path)"
    and "cstr (path_rest path) = drop (Suc (length (path_piece path))) (cstr path)"
proof -
  let ?n = "length (path_piece path)" and ?r = "drop (length (path_piece path)) path"
  have n: "?n \<le> length (cstr path)" by (simp add: path_piece_def length_takeWhile_le)
  have c: "is_cstr ?r" "cstr ?r = drop ?n (cstr path)"
    using drop_cstr [OF n] is_cstr_drop [OF assms n] by auto
  have d: "drop ?n (cstr path) = dropWhile (\<lambda>c. c \<noteq> SLASH) (cstr path)"
    by (simp add: path_piece_def dropWhile_eq_drop)
  obtain x xs where r: "?r = x # xs" using c(1) by (cases ?r) auto
  have rest: "path_rest path = (if x = SLASH then xs else x # xs)"
    using r by (simp add: path_rest_def path_piece_def)
  show "is_cstr (path_rest path)" using c(1) r rest by (auto simp: kconfig)
  show "cstr (path_rest path) = drop (Suc ?n) (cstr path)"
  proof (cases "x = SLASH")
    case True
    then have "cstr ?r = SLASH # cstr xs" using r by (simp add: kconfig)
    with c(2) have "drop ?n (cstr path) = SLASH # cstr xs" by simp
    then have "drop (Suc ?n) (cstr path) = cstr xs" by (metis drop_Suc list.sel(3) tl_drop)
    with True rest show ?thesis by simp
  next
    case False
    then have "x = 0"
      using c(2) d r dropWhile_eq_Cons_conv [of "\<lambda>c. c \<noteq> SLASH" "cstr path" x "cstr xs"]
      by (cases "x = 0") auto
    with c(2) r have "drop ?n (cstr path) = []" by simp
    then have "drop (Suc ?n) (cstr path) = []" by simp
    with False \<open>x = 0\<close> rest show ?thesis by simp
  qed
qed

lemma blocks_small: "heap_blocks (of_nat KERNEL_MAX_PATH) = 1" "heap_blocks 8 = 1"
  by (simp_all add: heap_blocks_def heap_align_value_upper_def kconfig)

lemma length_piece: "length (path_piece path) \<le> length (cstr path)"
  by (simp add: path_piece_def length_takeWhile_le)

lemma pathparser_get_path_part_cases:
  assumes ok: "kheap_ok ks" and c: "is_cstr path" and len: "length (path_piece path) < KERNEL_MAX_PATH"
  obtains (nomem) ks' where "pathparser_get_path_part ks path = Inr (ERROR (- ENOMEM), [], path, ks')"
      "kheap_ok ks'" "kernel_heap ks' = kernel_heap ks" "25600 \<le> heap_used (kernel_heap ks)"
  | (none) ks' where "path_piece path = []" "kheap_ok ks'" "kernel_heap ks' = kernel_heap ks"
      "pathparser_get_path_part ks path = Inr (0, [], path_rest path, ks')"
  | (some) q ks' where "path_piece path \<noteq> []" "q \<noteq> 0" "\<not> IS_ERROR q" "kheap_ok ks'"
      "heap_grows (kernel_heap ks) [q] (kernel_heap ks')"
      "heap_used (kernel_heap ks') = Suc (heap_used (kernel_heap ks))"
      "pathparser_get_path_part ks path = Inr (q, path_piece path, path_rest path, ks')"
proof -
  obtain q ks1 where a: "kzalloc ks (of_nat KERNEL_MAX_PATH) = (q, ks1)" by fastforce
  note s = kzalloc_small [OF ok blocks_small(1) a]
  have copy: "pathparser_copy_part [] path = Inr (path_piece path, drop (length (path_piece path)) path)"
    using pathparser_copy_part_eq [OF c, of "[]"] len by (simp add: path_piece_def)
  have rest: "path_rest path = (let r = drop (length (path_piece path)) path in if hd r = SLASH then tl r else r)"
    by (simp add: path_rest_def path_piece_def)
  show thesis
  proof (cases "q = 0")
    case True
    with s a show thesis by (intro nomem [of ks1]) (simp_all add: pathparser_get_path_part_def)
  next
    case False
    then have g: "pathparser_get_path_part ks path =
        (if path_piece path = [] then Inr (0, [], path_rest path, kfree ks1 q)
         else Inr (q, path_piece path, path_rest path, ks1))"
      using a copy len by (simp add: pathparser_get_path_part_def rest Let_def)
    have "heap_free (kernel_heap ks1) q = kernel_heap ks"
      by (rule kernel_alloc.alloc_release [OF kheap_ok_wf [OF ok] kzalloc_heap [OF a]])
    with g s False ok show thesis
      by (cases "path_piece path = []") (auto intro: none [of "kfree ks1 q"] some [of q ks1] simp: kheap_ok_def)
  qed
qed

lemma pathparser_parse_path_part_cases:
  assumes ok: "kheap_ok ks" and c: "is_cstr path" and len: "length (path_piece path) < KERNEL_MAX_PATH"
  obtains (nomem) pt path' ks' where "pathparser_parse_path_part ks path = Inr (ERROR (- ENOMEM), pt, path', ks')"
      "kheap_ok ks'" "kernel_heap ks' = kernel_heap ks" "25600 \<le> heap_used (kernel_heap ks) + 1"
  | (none) pt ks' where "path_piece path = []" "kheap_ok ks'" "kernel_heap ks' = kernel_heap ks"
      "pathparser_parse_path_part ks path = Inr (0, pt, path_rest path, ks')"
  | (some) p q ks' where "path_piece path \<noteq> []" "p \<noteq> 0" "\<not> IS_ERROR p" "kheap_ok ks'"
      "heap_grows (kernel_heap ks) [p, q] (kernel_heap ks')"
      "heap_used (kernel_heap ks') = heap_used (kernel_heap ks) + 2"
      "pathparser_parse_path_part ks path =
         Inr (p, \<lparr>pp_addr = p, part_addr = q, part = path_piece path\<rparr>, path_rest path, ks')"
proof (cases rule: pathparser_get_path_part_cases [OF assms])
  case (1 ks')
  then show thesis
    using ERROR_ENOMEM by (intro nomem [of _ path ks']) (simp_all add: pathparser_parse_path_part_def)
next
  case (2 ks')
  then show thesis by (intro none) (auto simp: pathparser_parse_path_part_def)
next
  case (3 q ks1)
  obtain p ks2 where a: "kzalloc ks1 8 = (p, ks2)" by fastforce
  note s = kzalloc_small [OF 3(4) blocks_small(2) a]
  show thesis
  proof (cases "p = 0")
    case True
    then have "pathparser_parse_path_part ks path =
        Inr (ERROR (- ENOMEM), \<lparr>pp_addr = 0, part_addr = 0, part = []\<rparr>, path_rest path, kfree ks2 q)"
      using 3 a by (simp add: pathparser_parse_path_part_def)
    moreover have f: "heap_free (kernel_heap ks2) q = kernel_heap ks"
      using heap_grows_nil [OF heap_grows_free [OF 3(5), of q, simplified]] s True by simp
    moreover have "kheap_ok (kfree ks2 q)" using f ok by (simp add: kheap_ok_def)
    ultimately show thesis using nomem s True 3(6) by auto
  next
    case False
    have "heap_grows (kernel_heap ks) [p, q] (kernel_heap ks2)"
      using heap_grows_trans [OF 3(5)] s False by fastforce
    with False s 3 a show thesis
      by (intro some [of p ks2 q]) (simp_all add: pathparser_parse_path_part_def)
  qed
qed

subsection \<open>Parsing a whole path\<close>

lemma tl_dropWhile_none: "SLASH \<notin> set s \<Longrightarrow> dropWhile (\<lambda>c. c \<noteq> SLASH) s = []"
  by auto

lemma path_parts_step:
  assumes "is_cstr path"
  shows "path_parts (cstr path) =
    (if path_piece path = [] then [] else path_piece path # path_parts (cstr (path_rest path)))"
proof -
  let ?r = "dropWhile (\<lambda>c. c \<noteq> SLASH) (cstr path)"
  have r: "cstr (path_rest path) = tl ?r"
    by (simp add: path_rest_cstr [OF assms] path_piece_def dropWhile_eq_drop drop_Suc tl_drop)
  have "path_parts [] = []" by (simp add: path_parts_def split_path.simps)
  then show ?thesis
    unfolding path_parts_def split_path.simps [of "cstr path"] r
    by (auto simp: path_piece_def path_parts_def Let_def tl_dropWhile_none)
qed

text \<open>The addresses of a list of parts, in the order \<open>pathparser_free\<close> frees them.\<close>

definition part_addrs :: "path_part list \<Rightarrow> u32 list" where
  "part_addrs pts = concat (map (\<lambda>pt. [part_addr pt, pp_addr pt]) pts)"

lemma part_addrs_simps [simp]:
  "part_addrs [] = []" "part_addrs (pt # pts) = part_addr pt # pp_addr pt # part_addrs pts"
  by (simp_all add: part_addrs_def)

lemma pathparser_parse_loop_ok:
  assumes "kheap_ok ks" "is_cstr path" "length (cstr path) < KERNEL_MAX_PATH"
  shows "\<exists>ret pts ks'. pathparser_parse_loop ks path parts = Inr (ret, parts @ pts, ks') \<and> kheap_ok ks' \<and>
    heap_grows (kernel_heap ks) (part_addrs pts) (kernel_heap ks') \<and>
    heap_used (kernel_heap ks') = heap_used (kernel_heap ks) + 2 * length pts \<and>
    (ret = 0 \<and> map part pts = path_parts (cstr path) \<or>
     ret = - ENOMEM \<and> 25600 \<le> heap_used (kernel_heap ks) + 2 * length (path_parts (cstr path)) + 1)"
  using assms
proof (induction ks path parts rule: pathparser_parse_loop.induct)
  case (1 ks path parts)
  have len: "length (path_piece path) < KERNEL_MAX_PATH" using 1(4) length_piece [of path] by simp
  have g0: "heap_grows (kernel_heap ks) [] (kernel_heap ks)"
    by (rule heap_grows_refl [OF kheap_ok_wf [OF 1(2)]])
  note step = path_parts_step [OF 1(3)] and unfold = pathparser_parse_loop.simps [of ks path parts]
  show ?case
  proof (cases rule: pathparser_parse_path_part_cases [OF 1(2,3) len])
    case (1 pt path' ks')
    then show ?thesis using g0 ERROR_ENOMEM
      by (intro exI [of _ "- ENOMEM"] exI [of _ "[]"] exI [of _ ks']) (simp add: unfold)
  next
    case (2 pt ks')
    then show ?thesis using g0 step
      by (intro exI [of _ 0] exI [of _ "[]"] exI [of _ ks']) (simp add: unfold IS_ERROR_def ERROR_I_def)
  next
    case (3 p q ks1)
    let ?pt = "\<lparr>pp_addr = p, part_addr = q, part = path_piece path\<rparr>"
    have "length (cstr (path_rest path)) < KERNEL_MAX_PATH"
      using 1(4) path_rest_cstr(2) [OF 1(3)] by simp
    with 1(1) [OF 3(7) refl refl refl 3(3,2,4) path_rest_cstr(1) [OF 1(3)]]
    obtain ret pts ks' where ih: "pathparser_parse_loop ks1 (path_rest path) (parts @ [?pt]) =
        Inr (ret, (parts @ [?pt]) @ pts, ks')" "kheap_ok ks'"
      "heap_grows (kernel_heap ks1) (part_addrs pts) (kernel_heap ks')"
      "heap_used (kernel_heap ks') = heap_used (kernel_heap ks1) + 2 * length pts"
      "ret = 0 \<and> map part pts = path_parts (cstr (path_rest path)) \<or>
       ret = - ENOMEM \<and> 25600 \<le> heap_used (kernel_heap ks1) + 2 * length (path_parts (cstr (path_rest path))) + 1"
      by (auto simp del: append_assoc)
    have g: "heap_grows (kernel_heap ks) (part_addrs pts @ [p, q]) (kernel_heap ks')"
      by (rule heap_grows_trans [OF 3(5) ih(3)])
    have "heap_grows (kernel_heap ks) (part_addrs (?pt # pts)) (kernel_heap ks')"
      by (rule heap_grows_set [OF g]) (use g in \<open>auto simp: heap_grows_def\<close>)
    with ih 3 step show ?thesis
      by (intro exI [of _ ret] exI [of _ "?pt # pts"] exI [of _ ks']) (auto simp: unfold)
  qed
qed

lemma fold_free_parts:
  "kernel_heap (fold (\<lambda>pt ks. kfree (kfree ks (part_addr pt)) (pp_addr pt)) pts ks) =
     fold (\<lambda>p h. heap_free h p) (part_addrs pts) (kernel_heap ks)"
  by (induction pts arbitrary: ks) simp_all

lemma pathparser_free_restores:
  assumes "heap_grows h (ptr # part_addrs (first root)) (kernel_heap ks)" "ptr \<noteq> 0"
  shows "kernel_heap (pathparser_free ks ptr root) = h"
proof -
  have "fold (\<lambda>p h. heap_free h p) (part_addrs (first root) @ [ptr]) (kernel_heap ks) = h"
    by (rule heap_grows_free_all [OF assms(1)]) (use assms(1) in \<open>auto simp: heap_grows_def\<close>)
  then show ?thesis using assms(2) by (simp add: pathparser_free_def fold_free_parts)
qed

lemma path_format_eq:
  assumes c: "is_cstr path"
  shows "pathpraser_path_vaild_format path = Inr (path_format_ok (cstr path))"
proof (cases "3 \<le> length (cstr path)")
  case True
  then have n: "path ! 0 = cstr path ! 0" "path ! 1 = cstr path ! 1" "path ! 2 = cstr path ! 2"
    and l: "3 < length path"
    using nth_cstr [of 0 path] nth_cstr [of 1 path] nth_cstr [of 2 path] is_cstr_less [OF c]
    by (auto simp flip: length_greater_0_conv)
  then obtain a b d ys where p: "path = a # b # d # ys"
    by (metis Suc_le_length_iff less_imp_le numeral_3_eq_3)
  have "memcmp (drop 1 path) [58, 47, 0] 2 = Some 0 \<longleftrightarrow> b = 58 \<and> d = 47"
    by (auto simp: p numeral_2_eq_2 split: if_splits)
  moreover have "memcmp (drop 1 path) [58, 47, 0] 2 \<noteq> None"
    by (auto simp: p numeral_2_eq_2)
  ultimately show ?thesis
    using True n c by (auto simp: pathpraser_path_vaild_format_def strnlen_eq path_format_ok_def kconfig p
        numeral_2_eq_2)
next
  case False
  with c show ?thesis by (auto simp: pathpraser_path_vaild_format_def strnlen_eq path_format_ok_def)
qed

lemma digit_nonneg: "isdigit c \<Longrightarrow> 0 \<le> tonumericdigit c"
  by (simp add: isdigit_def tonumericdigit_def)

lemma drive_of_path:
  assumes "is_cstr path"
  shows "pathparser_get_drive_by_path path =
    Inr (if path_format_ok (cstr path) then (tonumericdigit (cstr path ! 0), drop 3 path) else (- EBADPATH, path))"
proof (cases "path_format_ok (cstr path)")
  case True
  then have "0 < length (cstr path)" by (auto simp: path_format_ok_def)
  from nth_cstr [OF this] True show ?thesis
    by (simp add: pathparser_get_drive_by_path_def path_format_eq [OF assms])
qed (simp add: pathparser_get_drive_by_path_def path_format_eq [OF assms])

lemma ERROR_EINVAGS: "IS_ERROR (ERROR (- EINVAGS))" "ERROR_I (ERROR (- EINVAGS)) = - EINVAGS"
  "ERROR (- EINVAGS) \<noteq> 0"
proof -
  show e: "ERROR_I (ERROR (- EINVAGS)) = - EINVAGS" by (rule ERROR_I_ERROR) (simp_all add: kconfig)
  then show "IS_ERROR (ERROR (- EINVAGS))" by (simp add: IS_ERROR_def kconfig)
  show "ERROR (- EINVAGS) \<noteq> 0" using e by (auto simp: ERROR_I_def kconfig)
qed

text \<open>The two ways \<open>pathparser_parse\<close> can end: with an error code and the heap as it was, or with the
  path's meaning in freshly allocated nodes.\<close>

definition parse_failed :: "'a kstate_scheme \<Rightarrow> int \<Rightarrow> (u32 \<times> path_root \<times> 'a kstate_scheme) kresult \<Rightarrow> bool" where
  "parse_failed ks e r \<longleftrightarrow>
     (\<exists>root ks'. r = Inr (ERROR e, root, ks') \<and> kernel_heap ks' = kernel_heap ks)"

definition parse_done :: "'a kstate_scheme \<Rightarrow> u8 list \<Rightarrow> (u32 \<times> path_root \<times> 'a kstate_scheme) kresult \<Rightarrow> bool" where
  "parse_done ks s r \<longleftrightarrow>
     (\<exists>ptr root ks'. r = Inr (ptr, root, ks') \<and> ptr \<noteq> 0 \<and> \<not> IS_ERROR ptr \<and>
        path_meaning s = Some (drive_no root, map part (first root)) \<and>
        heap_grows (kernel_heap ks) (ptr # part_addrs (first root)) (kernel_heap ks') \<and> kheap_ok ks' \<and>
        heap_used (kernel_heap ks') = heap_used (kernel_heap ks) + 2 * length (first root) + 1)"

lemma pathparser_parse_start:
  assumes c: "is_cstr path" and len: "length (cstr path) \<le> KERNEL_MAX_PATH" and fmt: "path_format_ok (cstr path)"
    and a: "kzalloc ks 8 = (ptr, ks1)" and p0: "ptr \<noteq> 0" and ne: "\<not> IS_ERROR ptr"
    and root: "root = \<lparr>pr_addr = ptr, drive_no = tonumericdigit (cstr path ! 0), first = []\<rparr>"
  shows "pathparser_parse ks path =
    kbind (pathparser_parse_path_part ks1 (drop 3 path)) (\<lambda>(p, pt, tmp, ks2).
      if IS_ERROR p \<or> p = 0
      then Inr (ERROR (if IS_ERROR p then ERROR_I p else - EINVAGS), root, pathparser_free ks2 ptr root)
      else kbind (pathparser_parse_loop ks2 tmp [pt]) (\<lambda>(ret, parts, ks3).
        if ret < 0
        then Inr (ERROR ret, root\<lparr>first := parts\<rparr>, pathparser_free ks3 ptr (root\<lparr>first := parts\<rparr>))
        else Inr (ptr, root\<lparr>first := parts\<rparr>, ks3)))"
proof -
  have d0: "\<not> tonumericdigit (cstr path ! 0) < 0"
    using fmt digit_nonneg by (force simp: path_format_ok_def)
  have neg: "- EINVAGS < 0" by (simp add: kconfig)
  note unfold = pathparser_parse_def pathparser_create_root_def drive_of_path [OF c] root strlen_eq Let_def
  show ?thesis
  proof (cases "pathparser_parse_path_part ks1 (drop 3 path)")
    case (Inl e)
    then show ?thesis using d0 len fmt a p0 ne c by (simp add: unfold)
  next
    case (Inr r)
    obtain p pt tmp ks2 where r: "r = (p, pt, tmp, ks2)" by (metis prod_cases4)
    show ?thesis
      using d0 len fmt a p0 ne c neg Inr r
      by (cases "pathparser_parse_loop ks2 tmp [pt]") (auto simp: unfold IS_ERROR_def)
  qed
qed

text \<open>Once the root is allocated, either everything is freed again or the parts are there.\<close>

lemma pathparser_parse_rest:
  assumes ok: "kheap_ok ks" and c: "is_cstr path" and len: "length (cstr path) \<le> KERNEL_MAX_PATH"
    and fmt: "path_format_ok (cstr path)" and a: "kzalloc ks 8 = (ptr, ks1)" and p0: "ptr \<noteq> 0"
    and some: "path_piece (drop 3 path) \<noteq> []" "p \<noteq> 0" "\<not> IS_ERROR p" "kheap_ok ks2"
      "heap_grows (kernel_heap ks1) [p, q] (kernel_heap ks2)" "heap_used (kernel_heap ks2) = heap_used (kernel_heap ks1) + 2"
      "pathparser_parse_path_part ks1 (drop 3 path) =
         Inr (p, \<lparr>pp_addr = p, part_addr = q, part = path_piece (drop 3 path)\<rparr>, path_rest (drop 3 path), ks2)"
  shows "(25600 \<le> heap_used (kernel_heap ks2) + 2 * length (path_parts (drop 3 (cstr path))) \<and>
     parse_failed ks (- ENOMEM) (pathparser_parse ks path)) \<or>
    parse_done ks (cstr path) (pathparser_parse ks path)"
proof -
  let ?rest = "drop 3 path" and ?pt = "\<lparr>pp_addr = p, part_addr = q, part = path_piece (drop 3 path)\<rparr>"
  let ?root = "\<lparr>pr_addr = ptr, drive_no = tonumericdigit (cstr path ! 0), first = []\<rparr>"
  have l3: "3 \<le> length (cstr path)" using fmt by (simp add: path_format_ok_def)
  have rc: "is_cstr ?rest" "cstr ?rest = drop 3 (cstr path)"
    using is_cstr_drop [OF c l3] drop_cstr [OF l3] by auto
  note s = kzalloc_small [OF ok blocks_small(2) a]
  then have ne: "\<not> IS_ERROR ptr" and g1: "heap_grows (kernel_heap ks) [ptr] (kernel_heap ks1)" using p0 by auto
  have "length (cstr (path_rest ?rest)) < KERNEL_MAX_PATH"
    using len rc(2) path_rest_cstr(2) [OF rc(1)] by (auto simp: kconfig)
  from pathparser_parse_loop_ok [OF some(4) path_rest_cstr(1) [OF rc(1)] this, of "[?pt]"]
  obtain ret pts ks3 where lp: "pathparser_parse_loop ks2 (path_rest ?rest) [?pt] = Inr (ret, ?pt # pts, ks3)"
    "heap_grows (kernel_heap ks2) (part_addrs pts) (kernel_heap ks3)" "kheap_ok ks3"
    "heap_used (kernel_heap ks3) = heap_used (kernel_heap ks2) + 2 * length pts"
    "ret = 0 \<and> map part pts = path_parts (cstr (path_rest ?rest)) \<or>
     ret = - ENOMEM \<and> 25600 \<le> heap_used (kernel_heap ks2) + 2 * length (path_parts (cstr (path_rest ?rest))) + 1"
    by auto
  have g2: "heap_grows (kernel_heap ks) (part_addrs pts @ [p, q] @ [ptr]) (kernel_heap ks3)"
    using heap_grows_trans [OF heap_grows_trans [OF g1 some(5)] lp(2)] by simp
  have g: "heap_grows (kernel_heap ks) (ptr # part_addrs (?pt # pts)) (kernel_heap ks3)"
    by (rule heap_grows_set [OF g2]) (use g2 in \<open>auto simp: heap_grows_def\<close>)
  have parts: "path_parts (drop 3 (cstr path)) = path_piece ?rest # path_parts (cstr (path_rest ?rest))"
    using path_parts_step [OF rc(1)] rc(2) some(1) by simp
  have parse: "pathparser_parse ks path =
      (if ret < 0 then Inr (ERROR ret, ?root\<lparr>first := ?pt # pts\<rparr>, pathparser_free ks3 ptr (?root\<lparr>first := ?pt # pts\<rparr>))
       else Inr (ptr, ?root\<lparr>first := ?pt # pts\<rparr>, ks3))"
    unfolding pathparser_parse_start [OF c len fmt a p0 ne refl] using some lp(1) by simp
  have "kernel_heap (pathparser_free ks3 ptr (?root\<lparr>first := ?pt # pts\<rparr>)) = kernel_heap ks"
    by (rule pathparser_free_restores) (use g p0 in simp_all)
  with lp(3-) g parts parse len fmt p0 ne some(6) s show ?thesis
    by (auto simp: parse_failed_def parse_done_def path_meaning_def) (simp_all add: kconfig)
qed

lemma pathparser_parse_cases:
  assumes ok: "kheap_ok ks" and c: "is_cstr path"
  shows "(path_meaning (cstr path) = None \<and> parse_failed ks (- EINVAGS) (pathparser_parse ks path)) \<or>
    (25600 \<le> heap_used (kernel_heap ks) + 2 * length (path_parts (drop 3 (cstr path))) + 3 \<and>
     parse_failed ks (- ENOMEM) (pathparser_parse ks path)) \<or>
    parse_done ks (cstr path) (pathparser_parse ks path)"
proof (cases "length (cstr path) \<le> KERNEL_MAX_PATH \<and> path_format_ok (cstr path)")
  case False
  then have "path_meaning (cstr path) = None" by (auto simp: path_meaning_def)
  moreover have "parse_failed ks (- EINVAGS) (pathparser_parse ks path)"
    using False c by (auto simp: pathparser_parse_def strlen_eq drive_of_path [OF c] parse_failed_def
        kconfig Let_def)
  ultimately show ?thesis by blast
next
  case True
  then have fmt: "path_format_ok (cstr path)" and len: "length (cstr path) \<le> KERNEL_MAX_PATH"
    and l3: "3 \<le> length (cstr path)" by (auto simp: path_format_ok_def)
  let ?rest = "drop 3 path"
  have rc: "is_cstr ?rest" "cstr ?rest = drop 3 (cstr path)"
    using is_cstr_drop [OF c l3] drop_cstr [OF l3] by auto
  have rlen: "length (path_piece ?rest) < KERNEL_MAX_PATH"
    using length_piece [of ?rest] rc(2) len by (auto simp: kconfig)
  obtain ptr ks1 where a: "kzalloc ks 8 = (ptr, ks1)" by fastforce
  note s = kzalloc_small [OF ok blocks_small(2) a]
  show ?thesis
  proof (cases "ptr = 0")
    case p0: True
    have "\<not> tonumericdigit (cstr path ! 0) < 0" using fmt digit_nonneg by (force simp: path_format_ok_def)
    then have "parse_failed ks (- ENOMEM) (pathparser_parse ks path)"
      using p0 len fmt a s c ERROR_ENOMEM(1,2)
      by (simp add: pathparser_parse_def strlen_eq drive_of_path [OF c] pathparser_create_root_def
          parse_failed_def Let_def IS_ERROR_def)
    with p0 s show ?thesis by simp
  next
    case p0: False
    then have ok1: "kheap_ok ks1" and ne: "\<not> IS_ERROR ptr"
      and g1: "heap_grows (kernel_heap ks) [ptr] (kernel_heap ks1)" using s by auto
    note start = pathparser_parse_start [OF c len fmt a p0 ne refl]
    have free: "kernel_heap (pathparser_free ks2 ptr \<lparr>pr_addr = ptr, drive_no = d, first = []\<rparr>) = kernel_heap ks"
      if "kernel_heap ks2 = kernel_heap ks1" for d and ks2 :: "'a kstate_scheme"
      using pathparser_free_restores [of "kernel_heap ks" ptr _ ks2] g1 p0 that by simp
    show ?thesis
    proof (cases rule: pathparser_parse_path_part_cases [OF ok1 rc(1) rlen])
      case (1 pt path' ks2)
      with s p0 start free ERROR_ENOMEM show ?thesis by (auto simp: parse_failed_def)
    next
      case (2 pt ks2)
      then have "path_meaning (cstr path) = None"
        using path_parts_step [OF rc(1)] rc(2) by (simp add: path_meaning_def)
      with 2 start free show ?thesis by (auto simp: parse_failed_def IS_ERROR_def ERROR_I_def)
    next
      case (3 p q ks2)
      from pathparser_parse_rest [OF ok c len fmt a p0 3] 3(6) s p0 show ?thesis by auto
    qed
  qed
qed

subsection \<open>Splitting and joining\<close>

lemma takeWhile_all: "\<forall>x \<in> set s. P x \<Longrightarrow> takeWhile P s = s"
  by (simp add: takeWhile_eq_all_conv)

lemma split_path_append: "split_path (s @ SLASH # t) = split_path s @ split_path t"
proof (induction s rule: split_path.induct)
  case (1 s)
  let ?P = "\<lambda>c. c \<noteq> SLASH"
  show ?case
  proof (cases "dropWhile ?P s")
    case Nil
    then have "\<forall>x \<in> set s. ?P x" by simp
    then show ?thesis
      using Nil by (simp add: takeWhile_append takeWhile_all split_path.simps [of "s @ SLASH # t"] split_path.simps [of s] Let_def)
  next
    case (Cons x r)
    then have "SLASH \<in> set s" using tl_dropWhile_none [of s] by auto
    then have d: "dropWhile ?P (s @ SLASH # t) = x # r @ SLASH # t" "takeWhile ?P (s @ SLASH # t) = takeWhile ?P s"
      using Cons by (auto simp: dropWhile_append1 takeWhile_append1)
    show ?thesis
      unfolding split_path.simps [of "s @ SLASH # t"] split_path.simps [of s] d
      using Cons 1 [OF refl refl] by (simp add: Let_def)
  qed
qed

lemma split_path_piece: "SLASH \<notin> set p \<Longrightarrow> split_path p = [p]"
  by (subst split_path.simps) (auto simp: Let_def tl_dropWhile_none takeWhile_eq_all_conv)

fun join_path :: "u8 list list \<Rightarrow> u8 list" where
  "join_path [] = []"
| "join_path [p] = p"
| "join_path (p # q # ps) = p @ SLASH # join_path (q # ps)"

lemma split_join: "ps \<noteq> [] \<Longrightarrow> \<forall>p \<in> set ps. SLASH \<notin> set p \<Longrightarrow> split_path (join_path ps) = ps"
  by (induction ps rule: join_path.induct) (auto simp: split_path_append split_path_piece)

text \<open>A path written out for a drive and its parts.\<close>

definition print_path :: "nat \<Rightarrow> u8 list list \<Rightarrow> u8 list" where
  "print_path d ps = of_nat (48 + d) # 58 # SLASH # join_path ps"

lemma sint_digit: "d < 10 \<Longrightarrow> sint (of_nat (48 + d) :: u8) = 48 + int d"
proof -
  assume "d < 10"
  then have "d \<in> {0, 1, 2, 3, 4, 5, 6, 7, 8, 9}" by auto
  then consider "d = 0" | "d = 1" | "d = 2" | "d = 3" | "d = 4" | "d = 5" | "d = 6" | "d = 7" | "d = 8" | "d = 9"
    by blast
  then show ?thesis by cases simp_all
qed

lemma path_meaning_print:
  assumes "d < 10" "ps \<noteq> []" "\<forall>p \<in> set ps. p \<noteq> [] \<and> SLASH \<notin> set p"
    "length (print_path d ps) \<le> KERNEL_MAX_PATH"
  shows "path_meaning (print_path d ps) = Some (int d, ps)"
proof -
  have "path_parts (join_path ps) = ps"
    using assms(2,3) by (simp add: path_parts_def split_join takeWhile_eq_all_conv)
  moreover have "path_format_ok (print_path d ps)"
    using sint_digit [OF assms(1)] assms(1)
    by (simp add: path_format_ok_def print_path_def isdigit_def numeral_2_eq_2)
  ultimately show ?thesis
    using assms(2,4) sint_digit [OF assms(1)]
    by (simp add: path_meaning_def print_path_def tonumericdigit_def numeral_3_eq_3)
qed

lemma set_join_path: "c \<in> set (join_path ps) \<Longrightarrow> c = SLASH \<or> (\<exists>p \<in> set ps. c \<in> set p)"
  by (induction ps rule: join_path.induct) auto

lemma print_path_nonzero:
  assumes "d < 10" "\<forall>p \<in> set ps. 0 \<notin> set p"
  shows "0 \<notin> set (print_path d ps)"
proof -
  have "of_nat (48 + d) \<noteq> (0 :: u8)" using sint_digit [OF assms(1)] by auto
  with assms(2) show ?thesis
    by (auto simp: print_path_def kconfig dest: set_join_path)
qed

subsection \<open>Properties\<close>

text \<open>C10: Parsing never reads past the terminator or writes past a part's buffer, and never leaks:
  for every terminated path, \<open>pathparser_parse\<close> returns; either the result is an error code
  and the heap is as it was, or it is a path root, and \<open>pathparser_free\<close> then restores the
  heap.\<close>

theorem pathparser_parse_no_leak:
  assumes "kheap_ok ks" and "is_cstr path"
  shows "\<exists>ptr root ks'. pathparser_parse ks path = Inr (ptr, root, ks') \<and>
    (if IS_ERROR ptr then kernel_heap ks' = kernel_heap ks
     else ptr \<noteq> 0 \<and> kernel_heap (pathparser_free ks' ptr root) = kernel_heap ks)"
proof -
  consider (failed) e where "parse_failed ks e (pathparser_parse ks path)" "IS_ERROR (ERROR e)"
    | (ok) "parse_done ks (cstr path) (pathparser_parse ks path)"
    using pathparser_parse_cases [OF assms] ERROR_EINVAGS(1) ERROR_ENOMEM(1) by blast
  then show ?thesis
  proof cases
    case failed
    then show ?thesis by (auto simp: parse_failed_def)
  next
    case ok
    then obtain ptr root ks' where r: "pathparser_parse ks path = Inr (ptr, root, ks')" "ptr \<noteq> 0" "\<not> IS_ERROR ptr"
      "heap_grows (kernel_heap ks) (ptr # part_addrs (first root)) (kernel_heap ks')"
      by (auto simp: parse_done_def)
    with pathparser_free_restores [OF r(4,2)] show ?thesis by simp
  qed
qed

definition sample_path :: "u8 list" where
  "sample_path = print_path 0 [[0x62, 0x69, 0x6E], [0x73, 0x68]] @ [0]"

lemma sample_path_cstr: "is_cstr sample_path" "cstr sample_path = print_path 0 [[0x62, 0x69, 0x6E], [0x73, 0x68]]"
  by (simp_all add: sample_path_def print_path_def kconfig)

theorem pathparser_parse_no_leak_witness:
  "\<exists>ptr root ks'. pathparser_parse boot_kstate sample_path = Inr (ptr, root, ks') \<and>
    (if IS_ERROR ptr then kernel_heap ks' = kernel_heap boot_kstate
     else ptr \<noteq> 0 \<and> kernel_heap (pathparser_free ks' ptr root) = kernel_heap boot_kstate)"
  by (rule pathparser_parse_no_leak [OF boot_kstate_ok(1) sample_path_cstr(1)])

text \<open>C11: What parsing means, with memory to spare: a path is refused with \<open>-EINVAGS\<close> exactly when it is
  longer than 108 characters, does not start with a digit, a colon and a slash, or has an
  empty first part; otherwise the root holds the drive digit and the pieces between slashes up
  to the first empty piece.\<close>

theorem pathparser_parse_meaning:
  assumes "kheap_ok ks" and "is_cstr path"
    and "heap_used (kernel_heap ks) + 2 * length (path_parts (drop 3 (cstr path))) + 3 < 25600"
  shows "\<exists>ptr root ks'. pathparser_parse ks path = Inr (ptr, root, ks') \<and>
    (case path_meaning (cstr path) of
       None \<Rightarrow> ptr = ERROR (- EINVAGS)
     | Some (d, ps) \<Rightarrow> \<not> IS_ERROR ptr \<and> drive_no root = d \<and> map part (first root) = ps)"
  using pathparser_parse_cases [OF assms(1,2)] assms(3)
  unfolding parse_failed_def parse_done_def by fastforce

lemma sample_path_parts: "path_parts (drop 3 (cstr sample_path)) = [[0x62, 0x69, 0x6E], [0x73, 0x68]]"
  using path_meaning_print [of 0 "[[0x62, 0x69, 0x6E], [0x73, 0x68]]"]
  unfolding sample_path_cstr by (simp add: path_meaning_def print_path_def kconfig split: if_splits)

theorem pathparser_parse_meaning_witness:
  "\<exists>ptr root ks'. pathparser_parse boot_kstate sample_path = Inr (ptr, root, ks') \<and>
    (case path_meaning (cstr sample_path) of
       None \<Rightarrow> ptr = ERROR (- EINVAGS)
     | Some (d, ps) \<Rightarrow> \<not> IS_ERROR ptr \<and> drive_no root = d \<and> map part (first root) = ps)"
  by (rule pathparser_parse_meaning [OF boot_kstate_ok(1) sample_path_cstr(1)])
    (simp add: sample_path_parts boot_used)

text \<open>C12: Parsing undoes printing: for a drive digit and non-empty parts without slashes or zero bytes,
  parsing the path \<open>d:/p1/.../pn\<close> (of at most 108 characters) gives back that drive and
  those parts.\<close>

theorem pathparser_roundtrip:
  assumes "kheap_ok ks" and "heap_used (kernel_heap ks) + 2 * length ps + 3 < 25600"
    and "d < 10" and "ps \<noteq> []" and "\<forall>p \<in> set ps. p \<noteq> [] \<and> SLASH \<notin> set p \<and> 0 \<notin> set p"
    and "length (print_path d ps) \<le> 108"
  shows "\<exists>ptr root ks'. pathparser_parse ks (print_path d ps @ 0 # junk) = Inr (ptr, root, ks') \<and>
    \<not> IS_ERROR ptr \<and> drive_no root = int d \<and> map part (first root) = ps"
proof -
  have m: "path_meaning (print_path d ps) = Some (int d, ps)"
    by (rule path_meaning_print) (use assms(3-6) in \<open>auto simp: kconfig\<close>)
  then have parts: "path_parts (drop 3 (print_path d ps)) = ps"
    by (simp add: path_meaning_def split: if_splits)
  have nz: "0 \<notin> set (print_path d ps)" by (rule print_path_nonzero) (use assms in auto)
  then have c: "cstr (print_path d ps @ 0 # junk) = print_path d ps" by (rule cstr_append)
  from pathparser_parse_cases [OF assms(1) is_cstr_append, of "print_path d ps" junk] m assms(2)
  show ?thesis
    unfolding c parts parse_failed_def parse_done_def by fastforce
qed

theorem pathparser_roundtrip_witness:
  "\<exists>ptr root ks'. pathparser_parse boot_kstate (print_path 0 [[0x62, 0x69, 0x6E], [0x73, 0x68]] @ 0 # []) =
      Inr (ptr, root, ks') \<and>
    \<not> IS_ERROR ptr \<and> drive_no root = int 0 \<and> map part (first root) = [[0x62, 0x69, 0x6E], [0x73, 0x68]]"
  by (rule pathparser_roundtrip [OF boot_kstate_ok(1)]) (simp_all add: boot_used kconfig print_path_def)

text \<open>C16: An empty part ends the path: everything after a double slash is ignored, so \<open>0:/a//b\<close> and
  \<open>0:/a\<close> have the same parts.\<close>

theorem pathparser_empty_part_truncates:
  assumes "kheap_ok ks" and "0 \<notin> set s" and "0 \<notin> set t"
    and "pathparser_parse ks (print_path d [s] @ SLASH # SLASH # t @ [0]) = Inr (ptr, root, ks')"
    and "\<not> IS_ERROR ptr" and "d < 10"
  shows "map part (first root) = path_parts s"
proof -
  let ?p = "print_path d [s] @ SLASH # SLASH # t"
  have nz: "0 \<notin> set ?p" using print_path_nonzero [OF assms(6), of "[s]"] assms(2,3) by (auto simp: kconfig)
  then have c: "is_cstr (?p @ 0 # [])" "cstr (?p @ 0 # []) = ?p" using is_cstr_append [of ?p "[]"] cstr_append [of ?p "[]"] by blast+
  from pathparser_parse_cases [OF assms(1) c(1)] assms(4,5) ERROR_EINVAGS(1) ERROR_ENOMEM(1)
  have "path_meaning ?p = Some (drive_no root, map part (first root))"
    unfolding c(2) by (auto simp: parse_failed_def parse_done_def)
  then have "map part (first root) = path_parts (drop 3 ?p)" by (simp add: path_meaning_def split: if_splits)
  also have "drop 3 ?p = s @ SLASH # SLASH # t" by (simp add: print_path_def numeral_3_eq_3)
  also have "path_parts \<dots> = path_parts s"
    using split_path_append [of "[]" t] split_path_append [of s "SLASH # t"]
    by (simp add: path_parts_def split_path_piece takeWhile_append takeWhile_all)
  finally show ?thesis .
qed

theorem pathparser_empty_part_truncates_witness:
  "\<exists>ptr root ks'. pathparser_parse boot_kstate (print_path 0 [[0x61]] @ SLASH # SLASH # [0x62] @ [0]) =
     Inr (ptr, root, ks') \<and> map part (first root) = path_parts [0x61]"
proof -
  let ?p = "print_path 0 [[0x61]] @ SLASH # SLASH # [0x62]"
  have c: "is_cstr (?p @ [0])" "cstr (?p @ [0]) = ?p" by (simp_all add: print_path_def kconfig)
  have parts: "path_parts (drop 3 ?p) = [[0x61]]"
    using split_path_append [of "[]" "[0x62]"] split_path_append [of "[0x61]" "[SLASH, 0x62]"]
    by (simp add: path_parts_def print_path_def numeral_3_eq_3 split_path_piece kconfig)
  then have "path_meaning ?p \<noteq> None"
    by (simp add: path_meaning_def path_format_ok_def isdigit_def print_path_def kconfig)
  with pathparser_parse_cases [OF boot_kstate_ok(1) c(1)] parts
  obtain ptr root ks' where r: "pathparser_parse boot_kstate (?p @ [0]) = Inr (ptr, root, ks')" "\<not> IS_ERROR ptr"
    unfolding c(2) by (auto simp: parse_done_def boot_used)
  from r(1) have r': "pathparser_parse boot_kstate (print_path 0 [[0x61]] @ SLASH # SLASH # [0x62] @ [0]) = Inr (ptr, root, ks')"
    by simp
  show ?thesis
    using pathparser_empty_part_truncates [OF boot_kstate_ok(1) _ _ r' r(2)] r' by auto
qed

end
