(* ===== verification/Print.thy ===== *)
theory Print
  imports Paging Kstring
begin

unbundle bit_operations_syntax

section \<open>The terminal: lib/print.c\<close>

text \<open>
  The terminal writes 16-bit cells (colour and character) into video memory, which is physical memory
  from 0xB8000 on, and keeps a cursor of two 16-bit counters. \<open>termst\<close> adds the three globals to the
  kernel state. A string argument is the byte list from the pointer on. \<open>panic\<close> prints and spins:
  it is the fault \<open>Panic\<close>.

  The lemmas refine the terminal to an unbounded screen with one cursor, and show that number
  formatting is right whenever the buffer has room.
\<close>

record termst = pgstate +
  vedio_mem :: u32
  terminal_row :: u16
  terminal_col :: u16

definition KERNEL_CPU_BITS :: nat where [kconfig]: "KERNEL_CPU_BITS = 32"
definition DEFAULT_STRING_SIZE :: nat where [kconfig]: "DEFAULT_STRING_SIZE = KERNEL_CPU_BITS + 1"

definition num_char_set :: "u8 list" where
  "num_char_set = [48, 49, 50, 51, 52, 53, 54, 55, 56, 57, 65, 66, 67, 68, 69, 70, 0]"

subsection \<open>Cells and the cursor\<close>

definition load16 :: "mem \<Rightarrow> u32 \<Rightarrow> u16" where
  "load16 m a = ucast (m a) OR push_bit 8 (ucast (m (a + 1)))"

definition store16 :: "mem \<Rightarrow> u32 \<Rightarrow> u16 \<Rightarrow> mem" where
  "store16 m a v = m(a := ucast v, a + 1 := ucast (drop_bit 8 v))"

text \<open>\<open>char\<close> is signed: a character from 0x80 on is extended into the colour byte.\<close>

definition terminal_make_char :: "u8 \<Rightarrow> u8 \<Rightarrow> u16" where
  "terminal_make_char c color = push_bit 8 (scast color) OR scast c"

definition terminal_put_char :: "'a termst_scheme \<Rightarrow> int \<Rightarrow> int \<Rightarrow> u8 \<Rightarrow> u8 \<Rightarrow> 'a termst_scheme" where
  "terminal_put_char st x y c color =
     st\<lparr>kmem := store16 (kmem st) (vedio_mem st + 2 * word_of_int (y * int VGA_WIDTH + x)) (terminal_make_char c color)\<rparr>"

definition terminal_backspace :: "'a termst_scheme \<Rightarrow> 'a termst_scheme" where
  "terminal_backspace st =
     (if terminal_col st = 0 \<and> terminal_row st = 0 then st
      else let st1 = (if terminal_col st = 0
                      then st\<lparr>terminal_row := terminal_row st - 1, terminal_col := of_nat (VGA_WIDTH - 1)\<rparr>
                      else st\<lparr>terminal_col := terminal_col st - 1\<rparr>)
           in terminal_put_char st1 (uint (terminal_col st1)) (uint (terminal_row st1)) 32 15)"

definition terminal_write_char :: "'a termst_scheme \<Rightarrow> u8 \<Rightarrow> u8 \<Rightarrow> 'a termst_scheme" where
  "terminal_write_char st c color =
     (if c = 10 then st\<lparr>terminal_row := terminal_row st + 1, terminal_col := 0\<rparr>
      else if c = 0x08 then terminal_backspace st
      else let st1 = terminal_put_char st (uint (terminal_col st)) (uint (terminal_row st)) c color;
               st2 = st1\<lparr>terminal_col := terminal_col st1 + 1\<rparr>
           in if terminal_col st2 = of_nat VGA_WIDTH
              then st2\<lparr>terminal_row := terminal_row st2 + 1, terminal_col := 0\<rparr> else st2)"

definition terminal_initialize :: "'a termst_scheme \<Rightarrow> 'a termst_scheme" where
  "terminal_initialize st =
     fold (\<lambda>i st. fold (\<lambda>j st. terminal_put_char st (int j) (int i) 32 0) [0 ..< VGA_WIDTH] st) [0 ..< VGA_HEIGHT]
       (st\<lparr>vedio_mem := 0xB8000\<rparr>)"

definition terminal_print :: "'a termst_scheme \<Rightarrow> u8 list \<Rightarrow> 'a termst_scheme kresult" where
  "terminal_print st str =
     (case strlen str of
        None \<Rightarrow> Inl OutOfBounds
      | Some len \<Rightarrow> Inr (fold (\<lambda>c st. terminal_write_char st c 15) (take len str) st))"

definition terminal_print_endl :: "'a termst_scheme \<Rightarrow> u8 list \<Rightarrow> 'a termst_scheme kresult" where
  "terminal_print_endl st str = kbind (terminal_print st str) (\<lambda>st1. terminal_print st1 [10, 0])"

definition terminal_print_char :: "'a termst_scheme \<Rightarrow> u8 \<Rightarrow> 'a termst_scheme" where
  "terminal_print_char st c = terminal_write_char st c 15"

definition printk :: "'a termst_scheme \<Rightarrow> u8 list \<Rightarrow> 'a termst_scheme kresult" where
  "printk st str = terminal_print st str"

subsection \<open>Numbers\<close>

text \<open>The digit loop of \<open>__ulong_to_string\<close> on its buffer and index; it also tells whether it stopped for
  want of room (and then the digits are not reversed).\<close>

function ulong_digits :: "u32 \<Rightarrow> u8 list \<Rightarrow> nat \<Rightarrow> u32 \<Rightarrow> u32 \<Rightarrow> (u8 list \<times> nat \<times> bool) kresult" where
  "ulong_digits num str index sz base =
     (if num > 0 then
        if base = 0 then Inl (Panic ''divide error'')
        else let val = num mod base in
          if index \<ge> length str \<or> unat val \<ge> length num_char_set then Inl OutOfBounds
          else let str' = str[index := num_char_set ! unat val] in
            if of_nat (Suc index) = sz - 1 then Inr (str', Suc index, True)
            else ulong_digits (num div base) str' (Suc index) sz base
      else Inr (str, index, False))"
  by pat_completeness auto
termination
  by (relation "measure (\<lambda>(num, str, index, sz, base). length str - index)") auto

declare ulong_digits.simps [simp del]

text \<open>The reversal loop.\<close>

function reverse_loop :: "u8 list \<Rightarrow> int \<Rightarrow> int \<Rightarrow> u8 list" where
  "reverse_loop str i j =
     (if i < j then reverse_loop (str[nat i := str ! nat j, nat j := str ! nat i]) (i + 1) (j - 1) else str)"
  by pat_completeness auto
termination
  by (relation "measure (\<lambda>(str, i, j). nat (j - i))") auto

declare reverse_loop.simps [simp del]

definition ulong_to_string_base :: "u32 \<Rightarrow> u8 list \<Rightarrow> u32 \<Rightarrow> u32 \<Rightarrow> u8 list kresult" where
  "ulong_to_string_base num str sz base =
     (let out = (\<lambda>str index. if index < length str then Inr (str[index := 0]) else Inl OutOfBounds) in
      if sz = 0 then out str 0
      else if num = 0 then (if str = [] then Inl OutOfBounds else out (str[0 := 48]) 1)
      else kbind (ulong_digits num str 0 sz base) (\<lambda>(str1, index, cut).
        if cut then out str1 index else out (reverse_loop str1 0 (int index - 1)) index))"

definition ulong_to_string :: "u32 \<Rightarrow> u8 list \<Rightarrow> u32 \<Rightarrow> u8 list kresult" where
  "ulong_to_string num str sz = ulong_to_string_base num str sz 10"

definition ulong_to_hex_string :: "u32 \<Rightarrow> u8 list \<Rightarrow> u32 \<Rightarrow> u8 list kresult" where
  "ulong_to_hex_string num str sz = ulong_to_string_base num str sz 16"

text \<open>The buffers of these three are uninitialised stack arrays: their contents are an argument.\<close>

definition terminal_print_num_without_endl :: "'a termst_scheme \<Rightarrow> u8 list \<Rightarrow> u32 \<Rightarrow> 'a termst_scheme kresult" where
  "terminal_print_num_without_endl st str num =
     kbind (ulong_to_string num str (of_nat DEFAULT_STRING_SIZE)) (terminal_print st)"

definition terminal_print_num :: "'a termst_scheme \<Rightarrow> u8 list \<Rightarrow> u32 \<Rightarrow> 'a termst_scheme kresult" where
  "terminal_print_num st str num =
     kbind (terminal_print_num_without_endl st str num) (\<lambda>st1. terminal_print st1 [10, 0])"

definition terminal_print_hex :: "'a termst_scheme \<Rightarrow> u8 list \<Rightarrow> u32 \<Rightarrow> 'a termst_scheme kresult" where
  "terminal_print_hex st hex_str num =
     kbind (ulong_to_hex_string num hex_str (of_nat DEFAULT_STRING_SIZE)) (\<lambda>hex.
     kbind (terminal_print st [48, 120, 0]) (\<lambda>st1.
     kbind (terminal_print st1 hex) (\<lambda>st2. terminal_print st2 [10, 0])))"

subsection \<open>The screen the terminal implements\<close>

text \<open>An abstract screen: one cursor that counts cells row by row, and the cells. A newline moves to the next
  multiple of the width, a backspace blanks the cell before the cursor, everything else is written
  at the cursor.\<close>

record screen =
  cursor :: nat
  cells :: "nat \<Rightarrow> u16"

definition screen_write :: "u8 \<Rightarrow> screen \<Rightarrow> screen" where
  "screen_write c s =
     (if c = 10 then s\<lparr>cursor := (cursor s div VGA_WIDTH + 1) * VGA_WIDTH\<rparr>
      else if c = 8 then
        if cursor s = 0 then s
        else s\<lparr>cursor := cursor s - 1, cells := (cells s)(cursor s - 1 := terminal_make_char 32 15)\<rparr>
      else s\<lparr>cursor := cursor s + 1, cells := (cells s)(cursor s := terminal_make_char c 15)\<rparr>)"

definition cell :: "mem \<Rightarrow> nat \<Rightarrow> u16" where
  "cell m k = load16 m (0xB8000 + of_nat (2 * k))"

text \<open>The cells the two 16-bit counters can address.\<close>

definition screen_cells :: "mem \<Rightarrow> nat \<Rightarrow> u16" where
  "screen_cells m = (\<lambda>k. if k < 65536 * VGA_WIDTH then cell m k else 0)"

definition screen_of :: "'a termst_scheme \<Rightarrow> screen" where
  "screen_of st = \<lparr>cursor = unat (terminal_row st) * VGA_WIDTH + unat (terminal_col st),
     cells = screen_cells (kmem st)\<rparr>"

definition term_ok :: "'a termst_scheme \<Rightarrow> bool" where
  "term_ok st \<longleftrightarrow> vedio_mem st = 0xB8000 \<and> unat (terminal_col st) < VGA_WIDTH"

lemma load16_store16 [simp]: "load16 (store16 m a v) a = v"
proof -
  have "ucast (ucast v :: u8) OR push_bit 8 (ucast (ucast (drop_bit 8 v) :: u8)) = v"
    by (rule bit_word_eqI) (auto simp: bit_simps)
  then show ?thesis by (simp add: load16_def store16_def)
qed

lemma unat_cell_address:
  assumes "k < 65536 * 80" "j < 2"
  shows "unat (0xB8000 + of_nat (2 * k) + of_nat j :: u32) = 753664 + 2 * k + j"
proof -
  have "0xB8000 + of_nat (2 * k) + of_nat j = (of_nat (753664 + 2 * k + j) :: u32)" by simp
  moreover have "unat (of_nat (753664 + 2 * k + j) :: u32) = 753664 + 2 * k + j"
    by (rule unat_of_nat_u32) (use assms in simp)
  ultimately show ?thesis by (simp only:)
qed

lemma cell_address_neq:
  assumes "k < 65536 * 80" "p < 65536 * 80" "k \<noteq> p" "i < 2" "j < 2"
  shows "0xB8000 + of_nat (2 * k) + of_nat i \<noteq> (0xB8000 + of_nat (2 * p) + of_nat j :: u32)"
proof
  assume "0xB8000 + of_nat (2 * k) + of_nat i = (0xB8000 + of_nat (2 * p) + of_nat j :: u32)"
  then have "unat (0xB8000 + of_nat (2 * k) + of_nat i :: u32) = unat (0xB8000 + of_nat (2 * p) + of_nat j :: u32)"
    by (rule arg_cong)
  then have "753664 + 2 * k + i = 753664 + 2 * p + j"
    using unat_cell_address [OF assms(1,4)] unat_cell_address [OF assms(2,5)] by (simp only:)
  with assms(3-5) show False by linarith
qed

lemma cell_store:
  assumes "k < 65536 * 80" "p < 65536 * 80"
  shows "cell (store16 m (0xB8000 + of_nat (2 * p)) v) k = (if k = p then v else cell m k)"
proof (cases "k = p")
  case False
  note n = cell_address_neq [OF assms False]
  show ?thesis using n [of 0 0] n [of 0 1] n [of 1 0] n [of 1 1] False
    by (simp add: cell_def load16_def store16_def)
qed (simp add: cell_def)

lemma put_char_cells:
  assumes v: "vedio_mem st = 0xB8000" and p: "p < 65536 * 80" and xy: "y * int VGA_WIDTH + x = int p"
  shows "screen_of (terminal_put_char st x y c color) =
    (screen_of st)\<lparr>cells := (cells (screen_of st))(p := terminal_make_char c color)\<rparr>"
proof -
  have "2 * word_of_int (int p) = (of_nat (2 * p) :: u32)" by simp
  then show ?thesis
    using cell_store [OF _ p, of _ "kmem st" "terminal_make_char c color"] v xy p
    by (auto simp: screen_of_def screen_cells_def terminal_put_char_def kconfig fun_eq_iff)
qed

lemma cursor_pos: "term_ok st \<Longrightarrow> cursor (screen_of st) < 65536 * 80"
  using unsigned_less [of "terminal_row st", where 'a = nat] by (simp add: screen_of_def term_ok_def kconfig)

lemma cursor_int: "uint (terminal_row st) * int VGA_WIDTH + uint (terminal_col st) = int (cursor (screen_of st))"
  by (simp add: screen_of_def)

lemma unat_dec16: "x \<noteq> 0 \<Longrightarrow> unat (x - 1 :: u16) = unat x - 1"
  by (metis unat_minus_one)

lemma unat_inc16: "unat x < 65535 \<Longrightarrow> unat (x + 1 :: u16) = unat x + 1"
  by (simp add: unat_word_ariths)

lemma backspace_refines:
  assumes ok: "term_ok st"
  shows "screen_of (terminal_backspace st) = screen_write 8 (screen_of st)" and "term_ok (terminal_backspace st)"
proof -
  let ?st1 = "if terminal_col st = 0
      then st\<lparr>terminal_row := terminal_row st - 1, terminal_col := of_nat (VGA_WIDTH - 1)\<rparr>
      else st\<lparr>terminal_col := terminal_col st - 1\<rparr>"
  let ?p = "cursor (screen_of st) - 1"
  have z: "cursor (screen_of st) = 0 \<longleftrightarrow> terminal_col st = 0 \<and> terminal_row st = 0"
    by (auto simp: screen_of_def kconfig unat_eq_0)
  have nz: "screen_of ?st1 = (screen_of st)\<lparr>cursor := ?p\<rparr> \<and> term_ok ?st1" if "\<not> (terminal_col st = 0 \<and> terminal_row st = 0)"
  proof (cases "terminal_col st = 0")
    case True
    with that have "terminal_row st \<noteq> 0" by simp
    then have "unat (terminal_row st - 1) = unat (terminal_row st) - 1" "0 < unat (terminal_row st)"
      by (simp_all add: unat_dec16 unat_gt_0)
    with True ok show ?thesis
      by (simp add: screen_of_def term_ok_def kconfig diff_mult_distrib)
  next
    case False
    then have "unat (terminal_col st - 1) = unat (terminal_col st) - 1" "0 < unat (terminal_col st)"
      by (simp_all add: unat_dec16 unat_gt_0)
    with False ok show ?thesis by (auto simp: screen_of_def term_ok_def kconfig)
  qed
  have put: "screen_of (terminal_put_char ?st1 (uint (terminal_col ?st1)) (uint (terminal_row ?st1)) 32 15) =
      (screen_of ?st1)\<lparr>cells := (cells (screen_of ?st1))(?p := terminal_make_char 32 15)\<rparr>"
    if "\<not> (terminal_col st = 0 \<and> terminal_row st = 0)"
  proof (rule put_char_cells)
    show "vedio_mem ?st1 = 0xB8000" using ok by (simp add: term_ok_def)
    show "?p < 65536 * 80" using cursor_pos [OF ok] by simp
    show "uint (terminal_row ?st1) * int VGA_WIDTH + uint (terminal_col ?st1) = int ?p"
      using nz [OF that] cursor_int [of ?st1] by simp
  qed
  show "screen_of (terminal_backspace st) = screen_write 8 (screen_of st)"
    using z nz put by (auto simp: terminal_backspace_def screen_write_def Let_def)
  show "term_ok (terminal_backspace st)"
    using nz ok by (auto simp: terminal_backspace_def Let_def terminal_put_char_def term_ok_def)
qed

lemma terminal_write_refines:
  assumes ok: "term_ok st" and room: "cursor (screen_of st) + 80 \<le> 65535 * 80"
  shows "screen_of (terminal_write_char st c 15) = screen_write c (screen_of st)" and "term_ok (terminal_write_char st c 15)"
    and "cursor (screen_write c (screen_of st)) \<le> cursor (screen_of st) + 80"
proof -
  let ?r = "unat (terminal_row st)" and ?c = "unat (terminal_col st)"
  have col: "?c < 80" and row: "?r < 65535" using ok room by (simp_all add: term_ok_def screen_of_def kconfig)
  have inc: "unat (terminal_row st + 1) = ?r + 1" "unat (terminal_col st + 1) = ?c + 1"
    using row col by (simp_all add: unat_inc16)
  have cur: "cursor (screen_of st) = ?r * 80 + ?c" by (simp add: screen_of_def kconfig)
  have dv: "cursor (screen_of st) div 80 = ?r" using col by (simp add: cur)
  let ?st1 = "terminal_put_char st (uint (terminal_col st)) (uint (terminal_row st)) c 15"
  have put: "screen_of ?st1 = (screen_of st)\<lparr>cells := (cells (screen_of st))(cursor (screen_of st) := terminal_make_char c 15)\<rparr>"
    by (rule put_char_cells) (use ok cursor_pos [OF ok] cursor_int [of st] in \<open>simp_all add: term_ok_def\<close>)
  have f1: "terminal_row ?st1 = terminal_row st" "terminal_col ?st1 = terminal_col st" "vedio_mem ?st1 = vedio_mem st"
    by (simp_all add: terminal_put_char_def)
  have full: "terminal_col st + 1 = of_nat VGA_WIDTH \<longleftrightarrow> ?c = 79"
    using inc(2) by (auto simp: kconfig word_unat_eq_iff)
  have cells: "cells (screen_of (?st1\<lparr>terminal_row := r, terminal_col := k\<rparr>)) = cells (screen_of ?st1)" 
    "cells (screen_of (?st1\<lparr>terminal_col := k\<rparr>)) = cells (screen_of ?st1)" for r k
    by (simp_all add: screen_of_def)
  have "screen_of (terminal_write_char st c 15) = screen_write c (screen_of st) \<and> term_ok (terminal_write_char st c 15)"
  proof (cases "c = 10 \<or> c = 8")
    case True
    then show ?thesis
      using backspace_refines [OF ok] dv inc ok
      by (auto simp: terminal_write_char_def screen_write_def kconfig) (simp_all add: screen_of_def term_ok_def kconfig)
  next
    case False
    then have w: "screen_write c (screen_of st) = screen_of ?st1\<lparr>cursor := cursor (screen_of st) + 1\<rparr>"
      by (simp add: screen_write_def put)
    show ?thesis
    proof (cases "?c = 79")
      case True
      then have "terminal_write_char st c 15 = ?st1\<lparr>terminal_row := terminal_row st + 1, terminal_col := 0\<rparr>"
        using False full f1 by (simp add: terminal_write_char_def Let_def)
      moreover have "screen_of (?st1\<lparr>terminal_row := terminal_row st + 1, terminal_col := 0\<rparr>) = screen_write c (screen_of st)"
        unfolding w using True inc by (intro screen.equality) (simp_all add: cells, simp add: screen_of_def kconfig)
      ultimately show ?thesis using ok f1 by (simp add: term_ok_def)
    next
      case not_full: False
      then have "terminal_write_char st c 15 = ?st1\<lparr>terminal_col := terminal_col st + 1\<rparr>"
        using False full f1 by (simp add: terminal_write_char_def Let_def)
      moreover have "screen_of (?st1\<lparr>terminal_col := terminal_col st + 1\<rparr>) = screen_write c (screen_of st)"
        unfolding w using not_full inc f1 by (intro screen.equality) (simp_all add: cells, simp add: screen_of_def kconfig)
      moreover have "?c + 1 < 80" using col not_full by simp
      ultimately show ?thesis using ok f1 inc by (simp add: term_ok_def kconfig)
    qed
  qed
  then show "screen_of (terminal_write_char st c 15) = screen_write c (screen_of st)" "term_ok (terminal_write_char st c 15)"
    by auto
  show "cursor (screen_write c (screen_of st)) \<le> cursor (screen_of st) + 80"
    using dv col by (auto simp: screen_write_def kconfig cur)
qed

lemma terminal_heap: "kernel_heap (terminal_write_char st c k) = kernel_heap st"
  by (simp add: terminal_write_char_def terminal_backspace_def terminal_put_char_def Let_def)

lemma terminal_fold_refines:
  assumes "term_ok st" "cursor (screen_of st) + 80 * length cs \<le> 65535 * 80"
  shows "screen_of (fold (\<lambda>c st. terminal_write_char st c 15) cs st) = fold screen_write cs (screen_of st) \<and>
    term_ok (fold (\<lambda>c st. terminal_write_char st c 15) cs st) \<and>
    kernel_heap (fold (\<lambda>c st. terminal_write_char st c 15) cs st) = kernel_heap st"
  using assms
proof (induction cs arbitrary: st)
  case (Cons c cs)
  have r: "cursor (screen_of st) + 80 \<le> 65535 * 80" using Cons.prems(2) by simp
  note w = terminal_write_refines [OF Cons.prems(1) r, of c]
  have "cursor (screen_of (terminal_write_char st c 15)) + 80 * length cs \<le> 65535 * 80"
    using w(1,3) Cons.prems(2) by simp
  with Cons.IH [OF w(2) this] w(1) show ?case by (simp add: terminal_heap)
qed simp

subsection \<open>Formatting numbers\<close>

text \<open>The digits of a number, least significant first, and the value of a string of digits; a byte that is
  neither \<open>0\<close> to \<open>9\<close> nor \<open>A\<close> to \<open>F\<close> is no digit of any base up to 16.\<close>

fun digits :: "nat \<Rightarrow> nat \<Rightarrow> nat list" where
  "digits b n = (if n = 0 \<or> b < 2 then [] else n mod b # digits b (n div b))"

declare digits.simps [simp del]

definition digit_value :: "u8 \<Rightarrow> nat" where
  "digit_value c = (if 48 \<le> c \<and> c \<le> 57 then unat c - 48 else if 65 \<le> c \<and> c \<le> 70 then unat c - 55 else 255)"

definition string_value :: "nat \<Rightarrow> u8 list \<Rightarrow> nat" where
  "string_value b cs = foldl (\<lambda>v c. v * b + digit_value c) 0 cs"

lemma string_value_snoc: "string_value b (cs @ [c]) = string_value b cs * b + digit_value c"
  by (simp add: string_value_def)

definition digit_char :: "nat \<Rightarrow> u8" where
  "digit_char d = num_char_set ! d"

lemma digit_char_value: "d < 16 \<Longrightarrow> digit_value (digit_char d) = d \<and> digit_char d \<noteq> 0"
proof -
  have "\<forall>d \<in> set [0 ..< 16]. digit_value (digit_char d) = d \<and> digit_char d \<noteq> 0" by code_simp
  then show "d < 16 \<Longrightarrow> ?thesis" by simp
qed

lemma digits_less: "2 \<le> b \<Longrightarrow> d \<in> set (digits b n) \<Longrightarrow> d < b"
  by (induction b n rule: digits.induct) (subst (asm) (2) digits.simps, auto split: if_splits)

lemma last_digits: "2 \<le> b \<Longrightarrow> n \<noteq> 0 \<Longrightarrow> digits b n \<noteq> [] \<and> last (digits b n) \<noteq> 0"
proof (induction b n rule: digits.induct)
  case (1 b n)
  then show ?case by (cases "n div b = 0") (auto simp: digits.simps [of b n] digits.simps [of b 0] div_eq_0_iff)
qed

lemma digit_string:
  assumes "2 \<le> b" "b \<le> 16" "n \<noteq> 0"
  shows "\<forall>c \<in> set (rev (map digit_char (digits b n))). c \<noteq> 0 \<and> digit_value c < b"
    "hd (rev (map digit_char (digits b n))) \<noteq> 48" "rev (map digit_char (digits b n)) \<noteq> []"
proof -
  have d: "d < b \<and> d < 16" if "d \<in> set (digits b n)" for d using digits_less [OF assms(1) that] assms(2) by simp
  then show "\<forall>c \<in> set (rev (map digit_char (digits b n))). c \<noteq> 0 \<and> digit_value c < b" using digit_char_value by auto
  note l = last_digits [OF assms(1,3)]
  then have "digit_value (digit_char (last (digits b n))) = last (digits b n)" using d digit_char_value last_in_set by blast
  with l have "digit_char (last (digits b n)) \<noteq> 48" by (auto simp: digit_value_def)
  with l show "hd (rev (map digit_char (digits b n))) \<noteq> 48" "rev (map digit_char (digits b n)) \<noteq> []"
    by (simp_all add: hd_rev last_map)
qed

lemma string_value_digits: "2 \<le> b \<Longrightarrow> b \<le> 16 \<Longrightarrow> string_value b (rev (map digit_char (digits b n))) = n"
proof (induction b n rule: digits.induct)
  case (1 b n)
  show ?case
  proof (cases "n = 0")
    case True
    then show ?thesis by (simp add: digits.simps string_value_def)
  next
    case False
    have "n mod b < 16" using 1 by (meson mod_less_divisor order_less_le_trans less_le_trans zero_less_numeral)
    with False 1 show ?thesis
      by (subst digits.simps) (simp add: string_value_snoc digit_char_value)
  qed
qed

lemma length_digits: "2 \<le> b \<Longrightarrow> n < b ^ k \<Longrightarrow> length (digits b n) \<le> k"
proof (induction k arbitrary: n)
  case 0
  then show ?case by (simp add: digits.simps)
next
  case (Suc k)
  have "n div b < b ^ k" using Suc.prems by (simp add: less_mult_imp_div_less mult.commute)
  with Suc show ?case by (subst digits.simps) simp
qed

lemma ulong_digits_eq:
  assumes "2 \<le> unat base" "unat base \<le> 16" "index + length (digits (unat base) (unat num)) \<le> length str"
    and "index + length (digits (unat base) (unat num)) + 1 < unat sz"
  shows "ulong_digits num str index sz base =
    Inr (take index str @ map digit_char (digits (unat base) (unat num))
           @ drop (index + length (digits (unat base) (unat num))) str,
         index + length (digits (unat base) (unat num)), False)"
  using assms
proof (induction num str index sz base rule: ulong_digits.induct)
  case (1 num str index sz base)
  show ?case
  proof (cases "num = 0")
    case True
    then show ?thesis by (simp add: ulong_digits.simps digits.simps)
  next
    case False
    then have n0: "unat num \<noteq> 0" by (simp add: unat_eq_0)
    have b0: "base \<noteq> 0" using 1(2) by auto
    have d: "digits (unat base) (unat num) = unat (num mod base) # digits (unat base) (unat (num div base))"
      using n0 1(2) by (subst digits.simps) (simp add: unat_mod unat_div)
    have v: "unat (num mod base) < 16"
      using 1(2,3) by (simp add: unat_mod) (meson mod_less_divisor order_less_le_trans zero_less_numeral less_le_trans)
    have idx: "index < length str" "Suc index < unat sz - 1" using 1(4,5) by (simp_all add: d)
    have "of_nat (Suc index) \<noteq> sz - 1"
    proof
      assume e: "of_nat (Suc index) = sz - 1"
      have "sz \<noteq> 0" using idx by auto
      then have "unat (sz - 1) = unat sz - 1" by (metis unat_minus_one)
      moreover have "unat (of_nat (Suc index) :: u32) = Suc index"
        using idx unat_u32_less [of sz] by (intro unat_of_nat_u32) simp
      ultimately show False using idx(2) arg_cong [OF e, of unat] by linarith
    qed
    moreover have "ulong_digits (num div base) (str[index := num_char_set ! unat (num mod base)]) (Suc index) sz base =
        Inr (take (Suc index) (str[index := num_char_set ! unat (num mod base)]) @
             map digit_char (digits (unat base) (unat (num div base))) @
             drop (Suc index + length (digits (unat base) (unat (num div base)))) (str[index := num_char_set ! unat (num mod base)]),
             Suc index + length (digits (unat base) (unat (num div base))), False)"
      by (rule 1(1)) (use 1 False b0 idx v calculation d in \<open>auto simp: num_char_set_def word_gt_0\<close>)
    ultimately show ?thesis
      using False b0 idx v
      by (subst ulong_digits.simps)
        (simp add: d Let_def word_gt_0 num_char_set_def digit_char_def take_Suc_conv_app_nth take_update_swap drop_update_cancel
          list_update_append)
  qed
qed

lemma reverse_loop_eq: "reverse_loop (a @ mid @ c) (int (length a)) (int (length a + length mid) - 1) = a @ rev mid @ c"
proof (induction mid arbitrary: a c rule: length_induct)
  case (1 mid)
  show ?case
  proof (cases "length mid < 2")
    case True
    then have "rev mid = mid" by (cases mid) auto
    with True show ?thesis by (simp add: reverse_loop.simps)
  next
    case False
    then obtain x y m where mid: "mid = x # m @ [y]"
      by (cases mid; cases "tl mid" rule: rev_cases) auto
    let ?n = "length a" and ?k = "Suc (length a + length m)"
    let ?s = "a @ mid @ c"
    have "?s[?n := ?s ! ?k, ?k := ?s ! ?n] = (a @ [y]) @ m @ (x # c)"
      by (simp add: mid list_update_append nth_append)
    moreover have "nat (int ?n + int (length mid) - 1) = ?k" by (simp add: mid)
    ultimately have "reverse_loop ?s (int ?n) (int (?n + length mid) - 1) =
        reverse_loop ((a @ [y]) @ m @ (x # c)) (int (length (a @ [y]))) (int (length (a @ [y]) + length m) - 1)"
      by (subst reverse_loop.simps) (simp add: mid add.commute [of 1])
    also have "\<dots> = (a @ [y]) @ rev m @ (x # c)" by (rule 1 [rule_format]) (simp add: mid)
    finally show ?thesis by (simp add: mid)
  qed
qed

lemma ulong_to_string_base_eq:
  assumes b: "2 \<le> unat base" "unat base \<le> 16" and n: "num \<noteq> 0"
    and room: "length (digits (unat base) (unat num)) + 1 < unat sz" "unat sz \<le> length str"
  shows "\<exists>rest. ulong_to_string_base num str sz base =
    Inr (rev (map digit_char (digits (unat base) (unat num))) @ 0 # rest)"
proof -
  let ?ds = "map digit_char (digits (unat base) (unat num))" and ?k = "length (digits (unat base) (unat num))"
  have d: "ulong_digits num str 0 sz base = Inr (?ds @ drop ?k str, ?k, False)"
    using ulong_digits_eq [of base 0 num str sz] assms by simp
  have r: "reverse_loop (?ds @ drop ?k str) 0 (int ?k - 1) = rev ?ds @ drop ?k str"
    using reverse_loop_eq [of "[]" ?ds "drop ?k str"] by simp
  have k: "?k < length str" using room by simp
  then obtain z rest where z: "drop ?k str = z # rest" by (metis Cons_nth_drop_Suc)
  have "sz \<noteq> 0" using room by auto
  then show ?thesis
    using d r n k z by (simp add: ulong_to_string_base_def Let_def list_update_append)
qed

subsection \<open>Properties\<close>

text \<open>C26: The terminal implements a screen with one cursor: printing a terminated string writes its
  characters, newlines and backspaces exactly as on an unbounded screen of 80 columns, cell for
  cell, as long as the row counter does not overflow, and leaves the heap alone.\<close>

theorem terminal_refines_screen:
  assumes "term_ok st" and "is_cstr str" and "cursor (screen_of st) + 80 * length (cstr str) \<le> 65535 * 80"
  shows "\<exists>st'. terminal_print st str = Inr st' \<and> screen_of st' = fold screen_write (cstr str) (screen_of st) \<and>
    term_ok st' \<and> kernel_heap st' = kernel_heap st"
proof -
  have "take (length (cstr str)) str = cstr str" unfolding cstr_def by (rule takeWhile_eq_take [symmetric])
  with terminal_fold_refines [OF assms(1,3)] show ?thesis
    by (simp add: terminal_print_def strlen_eq assms(2))
qed

definition boot_termst :: termst where
  "boot_termst = \<lparr>kernel_heap = kernel_heap boot_kstate, kmem = kmem boot_kstate, current_directory = 0,
     vedio_mem = 0xB8000, terminal_row = 0, terminal_col = 0\<rparr>"

theorem terminal_refines_screen_witness:
  "\<exists>st'. terminal_print boot_termst [104, 105, 10, 33, 8, 0] = Inr st' \<and>
    screen_of st' = fold screen_write [104, 105, 10, 33, 8] (screen_of boot_termst) \<and>
    term_ok st' \<and> kernel_heap st' = kernel_heap boot_termst"
proof -
  have "term_ok boot_termst" "cursor (screen_of boot_termst) = 0"
    by (simp_all add: boot_termst_def term_ok_def screen_of_def kconfig)
  moreover have "is_cstr [104, 105, 10, 33, 8, 0]" "cstr [104, 105, 10, 33, 8, 0] = [104, 105, 10, 33, 8]"
    by simp_all
  ultimately show ?thesis
    using terminal_refines_screen [of boot_termst "[104, 105, 10, 33, 8, 0]"] by (simp only: list.size) simp
qed

text \<open>C27: Formatting a number is right: with a buffer of the size that is passed, and room for all digits, the
  terminator and one more byte, the string written is terminated, consists of digits of the base
  only (\<open>0\<close> to \<open>9\<close>, in base 16 also \<open>A\<close> to \<open>F\<close>) and denotes the number, in base 10 and in base 16. Zero is
  written \<open>0\<close>; any other number has as many characters as digits and no leading zero.\<close>

theorem ulong_to_string_value:
  assumes "b = 10 \<or> b = 16" and "length (digits (unat b) (unat num)) + 1 < unat sz" and "unat sz \<le> length str"
    and "1 < unat sz"
  shows "\<exists>s. ulong_to_string_base num str sz b = Inr s \<and> is_cstr s \<and> string_value (unat b) (cstr s) = unat num \<and>
    (\<forall>c \<in> set (cstr s). digit_value c < unat b) \<and>
    (if num = 0 then cstr s = [48] else length (cstr s) = length (digits (unat b) (unat num)) \<and> hd (cstr s) \<noteq> 48)"
proof (cases "num = 0")
  case True
  obtain x y rest where "str = x # y # rest" using assms(3,4) by (cases str; cases "tl str") auto
  moreover have "sz \<noteq> 0" using assms(4) by auto
  ultimately show ?thesis
    using True assms(1) by (auto simp: ulong_to_string_base_def string_value_def digit_value_def)
next
  case False
  have b: "2 \<le> unat b" "unat b \<le> 16" using assms(1) by auto
  obtain rest where r: "ulong_to_string_base num str sz b = Inr (rev (map digit_char (digits (unat b) (unat num))) @ 0 # rest)"
    using ulong_to_string_base_eq [OF b False assms(2,3)] by blast
  let ?s = "rev (map digit_char (digits (unat b) (unat num)))"
  have "unat num \<noteq> 0" using False by (simp add: unat_eq_0)
  note d = digit_string [OF b this]
  then have "0 \<notin> set ?s" by auto
  then have c: "cstr (?s @ 0 # rest) = ?s" "is_cstr (?s @ 0 # rest)" using cstr_append is_cstr_append by auto
  show ?thesis
    by (rule exI [of _ "?s @ 0 # rest"]) (use r c d False string_value_digits [OF b, of "unat num"] in simp)
qed

theorem ulong_to_string_value_witness:
  "\<exists>s. ulong_to_string_base 1234 (replicate 33 0) 33 10 = Inr s \<and> is_cstr s \<and> string_value 10 (cstr s) = 1234 \<and>
    hd (cstr s) \<noteq> 48"
proof -
  have "length (digits 10 1234) \<le> 4" by (rule length_digits) simp_all
  then show ?thesis
    using ulong_to_string_value [of 10 1234 33 "replicate 33 0"] by auto
qed

end
