(* ===== verification/Disk.thy ===== *)
theory Disk
  imports Print Kstring Phys_Mem
begin

unbundle bit_operations_syntax

section \<open>The disk and byte streams over it: kernel/disk.c, kernel/streamer.c\<close>

text \<open>
  \<open>disk.c\<close> drives the primary ATA disk by programmed input: it writes the sector number and count
  to the controller's registers, polls the status register and reads the data register 256
  times per sector. The controller is not code of the repository: the port operations
  \<open>outb\<close>, \<open>insb\<close> and \<open>insw\<close> act on a device of any type \<open>'d\<close>, and \<open>ata_device\<close> states what the
  code relies on (the read command of the ATA standard). A poll that never sees the data-request
  bit does not return (\<open>Diverge\<close>).

  The one \<open>struct disk\<close> of the kernel is the global \<open>disk\<close>, so a disk pointer is \<open>DISK\<close> or NULL.
  \<open>diskstream_read\<close> writes every sector it reads into its heap buffer in memory and copies from
  there. It returns, beside its status, the bytes it has copied to \<open>out\<close>, which its callers put where
  \<open>out\<close> points (a structure on the stack or in the driver's data, or a block of memory); \<open>out_null\<close>
  says that \<open>out\<close> is NULL. A position beyond the range of \<open>int\<close> is \<open>Overflow\<close>.

  The lemmas show that reading sectors gives the sectors of the image, and reading a stream
  gives the bytes of the image at the stream's position, across sector boundaries, with the
  heap as it was and every live allocation untouched.
\<close>

subsection \<open>Port operations\<close>

record 'd port_io =
  outb :: "'d \<Rightarrow> u16 \<Rightarrow> u8 \<Rightarrow> 'd"
  insb :: "'d \<Rightarrow> u16 \<Rightarrow> u8 \<times> 'd"
  insw :: "'d \<Rightarrow> u16 \<Rightarrow> u16 \<times> 'd"

subsection \<open>kernel/disk.c\<close>

datatype disk_ptr = NULL_DISK | DISK

record 'd dstate = termst +
  device :: 'd

text \<open>\<open>while (!(c & 0x08)) c = insb (0x1F7)\<close>, after the first read.\<close>

partial_function (option) disk_wait :: "'d port_io \<Rightarrow> 'd \<Rightarrow> u8 \<Rightarrow> 'd option" where
  "disk_wait io d c =
     (if c AND 0x08 = 0 then let (c', d') = insb io d 0x1F7 in disk_wait io d' c' else Some d)"

primrec disk_read_words :: "'d port_io \<Rightarrow> nat \<Rightarrow> 'd \<Rightarrow> u8 list \<times> 'd" where
  "disk_read_words io 0 d = ([], d)"
| "disk_read_words io (Suc i) d =
     (let (w, d1) = insw io d 0x1F0; (bs, d2) = disk_read_words io i d1
      in (ucast w # ucast (drop_bit 8 w) # bs, d2))"

primrec disk_read_loop :: "'d port_io \<Rightarrow> nat \<Rightarrow> 'd \<Rightarrow> (u8 list \<times> 'd) kresult" where
  "disk_read_loop io 0 d = Inr ([], d)"
| "disk_read_loop io (Suc b) d =
     (let (c, d1) = insb io d 0x1F7 in
      case disk_wait io d1 c of
        None \<Rightarrow> Inl Diverge
      | Some d2 \<Rightarrow>
          let (bs, d3) = disk_read_words io 256 d2
          in kbind (disk_read_loop io b d3) (\<lambda>(bs', d4). Inr (bs @ bs', d4)))"

definition disk_command :: "'d port_io \<Rightarrow> 'd \<Rightarrow> u32 \<Rightarrow> u8 \<Rightarrow> 'd" where
  "disk_command io d lba count =
     (let d1 = outb io d 0x1F6 (ucast (drop_bit 24 lba) OR 0xE0);
          d2 = outb io d1 0x1F2 count;
          d3 = outb io d2 0x1F3 (ucast (lba AND 0xFF));
          d4 = outb io d3 0x1F4 (ucast (drop_bit 8 lba));
          d5 = outb io d4 0x1F5 (ucast (drop_bit 16 lba))
      in outb io d5 0x1F7 0x20)"

definition disk_read_sector :: "'d port_io \<Rightarrow> 'd \<Rightarrow> u32 \<Rightarrow> int \<Rightarrow> (int \<times> u8 list \<times> 'd) kresult" where
  "disk_read_sector io d lba count =
     kbind (disk_read_loop io (nat count) (disk_command io d lba (word_of_int count))) (\<lambda>(bs, d').
     Inr (0, bs, d'))"

definition disk_get :: "int \<Rightarrow> disk_ptr" where
  "disk_get index = (if index \<noteq> 0 then NULL_DISK else DISK)"

definition disk_read_block :: "'d port_io \<Rightarrow> 'd \<Rightarrow> disk_ptr \<Rightarrow> u32 \<Rightarrow> int \<Rightarrow> (int \<times> u8 list \<times> 'd) kresult" where
  "disk_read_block io d idisk lba count =
     (if idisk \<noteq> DISK then Inr (- EIO, [], d) else disk_read_sector io d lba count)"

subsection \<open>kernel/streamer.c\<close>

record disk_stream =
  ds_addr :: u32
  pos :: int
  ds_disk :: disk_ptr

definition diskstream_new :: "('d, 'a) dstate_scheme \<Rightarrow> int \<Rightarrow> disk_stream option \<times> ('d, 'a) dstate_scheme" where
  "diskstream_new ks disk_id =
     (let disk = disk_get disk_id in
      if disk = NULL_DISK then (None, ks)
      else let (stream, ks1) = kzalloc ks 8 in
        if stream = 0 then (None, ks1)
        else (Some \<lparr>ds_addr = stream, pos = 0, ds_disk = disk\<rparr>, ks1))"

definition diskstream_seek :: "disk_stream option \<Rightarrow> int \<Rightarrow> int \<times> disk_stream option" where
  "diskstream_seek stream p =
     (case stream of None \<Rightarrow> (- EINVAGS, None) | Some s \<Rightarrow> (0, Some (s\<lparr>pos := p\<rparr>)))"

definition INT_MAX :: int where
  "INT_MAX = 0x7FFFFFFF"

lemma sector_offset: "- KERNEL_SECTOR_SIZE < p smod KERNEL_SECTOR_SIZE" "p smod KERNEL_SECTOR_SIZE < KERNEL_SECTOR_SIZE"
  using smod_int_range [of KERNEL_SECTOR_SIZE p] by (auto simp: kconfig)

text \<open>The loop of \<open>diskstream_read\<close>, with the memory and the address of the sector buffer; it returns the
  status, the bytes copied out, the stream, the device and the memory.\<close>

function diskstream_read_loop ::
    "'d port_io \<Rightarrow> disk_stream \<Rightarrow> 'd \<Rightarrow> mem \<Rightarrow> u32 \<Rightarrow> int \<Rightarrow> int \<Rightarrow> u8 list
      \<Rightarrow> (int \<times> u8 list \<times> disk_stream \<times> 'd \<times> mem) kresult" where
  "diskstream_read_loop io s d m buf remain ret acc =
     (if remain > 0 then
        let lba = pos s sdiv KERNEL_SECTOR_SIZE;
            offset = pos s smod KERNEL_SECTOR_SIZE;
            read_size = min (KERNEL_SECTOR_SIZE - offset) remain
        in kbind (disk_read_block io d (ds_disk s) (word_of_int lba) 1) (\<lambda>(ret', sector, d').
           let m' = mem_write m buf sector in
           if ret' \<noteq> KERNEL_ALL_OK then Inr (ret', acc, s, d', m')
           else if offset < 0 then Inl OutOfBounds
           else if pos s + read_size > INT_MAX then Inl Overflow
           else diskstream_read_loop io (s\<lparr>pos := pos s + read_size\<rparr>) d' m' buf (remain - read_size) ret'
                  (acc @ mem_bytes m' (buf + word_of_int offset) (nat read_size)))
      else Inr (ret, acc, s, d, m))"
  by pat_completeness auto

termination
proof (relation "measure (\<lambda>(io, s, d, m, buf, remain, ret, acc). nat remain)", goal_cases)
  case (2 io s d m buf remain ret acc)
  then show ?case using sector_offset [of "pos s"] by (auto simp: min_def)
qed simp

declare diskstream_read_loop.simps [simp del]

definition diskstream_read ::
    "'d port_io \<Rightarrow> ('d, 'a) dstate_scheme \<Rightarrow> disk_stream option \<Rightarrow> bool \<Rightarrow> int
      \<Rightarrow> (int \<times> u8 list \<times> disk_stream option \<times> ('d, 'a) dstate_scheme) kresult" where
  "diskstream_read io ks stream out_null count =
     (case stream of
        None \<Rightarrow> Inr (- EINVAGS, [], None, ks)
      | Some s \<Rightarrow>
          if out_null \<or> count < 0 then Inr (- EINVAGS, [], stream, ks)
          else let (buf, ks1) = kmalloc ks (word_of_int KERNEL_SECTOR_SIZE) in
            if buf = 0 then Inr (- ENOMEM, [], stream, ks1)
            else kbind (diskstream_read_loop io s (device ks1) (kmem ks1) buf count KERNEL_ALL_OK [])
              (\<lambda>(ret, bytes, s', d', m'). Inr (ret, bytes, Some s', kfree (ks1\<lparr>device := d', kmem := m'\<rparr>) buf)))"

definition diskstream_close :: "('d, 'a) dstate_scheme \<Rightarrow> disk_stream option \<Rightarrow> ('d, 'a) dstate_scheme" where
  "diskstream_close ks stream = (case stream of None \<Rightarrow> ks | Some s \<Rightarrow> kfree ks (ds_addr s))"

subsection \<open>What the controller promises\<close>

text \<open>The phases of a read command: waiting for sector \<open>b\<close> of the \<open>n\<close> from \<open>lba\<close> on, or with word \<open>k\<close> of
  the whole transfer in the data register.\<close>

datatype ata_phase = Idle | Busy nat nat nat | Data nat nat nat

text \<open>\<open>m\<close> reads of the status register without the data-request bit, then one with it.\<close>

fun drq_after :: "'d port_io \<Rightarrow> nat \<Rightarrow> 'd \<Rightarrow> 'd \<Rightarrow> bool" where
  "drq_after io 0 d d' \<longleftrightarrow> fst (insb io d 0x1F7) AND 0x08 \<noteq> 0 \<and> snd (insb io d 0x1F7) = d'"
| "drq_after io (Suc m) d d' \<longleftrightarrow> fst (insb io d 0x1F7) AND 0x08 = 0 \<and> drq_after io m (snd (insb io d 0x1F7)) d'"

text \<open>
  Read sectors, command 0x20 of the ATA standard, in LBA mode: selecting the drive with the top four
  bits of the block number, setting the sector count and the three low bytes of the block
  number and writing the command starts a transfer; the data-request bit comes on after
  finitely many status reads; 256 data reads then give the sector's words, low byte first.
\<close>

definition ata_device :: "'d port_io \<Rightarrow> ('d \<Rightarrow> ata_phase) \<Rightarrow> (nat \<Rightarrow> u8 list) \<Rightarrow> bool" where
  "ata_device io ph img \<longleftrightarrow>
     (\<forall>lba. length (img lba) = 512) \<and>
     (\<forall>d h n b0 b1 b2. ph d = Idle \<and> h < 16 \<and> n \<noteq> 0 \<longrightarrow>
        ph (outb io (outb io (outb io (outb io (outb io (outb io d 0x1F6 (0xE0 OR h)) 0x1F2 n) 0x1F3 b0)
              0x1F4 b1) 0x1F5 b2) 0x1F7 0x20) =
          Busy (unat h * 2 ^ 24 + unat b2 * 2 ^ 16 + unat b1 * 2 ^ 8 + unat b0) (unat n) 0) \<and>
     (\<forall>d lba n b. ph d = Busy lba n b \<and> b < n \<longrightarrow> (\<exists>m d'. drq_after io m d d' \<and> ph d' = Data lba n (256 * b))) \<and>
     (\<forall>d lba n k. ph d = Data lba n k \<and> k < 256 * n \<longrightarrow>
        fst (insw io d 0x1F0) = le16 (img (lba + k div 256)) (2 * (k mod 256)) \<and>
        ph (snd (insw io d 0x1F0)) =
          (if Suc k mod 256 \<noteq> 0 then Data lba n (Suc k)
           else if Suc k = 256 * n then Idle else Busy lba n (Suc k div 256)))"

lemma ata_deviceD:
  assumes "ata_device io ph img"
  shows ata_sector: "length (img lba) = 512"
    and ata_command: "ph d = Idle \<Longrightarrow> h < 16 \<Longrightarrow> n \<noteq> 0 \<Longrightarrow>
        ph (outb io (outb io (outb io (outb io (outb io (outb io d 0x1F6 (0xE0 OR h)) 0x1F2 n) 0x1F3 b0)
              0x1F4 b1) 0x1F5 b2) 0x1F7 0x20) =
          Busy (unat h * 2 ^ 24 + unat b2 * 2 ^ 16 + unat b1 * 2 ^ 8 + unat b0) (unat n) 0"
    and ata_drq: "ph d = Busy lba c b \<Longrightarrow> b < c \<Longrightarrow> \<exists>m d'. drq_after io m d d' \<and> ph d' = Data lba c (256 * b)"
    and ata_word: "ph d = Data lba c k \<Longrightarrow> k < 256 * c \<Longrightarrow>
        fst (insw io d 0x1F0) = le16 (img (lba + k div 256)) (2 * (k mod 256)) \<and>
        ph (snd (insw io d 0x1F0)) =
          (if Suc k mod 256 \<noteq> 0 then Data lba c (Suc k)
           else if Suc k = 256 * c then Idle else Busy lba c (Suc k div 256))"
  using assms unfolding ata_device_def by blast+

subsection \<open>Reading sectors\<close>

lemma disk_wait_returns:
  "drq_after io m d d' \<Longrightarrow> disk_wait io (snd (insb io d 0x1F7)) (fst (insb io d 0x1F7)) = Some d'"
proof (induction m arbitrary: d)
  case 0
  then show ?case by (subst disk_wait.simps) simp
next
  case (Suc m)
  then show ?case by (subst disk_wait.simps) (simp add: split_beta)
qed

lemma le16_bytes: "ucast (le16 bs i) = bs ! i" "ucast (drop_bit 8 (le16 bs i)) = bs ! (i + 1)"
  unfolding le16_def by (rule bit_word_eqI, auto simp: bit_simps dest: bit_imp_le_length)+

lemma disk_read_words_sector:
  assumes dev: "ata_device io ph img" and b: "b < n" and j: "j \<le> 256" "0 < j"
    and d: "ph d = Data lba n (256 * b + (256 - j))"
  shows "fst (disk_read_words io j d) = drop (512 - 2 * j) (img (lba + b)) \<and>
    ph (snd (disk_read_words io j d)) = (if Suc b = n then Idle else Busy lba n (Suc b))"
  using j d
proof (induction j arbitrary: d)
  case (Suc j)
  let ?k = "256 * b + (256 - Suc j)"
  have k: "?k < 256 * n" "?k div 256 = b" "?k mod 256 = 255 - j" "Suc ?k = 256 * b + (256 - j)"
  proof -
    have "256 * b + r < 256 * n" "(256 * b + r) div 256 = b" "(256 * b + r) mod 256 = r" if "r < 256" for r
      using that b by simp_all
    from this [of "255 - j"] Suc.prems(1)
    show "?k < 256 * n" "?k div 256 = b" "?k mod 256 = 255 - j" "Suc ?k = 256 * b + (256 - j)" by simp_all
  qed
  note w = ata_word [OF dev Suc.prems(3) k(1), unfolded k(2,3)]
  have l: "length (img (lba + b)) = 512" by (rule ata_sector [OF dev])
  have i: "2 * (255 - j) = 512 - 2 * Suc j" "2 * (255 - j) + 1 = 512 - 2 * Suc j + 1" using Suc.prems(1) by auto
  have hd2: "drop (512 - 2 * Suc j) (img (lba + b)) =
      img (lba + b) ! (512 - 2 * Suc j) # img (lba + b) ! (512 - 2 * Suc j + 1) # drop (512 - 2 * j) (img (lba + b))"
  proof -
    have e: "512 - 2 * j = Suc (Suc (512 - 2 * Suc j))" using Suc.prems(1) by simp
    show ?thesis unfolding e using l Suc.prems(1) by (simp add: Cons_nth_drop_Suc [symmetric])
  qed
  show ?case
  proof (cases "j = 0")
    case True
    with w hd2 l i k show ?thesis by (simp add: split_beta le16_bytes)
  next
    case False
    have "(256 * b + r) mod 256 = r" if "r < 256" for r using that by simp
    from this [of "256 - j"] False Suc.prems(1) have "Suc ?k mod 256 \<noteq> 0" unfolding k(4) by simp
    with w k(4) have "ph (snd (insw io d 0x1F0)) = Data lba n (256 * b + (256 - j))" by simp
    from Suc.IH [OF _ _ this] False Suc.prems(1) w hd2 i show ?thesis
      by (simp add: split_beta le16_bytes)
  qed
qed simp

lemma disk_read_loop_sectors:
  assumes dev: "ata_device io ph img" and d: "ph d = Busy lba n b" and m: "b + m = n" "0 < m"
  shows "\<exists>d'. disk_read_loop io m d = Inr (concat (map img [lba + b ..< lba + n]), d') \<and> ph d' = Idle"
  using d m
proof (induction m arbitrary: b d)
  case (Suc m)
  then have b: "b < n" by simp
  from ata_drq [OF dev Suc.prems(1) b] obtain k d1 where k: "drq_after io k d d1" "ph d1 = Data lba n (256 * b)"
    by blast
  have dat: "ph d1 = Data lba n (256 * b + (256 - 256))" using k(2) by simp
  obtain bs d2 where r: "disk_read_words io 256 d1 = (bs, d2)" by fastforce
  have w: "bs = img (lba + b)" "ph d2 = (if Suc b = n then Idle else Busy lba n (Suc b))"
    using disk_read_words_sector [OF dev b _ _ dat] r by simp_all
  have wait: "disk_wait io (snd (insb io d 0x1F7)) (fst (insb io d 0x1F7)) = Some d1"
    by (rule disk_wait_returns [OF k(1)])
  have upt: "[lba + b ..< lba + n] = (lba + b) # [Suc (lba + b) ..< lba + n]" using b by (simp add: upt_conv_Cons)
  show ?case
  proof (cases "m = 0")
    case True
    with Suc.prems(2) have "Suc b = n" by simp
    with True w wait r upt show ?thesis by (simp add: split_beta)
  next
    case False
    with Suc.prems(2) have "ph d2 = Busy lba n (Suc b)" "Suc b + m = n" "0 < m" using w(2) by auto
    from Suc.IH [OF this] obtain d' where
      "disk_read_loop io m d2 = Inr (concat (map img [lba + Suc b ..< lba + n]), d')" "ph d' = Idle" by blast
    with w wait r upt show ?thesis by (simp add: split_beta)
  qed
qed simp

lemma lba_bytes:
  assumes "lba < 2 ^ 28"
  shows "unat (ucast (drop_bit 24 (of_nat lba :: u32)) :: u8) * 2 ^ 24
     + unat (ucast (drop_bit 16 (of_nat lba :: u32)) :: u8) * 2 ^ 16
     + unat (ucast (drop_bit 8 (of_nat lba :: u32)) :: u8) * 2 ^ 8
     + unat (ucast ((of_nat lba :: u32) AND 0xFF) :: u8) = lba"
    and "(ucast (drop_bit 24 (of_nat lba :: u32)) :: u8) < 16"
proof -
  have u: "unat (of_nat lba :: u32) = lba" using assms by (intro unat_of_nat_u32) simp
  have m: "(0xFF :: u32) = mask 8" by (simp add: mask_eq_exp_minus_1)
  have b: "unat (ucast (drop_bit k (of_nat lba :: u32)) :: u8) = lba div 2 ^ k mod 256" for k
  proof -
    have "unat (drop_bit k (of_nat lba :: u32)) = lba div 2 ^ k"
      using unsigned_drop_bit_eq [of k "of_nat lba :: u32", where 'a = nat] take_bit_nat_eq_self [of lba 32] assms
      unfolding u by (simp add: drop_bit_eq_div)
    then show ?thesis by (simp add: unsigned_ucast_eq take_bit_eq_mod)
  qed
  have b0: "unat (ucast ((of_nat lba :: u32) AND 0xFF) :: u8) = lba mod 256"
    unfolding m by (simp add: unsigned_ucast_eq unsigned_and_eq take_bit_eq_mask [symmetric]
        take_bit_eq_mod u unat_mod_distrib)
  show "(ucast (drop_bit 24 (of_nat lba :: u32)) :: u8) < 16"
    using b [of 24] assms by (simp add: word_less_nat_alt)
  have "lba div 16777216 mod 256 = lba div 16777216" using assms by simp
  moreover have "lba = lba div 256 * 256 + lba mod 256" by simp
  moreover have "lba div 256 = lba div 65536 * 256 + lba div 256 mod 256"
    using div_mult_mod_eq [of "lba div 256" 256] div_mult2_eq [of lba 256 256] by simp
  moreover have "lba div 65536 = lba div 16777216 * 256 + lba div 65536 mod 256"
    using div_mult_mod_eq [of "lba div 65536" 256] div_mult2_eq [of lba 65536 256] by simp
  ultimately have "lba div 16777216 mod 256 * 16777216 + lba div 65536 mod 256 * 65536
      + lba div 256 mod 256 * 256 + lba mod 256 = lba"
    by linarith
  with assms show "unat (ucast (drop_bit 24 (of_nat lba :: u32)) :: u8) * 2 ^ 24
     + unat (ucast (drop_bit 16 (of_nat lba :: u32)) :: u8) * 2 ^ 16
     + unat (ucast (drop_bit 8 (of_nat lba :: u32)) :: u8) * 2 ^ 8
     + unat (ucast ((of_nat lba :: u32) AND 0xFF) :: u8) = lba"
    unfolding b b0 by simp
qed

lemma disk_read_block_sectors:
  assumes dev: "ata_device io ph img" and d: "ph d = Idle" and lba: "lba < 2 ^ 28" and n: "0 < n" "n < 256"
  shows "\<exists>d'. disk_read_block io d DISK (of_nat lba) (int n) = Inr (0, concat (map img [lba ..< lba + n]), d') \<and>
    ph d' = Idle"
proof -
  have u: "unat (of_nat n :: u8) = n"
    using n(2) by (simp add: unat_of_nat take_bit_nat_eq_self)
  then have "(word_of_int (int n) :: u8) \<noteq> 0" using n(1) by auto
  from ata_command [OF dev d lba_bytes(2) [OF lba] this]
  have "ph (disk_command io d (of_nat lba) (word_of_int (int n))) = Busy lba n 0"
    unfolding disk_command_def Let_def by (simp add: lba_bytes(1) [OF lba, simplified] u or.commute)
  from disk_read_loop_sectors [OF dev this, of n] n show ?thesis
    by (auto simp: disk_read_block_def disk_read_sector_def)
qed

subsection \<open>Reading a stream\<close>

definition disk_byte :: "(nat \<Rightarrow> u8 list) \<Rightarrow> nat \<Rightarrow> u8" where
  "disk_byte img i = img (i div 512) ! (i mod 512)"

definition disk_bytes :: "(nat \<Rightarrow> u8 list) \<Rightarrow> nat \<Rightarrow> nat \<Rightarrow> u8 list" where
  "disk_bytes img p n = map (disk_byte img) [p ..< p + n]"

lemma length_disk_bytes [simp]: "length (disk_bytes img p n) = n"
  by (simp add: disk_bytes_def)

lemma disk_bytes_append: "disk_bytes img p (m + n) = disk_bytes img p m @ disk_bytes img (p + m) n"
  using upt_add_eq_append [of p "p + m" n] by (simp add: disk_bytes_def add.assoc)

lemma disk_bytes_sector:
  assumes "length (img (p div 512)) = 512" "p mod 512 + n \<le> 512"
  shows "disk_bytes img p n = take n (drop (p mod 512) (img (p div 512)))"
proof (rule nth_equalityI)
  fix i assume "i < length (disk_bytes img p n)"
  then have i: "i < n" by simp
  with assms(2) have "p mod 512 + i < 512" by simp
  then have "(p + i) div 512 = p div 512" "(p + i) mod 512 = p mod 512 + i"
    by (metis div_mult_mod_eq add.assoc div_mult_self3 div_less add.right_neutral numeral_neq_zero,
        metis mod_add_left_eq mod_less)
  with i assms show "disk_bytes img p n ! i = take n (drop (p mod 512) (img (p div 512))) ! i"
    by (simp add: disk_bytes_def disk_byte_def)
qed (use assms in auto)

lemma smod_nonneg: "0 \<le> a \<Longrightarrow> 0 < b \<Longrightarrow> a smod b = a mod (b :: int)" "0 \<le> a \<Longrightarrow> 0 < b \<Longrightarrow> a sdiv b = a div (b :: int)"
  by (auto simp: signed_modulo_int_def signed_divide_int_def sgn_if)

text \<open>Two memories that agree outside the sector buffer at \<open>buf\<close>.\<close>

definition same_but_sector :: "u32 \<Rightarrow> mem \<Rightarrow> mem \<Rightarrow> bool" where
  "same_but_sector buf m m' \<longleftrightarrow> (\<forall>x. 512 \<le> unat (x - buf) \<longrightarrow> m' x = m x)"

lemma same_but_sector_write:
  "length bs = 512 \<Longrightarrow> same_but_sector buf (mem_write m buf bs) m' \<Longrightarrow> same_but_sector buf m m'"
  by (simp add: same_but_sector_def mem_write_outside)

lemma diskstream_read_loop_bytes:
  assumes dev: "ata_device io ph img"
  shows "ph d = Idle \<Longrightarrow> ds_disk s = DISK \<Longrightarrow> pos s = int p \<Longrightarrow> p + r < 2 ^ 31 \<Longrightarrow>
    \<exists>d' m'. diskstream_read_loop io s d m buf (int r) 0 acc =
      Inr (0, acc @ disk_bytes img p r, s\<lparr>pos := int (p + r)\<rparr>, d', m') \<and> ph d' = Idle \<and> same_but_sector buf m m'"
proof (induction r arbitrary: s d m p acc rule: less_induct)
  case (less r)
  show ?case
  proof (cases "r = 0")
    case True
    with less.prems show ?thesis
      by (subst diskstream_read_loop.simps) (simp add: disk_bytes_def same_but_sector_def)
  next
    case False
    let ?k = "min (512 - p mod 512) r"
    have lba: "p div 512 < 2 ^ 28" using less.prems(4) False by simp
    from disk_read_block_sectors [OF dev less.prems(1) lba, of 1]
    obtain d1 where b: "disk_read_block io d DISK (of_nat (p div 512)) 1 = Inr (0, img (p div 512), d1)" "ph d1 = Idle"
      by auto
    have k: "0 < ?k" "?k \<le> r" "p mod 512 + ?k \<le> 512"
      using False by auto
    have sz: "length (img (p div 512)) = 512" by (rule ata_sector [OF dev])
    have div: "pos s sdiv KERNEL_SECTOR_SIZE = int (p div 512)" "pos s smod KERNEL_SECTOR_SIZE = int (p mod 512)"
      using less.prems(3) by (simp_all add: smod_nonneg kconfig zdiv_int zmod_int)
    have rs: "min (KERNEL_SECTOR_SIZE - int (p mod 512)) (int r) = int ?k"
      by (simp add: kconfig of_nat_min)
    let ?m = "mem_write m buf (img (p div 512))"
    have copy: "mem_bytes ?m (buf + word_of_int (int (p mod 512))) ?k = disk_bytes img p ?k"
      unfolding disk_bytes_sector [of img p ?k, OF sz k(3)] of_int_of_nat_eq
      by (rule mem_bytes_write) (use sz k(3) in simp_all)
    have top: "\<not> int p + int ?k > INT_MAX"
      using less.prems(4) k(2) by (simp add: INT_MAX_def)
    have step: "diskstream_read_loop io s d m buf (int r) 0 acc =
        diskstream_read_loop io (s\<lparr>pos := int (p + ?k)\<rparr>) d1 ?m buf (int (r - ?k)) 0 (acc @ disk_bytes img p ?k)"
      unfolding copy [symmetric]
      unfolding diskstream_read_loop.simps [of io s] Let_def div rs less.prems(2)
      using False b(1) k top less.prems(3) by (simp add: KERNEL_ALL_OK_def del: of_nat_min)
    have "\<exists>d' m'. diskstream_read_loop io (s\<lparr>pos := int (p + ?k)\<rparr>) d1 ?m buf (int (r - ?k)) 0 (acc @ disk_bytes img p ?k) =
        Inr (0, (acc @ disk_bytes img p ?k) @ disk_bytes img (p + ?k) (r - ?k),
          s\<lparr>pos := int (p + ?k), pos := int (p + ?k + (r - ?k))\<rparr>, d', m') \<and> ph d' = Idle \<and> same_but_sector buf ?m m'"
      by (rule less.IH) (use k b(2) less.prems in auto)
    with step disk_bytes_append [of img p ?k "r - ?k"] k(2) same_but_sector_write [OF sz] show ?thesis by fastforce
  qed
qed

lemma blocks_sector: "heap_blocks (word_of_int KERNEL_SECTOR_SIZE) = 1"
  by (simp add: heap_blocks_def heap_align_value_upper_def kconfig)

text \<open>\<open>live_agree ks m m'\<close>: the two memories have the same bytes in every live allocation of the heap and outside
  the heap's region.\<close>

definition live_agree :: "'a kstate_scheme \<Rightarrow> mem \<Rightarrow> mem \<Rightarrow> bool" where
  "live_agree ks m m' \<longleftrightarrow>
     (\<forall>q k x. heap_owned (kernel_heap ks) q = Some k \<and> unat q \<le> unat x \<and> unat x < unat q + k * 4096 \<longrightarrow> m' x = m x) \<and>
     (\<forall>x. unat x < 0x1000000 \<or> 0x7400000 \<le> unat x \<longrightarrow> m' x = m x)"

lemma kmalloc_page:
  assumes ok: "kheap_ok ks" and room: "heap_used (kernel_heap ks) < 25600" and one: "heap_blocks sz = 1"
  obtains p h' where "kmalloc ks sz = (p, ks\<lparr>kernel_heap := h'\<rparr>)" "p \<noteq> 0" "heap_free h' p = kernel_heap ks"
    "\<And>m m'. same_but_sector p m m' \<Longrightarrow> live_agree ks m m'"
proof -
  obtain p h' where a: "heap_malloc (kernel_heap ks) sz = (p, h')" by fastforce
  note wf = kheap_ok_wf [OF ok]
  have p: "p \<noteq> 0" using heap_one_block [OF wf _ one] a ok room by (simp add: kheap_ok_def)
  have m: "kmalloc ks sz = (p, ks\<lparr>kernel_heap := h'\<rparr>)" using a by (simp add: kmalloc_def)
  note s = kernel_alloc.alloc_some [OF wf a p]
  have ok': "kheap_ok (ks\<lparr>kernel_heap := h'\<rparr>)" by (rule kheap_ok_alloc(2) [OF ok m])
  have o: "heap_owned h' p = Some 1" using s one by simp
  have wf': "heap_wf h'" using s by simp
  have rng: "0x1000000 \<le> unat p" "unat p + 4096 \<le> 0x7400000"
    using kheap_owned_range [OF ok', of p 1] o by simp_all
  have far: "512 \<le> unat (x - p)" if "unat x < unat p \<or> unat p + 4096 \<le> unat x" for x
    using that rng(2) unat_u32_less [of x] by (auto simp: unat_sub_if_size word_size)
  have "live_agree ks m0 m'" if eq: "same_but_sector p m0 m'" for m0 m'
    unfolding live_agree_def
  proof (intro conjI allI impI)
    fix q k and x :: u32 assume q: "heap_owned (kernel_heap ks) q = Some k \<and> unat q \<le> unat x \<and> unat x < unat q + k * 4096"
    have ne: "q \<noteq> p" using q s by auto
    then have "heap_owned h' q = Some k" using q s by simp
    from kernel_alloc.owned_apart [OF wf' this o ne] q have "unat x < unat p \<or> unat p + 4096 \<le> unat x" by auto
    with far eq show "m' x = m0 x" by (simp add: same_but_sector_def)
  next
    fix x :: u32 assume "unat x < 0x1000000 \<or> 0x7400000 \<le> unat x"
    then have "unat x < unat p \<or> unat p + 4096 \<le> unat x" using rng by auto
    with far eq show "m' x = m0 x" by (simp add: same_but_sector_def)
  qed
  moreover have "heap_free h' p = kernel_heap ks" by (rule kernel_alloc.alloc_release [OF wf a])
  ultimately show thesis using that [OF m p] by blast
qed

lemma diskstream_read_bytes:
  fixes ks :: "('d, 'a) dstate_scheme"
  assumes dev: "ata_device io ph img" and ok: "kheap_ok ks" and room: "heap_used (kernel_heap ks) < 25600"
    and d: "ph (device ks) = Idle" and s: "ds_disk s = DISK" "pos s = int p" and n: "p + n < 2 ^ 31"
  shows "\<exists>d' m'. diskstream_read io ks (Some s) False (int n) =
      Inr (0, disk_bytes img p n, Some (s\<lparr>pos := int (p + n)\<rparr>), ks\<lparr>device := d', kmem := m'\<rparr>) \<and> ph d' = Idle \<and>
      live_agree ks (kmem ks) m'"
proof -
  obtain buf h' where a: "kmalloc ks (word_of_int KERNEL_SECTOR_SIZE) = (buf, ks\<lparr>kernel_heap := h'\<rparr>)" "buf \<noteq> 0"
    "heap_free h' buf = kernel_heap ks" "\<And>m m'. same_but_sector buf m m' \<Longrightarrow> live_agree ks m m'"
    using kmalloc_page [OF ok room blocks_sector] by blast
  from diskstream_read_loop_bytes [OF dev d s n, of "kmem ks" buf "[]"] obtain d' m' where
    r: "diskstream_read_loop io s (device ks) (kmem ks) buf (int n) 0 [] =
      Inr (0, disk_bytes img p n, s\<lparr>pos := int (p + n)\<rparr>, d', m')" "ph d' = Idle" "same_but_sector buf (kmem ks) m'" by auto
  have "kfree (ks\<lparr>kernel_heap := h', device := d', kmem := m'\<rparr>) buf = ks\<lparr>device := d', kmem := m'\<rparr>"
    using a(3) by (simp add: kfree_def)
  then show ?thesis using a(1,2) r a(4) [OF r(3)] by (auto simp: diskstream_read_def KERNEL_ALL_OK_def)
qed

subsection \<open>A controller that keeps the promise\<close>

record sim_disk =
  sim_drive :: u8
  sim_count :: u8
  sim_b0 :: u8
  sim_b1 :: u8
  sim_b2 :: u8
  sim_phase :: ata_phase

definition sim_outb :: "sim_disk \<Rightarrow> u16 \<Rightarrow> u8 \<Rightarrow> sim_disk" where
  "sim_outb d port v =
     (if port = 0x1F6 then d\<lparr>sim_drive := v\<rparr> else if port = 0x1F2 then d\<lparr>sim_count := v\<rparr>
      else if port = 0x1F3 then d\<lparr>sim_b0 := v\<rparr> else if port = 0x1F4 then d\<lparr>sim_b1 := v\<rparr>
      else if port = 0x1F5 then d\<lparr>sim_b2 := v\<rparr>
      else if port = 0x1F7 \<and> v = 0x20 then d\<lparr>sim_phase := Busy
          (unat (sim_drive d AND 0x0F) * 2 ^ 24 + unat (sim_b2 d) * 2 ^ 16 + unat (sim_b1 d) * 2 ^ 8 + unat (sim_b0 d))
          (unat (sim_count d)) 0\<rparr>
      else d)"

definition sim_insb :: "sim_disk \<Rightarrow> u16 \<Rightarrow> u8 \<times> sim_disk" where
  "sim_insb d port =
     (case sim_phase d of Busy lba n b \<Rightarrow> (0x58, d\<lparr>sim_phase := Data lba n (256 * b)\<rparr>) | _ \<Rightarrow> (0x50, d))"

definition sim_insw :: "(nat \<Rightarrow> u8 list) \<Rightarrow> sim_disk \<Rightarrow> u16 \<Rightarrow> u16 \<times> sim_disk" where
  "sim_insw img d port =
     (case sim_phase d of
        Data lba n k \<Rightarrow> (le16 (img (lba + k div 256)) (2 * (k mod 256)),
          d\<lparr>sim_phase := (if Suc k mod 256 \<noteq> 0 then Data lba n (Suc k)
             else if Suc k = 256 * n then Idle else Busy lba n (Suc k div 256))\<rparr>)
      | _ \<Rightarrow> (0, d))"

definition sim_io :: "(nat \<Rightarrow> u8 list) \<Rightarrow> sim_disk port_io" where
  "sim_io img = \<lparr>outb = sim_outb, insb = sim_insb, insw = sim_insw img\<rparr>"

definition sim_idle :: sim_disk where
  "sim_idle = \<lparr>sim_drive = 0, sim_count = 0, sim_b0 = 0, sim_b1 = 0, sim_b2 = 0, sim_phase = Idle\<rparr>"

lemma unat_eq_iff_u8: "unat (a :: u8) = unat b \<longleftrightarrow> a = b"
  by (metis of_nat_unat ucast_id)

lemma low_nibble: "(h :: u8) < 16 \<Longrightarrow> (0xE0 OR h) AND 0x0F = h"
proof -
  assume h: "h < 16"
  have m: "(0x0F :: u8) = mask 4" by (simp add: mask_eq_exp_minus_1)
  have "h AND mask 4 = take_bit 4 h" by (simp add: take_bit_eq_mask)
  also have "\<dots> = h"
    using h by (simp add: take_bit_eq_mod word_less_nat_alt unat_mod_distrib flip: unat_eq_iff_u8)
  finally show ?thesis by (simp add: m bit.conj_disj_distrib2) (simp add: mask_eq_exp_minus_1)
qed

lemma sim_ata:
  assumes "\<forall>lba. length (img lba) = 512"
  shows "ata_device (sim_io img) sim_phase img"
  unfolding ata_device_def
proof (intro conjI allI impI, goal_cases)
  case (3 d lba n b)
  then have "drq_after (sim_io img) 0 d (d\<lparr>sim_phase := Data lba n (256 * b)\<rparr>)"
    by (simp add: sim_io_def sim_insb_def)
  then show ?case by (intro exI [of _ 0] exI) auto
qed (use assms in \<open>auto simp: sim_io_def sim_outb_def sim_insw_def low_nibble\<close>)

definition sample_img :: "nat \<Rightarrow> u8 list" where
  "sample_img lba = map (\<lambda>i. of_nat (lba + i)) [0..<512]"

lemma sample_ata: "ata_device (sim_io sample_img) sim_phase sample_img"
  by (rule sim_ata) (simp add: sample_img_def)

definition boot_dstate :: "sim_disk dstate" where
  "boot_dstate = \<lparr>kernel_heap = kernel_heap boot_kstate, kmem = kmem boot_kstate, current_directory = 0,
     vedio_mem = 0xB8000, terminal_row = 0, terminal_col = 0, device = sim_idle\<rparr>"

lemma boot_dstate_ok: "kheap_ok boot_dstate" "heap_used (kernel_heap boot_dstate) = 0"
  "sim_phase (device boot_dstate) = Idle"
  using boot_kstate_ok(1) boot_used by (simp_all add: boot_dstate_def kheap_ok_def sim_idle_def)

subsection \<open>Properties\<close>

text \<open>C17: On a controller that follows the ATA read protocol, \<open>disk_read_block\<close> returns (the polling loop
  ends) and delivers exactly the requested sectors of the disk, in order, low byte of each word
  first, for up to 255 sectors below block 2^28.\<close>

theorem disk_read_block_image:
  assumes "ata_device io ph img" and "ph d = Idle" and "lba < 2 ^ 28" and "0 < n" and "n < 256"
  shows "\<exists>d'. disk_read_block io d DISK (of_nat lba) (int n) =
      Inr (KERNEL_ALL_OK, concat (map img [lba ..< lba + n]), d') \<and> ph d' = Idle"
  using disk_read_block_sectors [OF assms] by (simp add: kconfig)

theorem disk_read_block_image_witness:
  "\<exists>d'. disk_read_block (sim_io sample_img) sim_idle DISK (of_nat 0x12345) (int 2) =
      Inr (KERNEL_ALL_OK, concat (map sample_img [0x12345 ..< 0x12345 + 2]), d') \<and> sim_phase d' = Idle"
  by (rule disk_read_block_image [OF sample_ata]) (simp_all add: sim_idle_def)



end
