(* ===== verification/Fat16.thy ===== *)
theory Fat16
  imports Disk Pparser
begin

unbundle bit_operations_syntax

section \<open>The FAT16 driver: fs/fat/fat16.c\<close>

text \<open>
  The driver keeps, in \<open>disk->fs_private\<close>, the decoded boot sector, the root directory and three
  byte streams over the disk. \<open>fatst\<close> is the disk state of \<open>Disk\<close> with these fields of \<open>struct disk\<close>.
  Objects the driver allocates (directories, items, descriptors) are values that carry the
  address of their allocation, and every \<open>kzalloc\<close> and \<open>kfree\<close> is made on the kernel heap.
  A pointer field that may be NULL is an option. \<open>int\<close> values are \<^typ>\<open>int\<close>, sizes are converted
  where the code converts them; unsigned arithmetic is done at 32 bits.

  Two loops of the driver need not end: counting the entries of a directory without an end
  marker, and reading on along a cyclic cluster chain. They are \<open>partial_function (option)\<close>; not
  returning is \<open>Diverge\<close>.
\<close>

subsection \<open>On-disk structures\<close>

record fat_header_extended =
  drive_number :: u8
  win_nt_bit :: u8
  signature :: u8
  volume_id :: u32
  volume_id_string :: "u8 list"
  system_id_string :: "u8 list"

record fat_header =
  short_jmp_ins :: "u8 list"
  oem_identifier :: "u8 list"
  bytes_per_sector :: u16
  sectors_per_cluster :: u8
  reserved_sectors :: u16
  fat_copies :: u8
  root_dir_entries :: u16
  number_of_sectors :: u16
  media_type :: u8
  sectors_per_fat :: u16
  sectors_per_track :: u16
  number_of_heads :: u16
  hidden_sectors :: u32
  sectors_big :: u32

record fat_h =
  primary_header :: fat_header
  extended_header :: fat_header_extended

record fat_directory_item =
  filename :: "u8 list"
  ext :: "u8 list"
  attribute :: u8
  reserved :: u8
  creation_time_tenths_of_a_sec :: u8
  creation_time :: u16
  creation_date :: u16
  last_access :: u16
  high_16_bits_first_cluster :: u16
  last_mod_time :: u16
  last_mod_date :: u16
  low_16_bits_first_cluster :: u16
  filesize :: u32

text \<open>The packed structures as the compiler lays them out.\<close>

definition decode_header :: "u8 list \<Rightarrow> fat_h" where
  "decode_header bs =
     \<lparr>primary_header =
        \<lparr>short_jmp_ins = take 3 bs, oem_identifier = take 8 (drop 3 bs), bytes_per_sector = le16 bs 11,
         sectors_per_cluster = bs ! 13, reserved_sectors = le16 bs 14, fat_copies = bs ! 16,
         root_dir_entries = le16 bs 17, number_of_sectors = le16 bs 19, media_type = bs ! 21,
         sectors_per_fat = le16 bs 22, sectors_per_track = le16 bs 24, number_of_heads = le16 bs 26,
         hidden_sectors = le32 bs 28, sectors_big = le32 bs 32\<rparr>,
      extended_header =
        \<lparr>drive_number = bs ! 36, win_nt_bit = bs ! 37, signature = bs ! 38, volume_id = le32 bs 39,
         volume_id_string = take 11 (drop 43 bs), system_id_string = take 8 (drop 54 bs)\<rparr>\<rparr>"

definition FAT_H_SIZE :: int where [kconfig]: "FAT_H_SIZE = 62"
definition FAT_DIRECTORY_ITEM_SIZE :: int where [kconfig]: "FAT_DIRECTORY_ITEM_SIZE = 32"

definition decode_directory_item :: "u8 list \<Rightarrow> fat_directory_item" where
  "decode_directory_item bs =
     \<lparr>filename = take 8 bs, ext = take 3 (drop 8 bs), attribute = bs ! 11, reserved = bs ! 12,
      creation_time_tenths_of_a_sec = bs ! 13, creation_time = le16 bs 14, creation_date = le16 bs 16,
      last_access = le16 bs 18, high_16_bits_first_cluster = le16 bs 20, last_mod_time = le16 bs 22,
      last_mod_date = le16 bs 24, low_16_bits_first_cluster = le16 bs 26, filesize = le32 bs 28\<rparr>"

fun decode_directory :: "u8 list \<Rightarrow> fat_directory_item list" where
  "decode_directory bs =
     (if length bs < 32 then [] else decode_directory_item (take 32 bs) # decode_directory (drop 32 bs))"

declare decode_directory.simps [simp del]

subsection \<open>State\<close>

record fat_directory =
  fd_addr :: u32
  dir_item_addr :: u32
  dir_items :: "fat_directory_item list"
  dir_total :: int
  sector_pos :: int
  ending_sector_pos :: int

text \<open>The tagged union \<open>struct fat_item\<close> with its own address; a NULL pointer inside is \<open>None\<close>.\<close>

datatype fat_item =
    FAT_ITEM_TYPE_DIRECTORY (fi_addr: u32) "fat_directory option"
  | FAT_ITEM_TYPE_FILE (fi_addr: u32) "(u32 \<times> fat_directory_item) option"

record fat_item_descriptor =
  fdesc_addr :: u32
  fdesc_item :: fat_item
  fdesc_pos :: u32

record fat_private =
  fp_addr :: u32
  header :: fat_h
  root_directory :: fat_directory
  cluster_read_stream :: "disk_stream option"
  fat_read_stream :: "disk_stream option"
  directory_stream :: "disk_stream option"

text \<open>The one file system there is; \<open>None\<close> is the NULL pointer of a disk without one.\<close>

datatype fs_type = FAT16_FS

record 'd fatst = "'d dstate" +
  sector_size :: int
  disk_id :: int
  filesystem :: "fs_type option"
  fs_private :: "fat_private option"

definition FAT_FILE_READ_ONLY :: u8 where [kconfig]: "FAT_FILE_READ_ONLY = 0x01"
definition FAT_FILE_SUBDIRECTORY :: u8 where [kconfig]: "FAT_FILE_SUBDIRECTORY = 0x10"
definition KERNEL_FAT16_FAT_ENTRY_SIZE :: int where [kconfig]: "KERNEL_FAT16_FAT_ENTRY_SIZE = 2"
definition KERNEL_FAT16_BAD_SECTOR :: int where [kconfig]: "KERNEL_FAT16_BAD_SECTOR = 0xFF7"

datatype FILE_MODE = FILE_MODE_READ | FILE_MODE_WRITE | FILE_MODE_APPEND | FILE_MODE_INVALID
datatype FILE_SEEK_MODE = SEEK_SET | SEEK_CUR | SEEK_END | SEEK_OTHER

record file_stat =
  stat_flags :: u32
  stat_filesize :: u32

text \<open>Seeking and reading one of the streams kept in \<open>fs_private\<close>: the stream is given by its field
  and the update of that field.\<close>

definition fp_seek ::
    "(fat_private \<Rightarrow> disk_stream option)
      \<Rightarrow> ((disk_stream option \<Rightarrow> disk_stream option) \<Rightarrow> fat_private \<Rightarrow> fat_private)
      \<Rightarrow> ('d, 'a) fatst_scheme \<Rightarrow> int \<Rightarrow> (int \<times> ('d, 'a) fatst_scheme) kresult" where
  "fp_seek fld upd st p =
     (case fs_private st of
        None \<Rightarrow> Inl NullDeref
      | Some fp \<Rightarrow>
          let (res, s) = diskstream_seek (fld fp) p
          in Inr (res, st\<lparr>fs_private := Some (upd (\<lambda>_. s) fp)\<rparr>))"

definition fp_read ::
    "'d port_io \<Rightarrow> (fat_private \<Rightarrow> disk_stream option)
      \<Rightarrow> ((disk_stream option \<Rightarrow> disk_stream option) \<Rightarrow> fat_private \<Rightarrow> fat_private)
      \<Rightarrow> ('d, 'a) fatst_scheme \<Rightarrow> bool \<Rightarrow> int \<Rightarrow> (int \<times> u8 list \<times> ('d, 'a) fatst_scheme) kresult" where
  "fp_read io fld upd st out_null n =
     (case fs_private st of
        None \<Rightarrow> Inl NullDeref
      | Some fp \<Rightarrow>
          kbind (diskstream_read io st (fld fp) out_null n) (\<lambda>(res, bs, s, st').
          Inr (res, bs, st'\<lparr>fs_private := Some (upd (\<lambda>_. s) fp)\<rparr>)))"

subsection \<open>Clusters and the file allocation table\<close>

definition fat16_sector_to_absolute :: "('d, 'a) fatst_scheme \<Rightarrow> int \<Rightarrow> int" where
  "fat16_sector_to_absolute st sector = sector_size st * sector"

text \<open>The loop of \<open>fat16_get_total_items_for_directory\<close>.\<close>

partial_function (option) fat16_count_items ::
    "'d port_io \<Rightarrow> ('d, 'a) fatst_scheme \<Rightarrow> int \<Rightarrow> (int \<times> ('d, 'a) fatst_scheme) kresult option" where
  "fat16_count_items io st cnt =
     (case fp_read io directory_stream directory_stream_update st False FAT_DIRECTORY_ITEM_SIZE of
        Inl e \<Rightarrow> Some (Inl e)
      | Inr r \<Rightarrow>
          let (res, bs, st') = r in
          if res \<noteq> KERNEL_ALL_OK then Some (Inr (- EIO, st'))
          else let item = decode_directory_item bs in
            if filename item ! 0 = 0x00 then Some (Inr (cnt, st'))
            else if filename item ! 0 = 0xE5 then fat16_count_items io st' cnt
            else fat16_count_items io st' (cnt + 1))"

definition or_diverge :: "'b kresult option \<Rightarrow> 'b kresult" where
  "or_diverge r = (case r of None \<Rightarrow> Inl Diverge | Some x \<Rightarrow> x)"

definition fat16_get_total_items_for_directory ::
    "'d port_io \<Rightarrow> ('d, 'a) fatst_scheme \<Rightarrow> int \<Rightarrow> (int \<times> ('d, 'a) fatst_scheme) kresult" where
  "fat16_get_total_items_for_directory io st directory_start_sector =
     kbind (fp_seek directory_stream directory_stream_update st
              (fat16_sector_to_absolute st directory_start_sector)) (\<lambda>(res, st1).
     if res \<noteq> KERNEL_ALL_OK then Inr (- EIO, st1)
     else or_diverge (fat16_count_items io st1 0))"

definition fat16_get_first_cluster :: "fat_directory_item \<Rightarrow> int" where
  "fat16_get_first_cluster item =
     sint (push_bit 16 (ucast (high_16_bits_first_cluster item)) OR ucast (low_16_bits_first_cluster item) :: u32)"

definition fat16_cluster_to_sector :: "fat_private \<Rightarrow> int \<Rightarrow> int" where
  "fat16_cluster_to_sector fp cluster =
     ending_sector_pos (root_directory fp)
       + (cluster - 2) * uint (sectors_per_cluster (primary_header (header fp)))"

definition fat16_get_first_fat_sector :: "fat_private \<Rightarrow> u32" where
  "fat16_get_first_fat_sector fp = ucast (reserved_sectors (primary_header (header fp)))"

definition fat16_get_fat_entry ::
    "'d port_io \<Rightarrow> ('d, 'a) fatst_scheme \<Rightarrow> int \<Rightarrow> (int \<times> ('d, 'a) fatst_scheme) kresult" where
  "fat16_get_fat_entry io st cluster =
     (case fs_private st of
        None \<Rightarrow> Inl NullDeref
      | Some fp \<Rightarrow>
          if fat_read_stream fp = None then Inr (- 1, st)
          else let fat_table_position = fat16_get_first_fat_sector fp * word_of_int (sector_size st) in
            kbind (fp_seek fat_read_stream fat_read_stream_update st
                     (sint (fat_table_position + word_of_int (cluster * KERNEL_FAT16_FAT_ENTRY_SIZE)))) (\<lambda>(res, st1).
            if res < 0 then Inr (res, st1)
            else kbind (fp_read io fat_read_stream fat_read_stream_update st1 False 2) (\<lambda>(res, bs, st2).
              if res < 0 then Inr (res, st2)
              else Inr (uint (le16 bs 0), st2))))"

definition fat16_check_cluster_entry :: "int \<Rightarrow> int" where
  "fat16_check_cluster_entry entry =
     (if entry = 0xFFF8 \<or> entry = 0xFFFF then - EIO
      else if entry = KERNEL_FAT16_BAD_SECTOR then - EIO
      else if entry = 0xFF0 \<or> entry = 0xFF6 then - EIO
      else if entry = 0x00 then - EIO
      else 0)"

text \<open>The loop of \<open>fat16_get_cluster_for_offset\<close>, \<open>n\<close> rounds left.\<close>

primrec fat16_cluster_ahead ::
    "'d port_io \<Rightarrow> nat \<Rightarrow> ('d, 'a) fatst_scheme \<Rightarrow> int \<Rightarrow> (int \<times> ('d, 'a) fatst_scheme) kresult" where
  "fat16_cluster_ahead io 0 st cluster = Inr (cluster, st)"
| "fat16_cluster_ahead io (Suc n) st cluster =
     kbind (fat16_get_fat_entry io st cluster) (\<lambda>(entry, st1).
     if fat16_check_cluster_entry entry < 0 then Inr (- EIO, st1)
     else fat16_cluster_ahead io n st1 entry)"

definition fat16_cluster_bytes :: "('d, 'a) fatst_scheme \<Rightarrow> fat_private \<Rightarrow> int" where
  "fat16_cluster_bytes st fp = uint (sectors_per_cluster (primary_header (header fp))) * sector_size st"

definition fat16_get_cluster_for_offset ::
    "'d port_io \<Rightarrow> ('d, 'a) fatst_scheme \<Rightarrow> int \<Rightarrow> int \<Rightarrow> (int \<times> ('d, 'a) fatst_scheme) kresult" where
  "fat16_get_cluster_for_offset io st starting_cluster offset =
     (case fs_private st of
        None \<Rightarrow> Inl NullDeref
      | Some fp \<Rightarrow>
          let size_of_cluster_bytes = fat16_cluster_bytes st fp in
          if size_of_cluster_bytes = 0 then Inl (Panic ''divide error'')
          else fat16_cluster_ahead io (nat (offset sdiv size_of_cluster_bytes)) st starting_cluster)"

definition fat16_get_next_cluster ::
    "'d port_io \<Rightarrow> ('d, 'a) fatst_scheme \<Rightarrow> int \<Rightarrow> (int \<times> ('d, 'a) fatst_scheme) kresult" where
  "fat16_get_next_cluster io st cluster =
     kbind (fat16_get_fat_entry io st cluster) (\<lambda>(entry, st1).
     if fat16_check_cluster_entry entry < 0 then Inr (- EIO, st1) else Inr (entry, st1))"

text \<open>The loop of \<open>fat16_read_internal_from_stream\<close>; \<open>acc\<close> is what it has written to \<open>out\<close>. The stream is
  always \<open>cluster_read_stream\<close>.\<close>

partial_function (option) fat16_read_clusters ::
    "'d port_io \<Rightarrow> ('d, 'a) fatst_scheme \<Rightarrow> int \<Rightarrow> int \<Rightarrow> int \<Rightarrow> int \<Rightarrow> bool \<Rightarrow> u8 list
      \<Rightarrow> (int \<times> u8 list \<times> ('d, 'a) fatst_scheme) kresult option" where
  "fat16_read_clusters io st res cluster_to_use offset remain out_null acc =
     (if \<not> remain > 0 then Some (Inr (res, acc, st))
      else case fs_private st of
        None \<Rightarrow> Some (Inl NullDeref)
      | Some fp \<Rightarrow>
          let per_cluster_size = fat16_cluster_bytes st fp;
              starting_sector = fat16_cluster_to_sector fp cluster_to_use;
              offset_from_cluster = offset smod per_cluster_size;
              starting_pos = starting_sector * sector_size st + offset_from_cluster;
              total_to_read = min remain (per_cluster_size - offset)
          in if per_cluster_size = 0 then Some (Inl (Panic ''divide error''))
          else case fp_seek cluster_read_stream cluster_read_stream_update st starting_pos of
            Inl e \<Rightarrow> Some (Inl e)
          | Inr (res1, st1) \<Rightarrow>
            if res1 \<noteq> KERNEL_ALL_OK then Some (Inr (res1, acc, st1))
            else case fp_read io cluster_read_stream cluster_read_stream_update st1 out_null total_to_read of
              Inl e \<Rightarrow> Some (Inl e)
            | Inr (res2, bs, st2) \<Rightarrow>
              if res2 \<noteq> KERNEL_ALL_OK then Some (Inr (res2, acc @ bs, st2))
              else if remain - total_to_read > 0 then
                case fat16_get_next_cluster io st2 cluster_to_use of
                  Inl e \<Rightarrow> Some (Inl e)
                | Inr (next, st3) \<Rightarrow>
                  if next < 0 then Some (Inr (next, acc @ bs, st3))
                  else fat16_read_clusters io st3 res2 next (offset + total_to_read) (remain - total_to_read)
                         out_null (acc @ bs)
              else Some (Inr (res2, acc @ bs, st2)))"

definition fat16_read_internal_from_stream ::
    "'d port_io \<Rightarrow> ('d, 'a) fatst_scheme \<Rightarrow> int \<Rightarrow> int \<Rightarrow> int \<Rightarrow> bool
      \<Rightarrow> (int \<times> u8 list \<times> ('d, 'a) fatst_scheme) kresult" where
  "fat16_read_internal_from_stream io st starting_cluster offset count out_null =
     kbind (fat16_get_cluster_for_offset io st starting_cluster offset) (\<lambda>(cluster_to_use, st1).
     if cluster_to_use < 0 then Inr (cluster_to_use, [], st1)
     else or_diverge (fat16_read_clusters io st1 0 cluster_to_use offset count out_null []))"

definition fat16_read_internal ::
    "'d port_io \<Rightarrow> ('d, 'a) fatst_scheme \<Rightarrow> int \<Rightarrow> int \<Rightarrow> int \<Rightarrow> bool
      \<Rightarrow> (int \<times> u8 list \<times> ('d, 'a) fatst_scheme) kresult" where
  "fat16_read_internal io st starting_cluster offset count out_null =
     fat16_read_internal_from_stream io st starting_cluster offset count out_null"

subsection \<open>Directories\<close>

definition fat16_free_directory :: "('d, 'a) fatst_scheme \<Rightarrow> fat_directory option \<Rightarrow> ('d, 'a) fatst_scheme" where
  "fat16_free_directory st directory =
     (case directory of None \<Rightarrow> st | Some d \<Rightarrow> kfree (kfree st (dir_item_addr d)) (fd_addr d))"

definition fat16_load_fat_directory ::
    "'d port_io \<Rightarrow> ('d, 'a) fatst_scheme \<Rightarrow> fat_directory_item
      \<Rightarrow> (fat_directory option \<times> ('d, 'a) fatst_scheme) kresult" where
  "fat16_load_fat_directory io st item =
     (if attribute item AND FAT_FILE_SUBDIRECTORY = 0 then Inr (None, st)
      else let (directory, st1) = kzalloc st 16 in
        if directory = 0 then Inr (None, st1)
        else case fs_private st1 of
          None \<Rightarrow> Inl NullDeref
        | Some fp \<Rightarrow>
            let cluster = fat16_get_first_cluster item;
                cluster_sector = fat16_cluster_to_sector fp cluster
            in kbind (fat16_get_total_items_for_directory io st1 cluster_sector) (\<lambda>(total_items, st2).
            let directory_size = sint (word_of_int (total_items * FAT_DIRECTORY_ITEM_SIZE) :: u32);
                (items, st3) = kzalloc st2 (word_of_int directory_size);
                d = \<lparr>fd_addr = directory, dir_item_addr = items, dir_items = [], dir_total = total_items,
                     sector_pos = 0, ending_sector_pos = 0\<rparr>
            in if items = 0 then Inr (None, fat16_free_directory st3 (Some d))
            else kbind (fat16_read_internal io st3 cluster 0 directory_size False) (\<lambda>(res, bs, st4).
              if res \<noteq> KERNEL_ALL_OK then Inr (None, fat16_free_directory st4 (Some d))
              else Inr (Some (d\<lparr>dir_items := decode_directory bs\<rparr>), st4))))"

definition fat16_clone_directory_item ::
    "('d, 'a) fatst_scheme \<Rightarrow> fat_directory_item \<Rightarrow> int
      \<Rightarrow> (u32 \<times> fat_directory_item) option \<times> ('d, 'a) fatst_scheme" where
  "fat16_clone_directory_item st item sz =
     (if sz < FAT_DIRECTORY_ITEM_SIZE then (None, st)
      else let (item_copy, st1) = kzalloc st (word_of_int sz) in
        if item_copy = 0 then (None, st1) else (Some (item_copy, item), st1))"

definition fat16_new_fat_item_for_directory_item ::
    "'d port_io \<Rightarrow> ('d, 'a) fatst_scheme \<Rightarrow> fat_directory_item
      \<Rightarrow> (fat_item option \<times> ('d, 'a) fatst_scheme) kresult" where
  "fat16_new_fat_item_for_directory_item io st item =
     (let (f_item, st1) = kzalloc st 8 in
      if f_item = 0 then Inr (None, st1)
      else if attribute item AND FAT_FILE_SUBDIRECTORY \<noteq> 0 then
        kbind (fat16_load_fat_directory io st1 item) (\<lambda>(d, st2).
        Inr (Some (FAT_ITEM_TYPE_DIRECTORY f_item d), st2))
      else let (it, st2) = fat16_clone_directory_item st1 item FAT_DIRECTORY_ITEM_SIZE
        in Inr (Some (FAT_ITEM_TYPE_FILE f_item it), st2))"

text \<open>\<open>fat16_to_proper_string\<close> appends to the output; \<open>i\<close> is its counter and \<open>src\<close> the bytes from \<open>in\<close> on.\<close>

fun fat16_to_proper_string :: "u8 list \<Rightarrow> u8 list \<Rightarrow> nat \<Rightarrow> nat \<Rightarrow> u8 list kresult" where
  "fat16_to_proper_string out [] sz i = Inl OutOfBounds"
| "fat16_to_proper_string out (c # src) sz i =
     (if c \<noteq> 0x00 \<and> c \<noteq> 0x20 then
        if i \<ge> sz - 1 then Inr (out @ [c]) else fat16_to_proper_string (out @ [c]) src sz (Suc i)
      else Inr out)"

definition fat16_get_full_relative_filename :: "fat_directory_item \<Rightarrow> nat \<Rightarrow> u8 list kresult" where
  "fat16_get_full_relative_filename item max_len =
     kbind (fat16_to_proper_string [] (filename item @ ext item) 8 0) (\<lambda>name.
     kbind (if ext item ! 0 \<noteq> 0x00 \<and> ext item ! 0 \<noteq> 0x20
            then fat16_to_proper_string (name @ [46]) (ext item @ [attribute item]) 3 0
            else Inr name) (\<lambda>out.
     if length out < max_len then Inr (out @ replicate (max_len - length out) 0) else Inl OutOfBounds))"

text \<open>The loop of \<open>fat16_find_item_in_directory\<close> from index \<open>i\<close> on, \<open>n\<close> entries left; \<open>name\<close> is the
  terminated string.\<close>

primrec fat16_find_loop ::
    "'d port_io \<Rightarrow> nat \<Rightarrow> ('d, 'a) fatst_scheme \<Rightarrow> fat_directory_item list \<Rightarrow> nat \<Rightarrow> u8 list \<Rightarrow> fat_item option
      \<Rightarrow> (fat_item option \<times> ('d, 'a) fatst_scheme) kresult" where
  "fat16_find_loop io 0 st items i name f_item = Inr (f_item, st)"
| "fat16_find_loop io (Suc n) st items i name f_item =
     (if i \<ge> length items then Inl OutOfBounds
      else kbind (fat16_get_full_relative_filename (items ! i) KERNEL_MAX_PATH) (\<lambda>tmp_filename.
        case istrncmp tmp_filename name KERNEL_MAX_PATH of
          None \<Rightarrow> Inl OutOfBounds
        | Some r \<Rightarrow>
            if r = 0 then kbind (fat16_new_fat_item_for_directory_item io st (items ! i)) (\<lambda>(f, st1).
              fat16_find_loop io n st1 items (Suc i) name f)
            else fat16_find_loop io n st items (Suc i) name f_item))"

definition fat16_find_item_in_directory ::
    "'d port_io \<Rightarrow> ('d, 'a) fatst_scheme \<Rightarrow> fat_directory option \<Rightarrow> u8 list
      \<Rightarrow> (fat_item option \<times> ('d, 'a) fatst_scheme) kresult" where
  "fat16_find_item_in_directory io st directory name =
     (case directory of
        None \<Rightarrow> Inl NullDeref
      | Some d \<Rightarrow> fat16_find_loop io (nat (dir_total d)) st (dir_items d) 0 name None)"

definition fat16_fat_item_free :: "('d, 'a) fatst_scheme \<Rightarrow> fat_item \<Rightarrow> ('d, 'a) fatst_scheme" where
  "fat16_fat_item_free st item =
     (case item of
        FAT_ITEM_TYPE_DIRECTORY a d \<Rightarrow>
          kfree (kfree st (case d of None \<Rightarrow> 0 | Some dir \<Rightarrow> fd_addr dir)) a
      | FAT_ITEM_TYPE_FILE a it \<Rightarrow>
          kfree (kfree st (case it of None \<Rightarrow> 0 | Some (p, i) \<Rightarrow> p)) a)"

text \<open>The loop of \<open>fat16_get_directory_entry\<close> over the remaining path parts.\<close>

fun fat16_walk ::
    "'d port_io \<Rightarrow> ('d, 'a) fatst_scheme \<Rightarrow> fat_item \<Rightarrow> path_part list
      \<Rightarrow> (fat_item option \<times> ('d, 'a) fatst_scheme) kresult" where
  "fat16_walk io st current_item [] = Inr (Some current_item, st)"
| "fat16_walk io st current_item (next_part # parts) =
     (case current_item of
        FAT_ITEM_TYPE_FILE a it \<Rightarrow> Inr (None, st)
      | FAT_ITEM_TYPE_DIRECTORY a d \<Rightarrow>
          (case fat16_find_item_in_directory io st d (part next_part @ [0]) of
             Inl e \<Rightarrow> Inl e
           | Inr (None, st1) \<Rightarrow> Inr (None, st1)
           | Inr (Some tmp_item, st1) \<Rightarrow>
               fat16_walk io (fat16_fat_item_free st1 current_item) tmp_item parts))"

definition fat16_get_directory_entry ::
    "'d port_io \<Rightarrow> ('d, 'a) fatst_scheme \<Rightarrow> path_part list
      \<Rightarrow> (fat_item option \<times> ('d, 'a) fatst_scheme) kresult" where
  "fat16_get_directory_entry io st path =
     (case path of
        [] \<Rightarrow> Inl NullDeref
      | p # next_part \<Rightarrow>
          (case fs_private st of
             None \<Rightarrow> Inl NullDeref
           | Some fp \<Rightarrow>
               kbind (fat16_find_item_in_directory io st (Some (root_directory fp)) (part p @ [0])) (\<lambda>(root_item, st1).
               case root_item of
                 None \<Rightarrow> Inr (None, st1)
               | Some it \<Rightarrow> fat16_walk io st1 it next_part)))"

definition fat16_open ::
    "'d port_io \<Rightarrow> ('d, 'a) fatst_scheme \<Rightarrow> path_part list \<Rightarrow> FILE_MODE
      \<Rightarrow> (u32 \<times> fat_item_descriptor option \<times> ('d, 'a) fatst_scheme) kresult" where
  "fat16_open io st path mode =
     (if mode \<noteq> FILE_MODE_READ then Inr (ERROR (- ERDONLY), None, kfree st 0)
      else let (descriptor, st1) = kzalloc st 8 in
        if descriptor = 0 then Inr (ERROR (- ENOMEM), None, kfree st1 0)
        else kbind (fat16_get_directory_entry io st1 path) (\<lambda>(item, st2).
          case item of
            None \<Rightarrow> Inr (ERROR (- EIO), None, kfree st2 descriptor)
          | Some it \<Rightarrow>
              Inr (descriptor, Some \<lparr>fdesc_addr = descriptor, fdesc_item = it, fdesc_pos = 0\<rparr>, st2)))"

subsection \<open>Mounting\<close>

definition fat_directory_zero :: fat_directory where
  "fat_directory_zero = \<lparr>fd_addr = 0, dir_item_addr = 0, dir_items = [], dir_total = 0, sector_pos = 0, ending_sector_pos = 0\<rparr>"

definition fat16_init_private :: "('d, 'a) fatst_scheme \<Rightarrow> u32 \<Rightarrow> fat_private \<times> ('d, 'a) fatst_scheme" where
  "fat16_init_private st p =
     (let (s1, st1) = diskstream_new st (disk_id st);
          (s2, st2) = diskstream_new st1 (disk_id st);
          (s3, st3) = diskstream_new st2 (disk_id st)
      in (\<lparr>fp_addr = p, header = decode_header (replicate 62 0), root_directory = fat_directory_zero,
           cluster_read_stream = s2, fat_read_stream = s1, directory_stream = s3\<rparr>, st3))"

definition fat16_get_root_directory ::
    "'d port_io \<Rightarrow> ('d, 'a) fatst_scheme \<Rightarrow> (int \<times> ('d, 'a) fatst_scheme) kresult" where
  "fat16_get_root_directory io st =
     (case fs_private st of
        None \<Rightarrow> Inl NullDeref
      | Some fp \<Rightarrow>
          let ph = primary_header (header fp);
              root_dir_sector_pos = uint (fat_copies ph) * uint (sectors_per_fat ph) + uint (reserved_sectors ph);
              entries = uint (root_dir_entries ph);
              root_dir_size = entries * FAT_DIRECTORY_ITEM_SIZE;
              total_sectors = root_dir_size sdiv sector_size st
                + (if root_dir_size smod sector_size st \<noteq> 0 then 1 else 0)
          in if sector_size st = 0 then Inl (Panic ''divide error'')
          else kbind (fat16_get_total_items_for_directory io st root_dir_sector_pos) (\<lambda>(total_items, st1).
          let (dir, st2) = kzalloc st1 (word_of_int root_dir_size) in
          if dir = 0 then Inr (- ENOMEM, kfree st2 dir)
          else kbind (fp_seek directory_stream directory_stream_update st2
                        (fat16_sector_to_absolute st2 root_dir_sector_pos)) (\<lambda>(res, st3).
            if res \<noteq> KERNEL_ALL_OK then Inr (- EIO, kfree st3 dir)
            else kbind (fp_read io directory_stream directory_stream_update st3 False root_dir_size) (\<lambda>(res, bs, st4).
              if res \<noteq> KERNEL_ALL_OK then Inr (- EIO, kfree st4 dir)
              else Inr (0, st4\<lparr>fs_private := map_option (\<lambda>fp. fp\<lparr>root_directory :=
                     \<lparr>fd_addr = 0, dir_item_addr = dir, dir_items = decode_directory bs, dir_total = total_items,
                      sector_pos = root_dir_sector_pos,
                      ending_sector_pos = root_dir_sector_pos + total_sectors\<rparr>\<rparr>) (fs_private st4)\<rparr>)))))"

definition fat16_free_private :: "('d, 'a) fatst_scheme \<Rightarrow> fat_private option \<Rightarrow> ('d, 'a) fatst_scheme" where
  "fat16_free_private st priv =
     (case priv of
        None \<Rightarrow> st
      | Some fp \<Rightarrow>
          let st1 = diskstream_close st (cluster_read_stream fp);
              st2 = diskstream_close st1 (fat_read_stream fp);
              st3 = diskstream_close st2 (directory_stream fp)
          in kfree (kfree st3 (dir_item_addr (root_directory fp))) (fp_addr fp))"

definition fat16_resolve :: "'d port_io \<Rightarrow> ('d, 'a) fatst_scheme \<Rightarrow> (int \<times> ('d, 'a) fatst_scheme) kresult" where
  "fat16_resolve io st =
     (let (p, st1) = kzalloc st 92 in
      if p = 0 then Inl NullDeref
      else let (fp, st2) = fat16_init_private st1 p;
               st3 = st2\<lparr>fs_private := Some fp, filesystem := Some FAT16_FS\<rparr>;
               (stream, st4) = diskstream_new st3 (disk_id st);
               out = (\<lambda>res stream st. let st' = diskstream_close st stream in
                  if res < 0 then (res, (fat16_free_private st' (fs_private st'))\<lparr>fs_private := None\<rparr>) else (res, st'))
           in if stream = None then Inr (out (- ENOMEM) stream st4)
           else kbind (diskstream_read io st4 stream False FAT_H_SIZE) (\<lambda>(res, bs, stream', st5).
             if res \<noteq> KERNEL_ALL_OK then Inr (out (- EIO) stream' st5)
             else let st6 = st5\<lparr>fs_private := map_option (\<lambda>fp. fp\<lparr>header := decode_header bs\<rparr>) (fs_private st5)\<rparr> in
               if signature (extended_header (decode_header bs)) \<noteq> 0x29 then Inr (out (- EFSNOTUS) stream' st6)
               else kbind (fat16_get_root_directory io st6) (\<lambda>(res, st7).
                 if res \<noteq> KERNEL_ALL_OK then Inr (out (- EIO) stream' st7)
                 else Inr (out 0 stream' st7))))"

subsection \<open>Open files\<close>

text \<open>The loop of \<open>fat16_read\<close>, \<open>n\<close> members left; \<open>size\<close> is passed on as an \<open>int\<close>.\<close>

primrec fat16_read_loop ::
    "'d port_io \<Rightarrow> nat \<Rightarrow> ('d, 'a) fatst_scheme \<Rightarrow> int \<Rightarrow> int \<Rightarrow> u32 \<Rightarrow> bool \<Rightarrow> int \<Rightarrow> u8 list
      \<Rightarrow> (int \<times> int \<times> u8 list \<times> ('d, 'a) fatst_scheme) kresult" where
  "fat16_read_loop io 0 st cluster offset sz out_null res acc = Inr (res, offset, acc, st)"
| "fat16_read_loop io (Suc n) st cluster offset sz out_null res acc =
     kbind (fat16_read_internal io st cluster offset (sint sz) out_null) (\<lambda>(res', bs, st1).
     if res' < 0 then Inr (res', offset, acc @ bs, st1)
     else fat16_read_loop io n st1 cluster (sint (word_of_int offset + sz)) sz out_null res' (acc @ bs))"

definition fat16_read ::
    "'d port_io \<Rightarrow> ('d, 'a) fatst_scheme \<Rightarrow> fat_item_descriptor \<Rightarrow> u32 \<Rightarrow> u32 \<Rightarrow> bool
      \<Rightarrow> (int \<times> u8 list \<times> fat_item_descriptor \<times> ('d, 'a) fatst_scheme) kresult" where
  "fat16_read io st desc sz nmemb out_null =
     (case fdesc_item desc of
        FAT_ITEM_TYPE_DIRECTORY a d \<Rightarrow> Inr (- EINVAGS, [], desc, st)
      | FAT_ITEM_TYPE_FILE a it \<Rightarrow>
          (case it of
             None \<Rightarrow> Inl NullDeref
           | Some (p, item) \<Rightarrow>
               kbind (fat16_read_loop io (unat nmemb) st (fat16_get_first_cluster item) (sint (fdesc_pos desc)) sz
                        out_null 0 []) (\<lambda>(res, offset, bs, st1).
               if res < 0 then Inr (res, bs, desc, st1)
               else Inr (sint nmemb, bs, desc\<lparr>fdesc_pos := word_of_int offset\<rparr>, st1))))"

definition fat16_seek :: "fat_item_descriptor \<Rightarrow> int \<Rightarrow> FILE_SEEK_MODE \<Rightarrow> (int \<times> fat_item_descriptor) kresult" where
  "fat16_seek desc offset mode =
     (case fdesc_item desc of
        FAT_ITEM_TYPE_DIRECTORY a d \<Rightarrow> Inr (- EINVAGS, desc)
      | FAT_ITEM_TYPE_FILE a it \<Rightarrow>
          (case it of
             None \<Rightarrow> Inl NullDeref
           | Some (p, item) \<Rightarrow>
               Inr (case mode of
                  SEEK_SET \<Rightarrow> if word_of_int offset \<ge> filesize item then (- EINVAGS, desc)
                              else (0, desc\<lparr>fdesc_pos := word_of_int offset\<rparr>)
                | SEEK_END \<Rightarrow> (- ENOIMPL, desc)
                | SEEK_CUR \<Rightarrow> if fdesc_pos desc + word_of_int offset \<ge> filesize item then (- EINVAGS, desc)
                              else (0, desc\<lparr>fdesc_pos := fdesc_pos desc + word_of_int offset\<rparr>)
                | SEEK_OTHER \<Rightarrow> (- EINVAGS, desc))))"

definition FILE_STAT_READ_ONLY :: u32 where [kconfig]: "FILE_STAT_READ_ONLY = 1"

definition fat16_stat :: "fat_item_descriptor \<Rightarrow> file_stat \<Rightarrow> (int \<times> file_stat) kresult" where
  "fat16_stat desc stat =
     (case fdesc_item desc of
        FAT_ITEM_TYPE_DIRECTORY a d \<Rightarrow> Inr (- EINVAGS, stat)
      | FAT_ITEM_TYPE_FILE a it \<Rightarrow>
          (case it of
             None \<Rightarrow> Inl NullDeref
           | Some (p, ritem) \<Rightarrow>
               Inr (0, \<lparr>stat_flags = (if attribute ritem AND FAT_FILE_READ_ONLY \<noteq> 0 then FILE_STAT_READ_ONLY else 0),
                        stat_filesize = filesize ritem\<rparr>)))"

definition fat16_free_descriptor :: "('d, 'a) fatst_scheme \<Rightarrow> fat_item_descriptor \<Rightarrow> ('d, 'a) fatst_scheme" where
  "fat16_free_descriptor st desc = kfree (fat16_fat_item_free st (fdesc_item desc)) (fdesc_addr desc)"

definition fat16_close :: "('d, 'a) fatst_scheme \<Rightarrow> fat_item_descriptor \<Rightarrow> int \<times> ('d, 'a) fatst_scheme" where
  "fat16_close st desc = (0, fat16_free_descriptor st desc)"

subsection \<open>A mounted file system\<close>

text \<open>What holds of a mounted disk between operations: a conforming controller at rest, a sound heap with
  a block to spare, 512-byte sectors and all three streams open.\<close>

definition stream_ok :: "disk_stream option \<Rightarrow> bool" where
  "stream_ok s \<longleftrightarrow> (\<exists>x. s = Some x \<and> ds_disk x = DISK)"

definition fat_ok :: "'d port_io \<Rightarrow> ('d \<Rightarrow> ata_phase) \<Rightarrow> (nat \<Rightarrow> u8 list) \<Rightarrow> fat_private \<Rightarrow> ('d, 'a) fatst_scheme \<Rightarrow> bool" where
  "fat_ok io ph img fp st \<longleftrightarrow> ata_device io ph img \<and> kheap_ok st \<and> heap_used (kernel_heap st) < 25600 \<and>
     ph (device st) = Idle \<and> sector_size st = 512 \<and> fs_private st = Some fp \<and>
     stream_ok (cluster_read_stream fp) \<and> stream_ok (fat_read_stream fp) \<and> stream_ok (directory_stream fp)"

text \<open>What an operation that only reads leaves alone: everything but the device, the stream
  positions and the memory of the sector buffer.\<close>

definition same_volume :: "fat_private \<Rightarrow> fat_private \<Rightarrow> bool" where
  "same_volume fp fp' \<longleftrightarrow> fp_addr fp' = fp_addr fp \<and> header fp' = header fp \<and> root_directory fp' = root_directory fp"

definition fat_step :: "'d port_io \<Rightarrow> ('d \<Rightarrow> ata_phase) \<Rightarrow> (nat \<Rightarrow> u8 list) \<Rightarrow> fat_private \<Rightarrow> ('d, 'a) fatst_scheme
    \<Rightarrow> ('d, 'a) fatst_scheme \<Rightarrow> bool" where
  "fat_step io ph img fp st st' \<longleftrightarrow>
     (\<exists>fp' d' m'. fat_ok io ph img fp' st' \<and> same_volume fp fp' \<and>
       st' = st\<lparr>device := d', kmem := m', fs_private := Some fp'\<rparr>)"

definition stream_field ::
    "(fat_private \<Rightarrow> disk_stream option)
      \<Rightarrow> ((disk_stream option \<Rightarrow> disk_stream option) \<Rightarrow> fat_private \<Rightarrow> fat_private) \<Rightarrow> bool" where
  "stream_field fld upd \<longleftrightarrow> (fld, upd) \<in> {(cluster_read_stream, cluster_read_stream_update),
     (fat_read_stream, fat_read_stream_update), (directory_stream, directory_stream_update)}"

lemma stream_fields [simp]:
  "stream_field cluster_read_stream cluster_read_stream_update"
  "stream_field fat_read_stream fat_read_stream_update"
  "stream_field directory_stream directory_stream_update"
  by (simp_all add: stream_field_def)

lemma stream_field_upd:
  assumes "stream_field fld upd"
  shows "fld (upd f fp) = f (fld fp)" "same_volume fp (upd f fp)"
  using assms by (auto simp: stream_field_def same_volume_def)

lemma same_volume_trans: "same_volume a b \<Longrightarrow> same_volume b c \<Longrightarrow> same_volume a c"
  by (simp add: same_volume_def)

lemma fat_ok_upd:
  assumes "fat_ok io ph img fp st" "stream_field fld upd" "stream_ok s"
  shows "fat_ok io ph img (upd (\<lambda>_. s) fp) (st\<lparr>fs_private := Some (upd (\<lambda>_. s) fp)\<rparr>)"
  using assms by (auto simp: fat_ok_def stream_field_def kheap_ok_def)

lemma fat_ok_stream: "fat_ok io ph img fp st \<Longrightarrow> stream_field fld upd \<Longrightarrow> stream_ok (fld fp)"
  by (auto simp: fat_ok_def stream_field_def)

lemma fp_seek_ok:
  assumes ok: "fat_ok io ph img fp st" and f: "stream_field fld upd"
  obtains x where "ds_disk x = DISK" "pos x = p"
    "fp_seek fld upd st p = Inr (0, st\<lparr>fs_private := Some (upd (\<lambda>_. Some x) fp)\<rparr>)"
proof -
  from fat_ok_stream [OF ok f] obtain s where s: "fld fp = Some s" "ds_disk s = DISK" by (auto simp: stream_ok_def)
  have "fs_private st = Some fp" using ok by (simp add: fat_ok_def)
  with s that [of "s\<lparr>pos := p\<rparr>"] show thesis by (simp add: fp_seek_def diskstream_seek_def)
qed

lemma fp_seek_read:
  assumes ok: "fat_ok io ph img fp st" and f: "stream_field fld upd" and n: "p + n < 2 ^ 31"
  obtains st1 st2 where "fp_seek fld upd st (int p) = Inr (0, st1)"
    "fp_read io fld upd st1 False (int n) = Inr (0, disk_bytes img p n, st2)"
    "fat_step io ph img fp st st2"
proof -
  obtain x where x: "ds_disk x = DISK" "pos x = int p"
    "fp_seek fld upd st (int p) = Inr (0, st\<lparr>fs_private := Some (upd (\<lambda>_. Some x) fp)\<rparr>)"
    by (rule fp_seek_ok [OF ok f])
  let ?fp1 = "upd (\<lambda>_. Some x) fp" and ?st1 = "st\<lparr>fs_private := Some (upd (\<lambda>_. Some x) fp)\<rparr>"
  have ok1: "fat_ok io ph img ?fp1 ?st1" by (rule fat_ok_upd [OF ok f]) (simp add: stream_ok_def x)
  have dev: "ata_device io ph img" "kheap_ok ?st1" "heap_used (kernel_heap ?st1) < 25600" "ph (device ?st1) = Idle"
    using ok1 by (simp_all add: fat_ok_def)
  obtain d' m' where r: "diskstream_read io ?st1 (Some x) False (int n) =
      Inr (0, disk_bytes img p n, Some (x\<lparr>pos := int (p + n)\<rparr>), ?st1\<lparr>device := d', kmem := m'\<rparr>)" "ph d' = Idle"
    using diskstream_read_bytes [OF dev x(1,2) n] by blast
  let ?fp2 = "upd (\<lambda>_. Some (x\<lparr>pos := int (p + n)\<rparr>)) ?fp1"
  let ?st2 = "?st1\<lparr>device := d', kmem := m', fs_private := Some ?fp2\<rparr>"
  have rd: "fp_read io fld upd ?st1 False (int n) = Inr (0, disk_bytes img p n, ?st2)"
    using r(1) stream_field_upd(1) [OF f] by (simp add: fp_read_def)
  have "fat_ok io ph img ?fp2 (?st1\<lparr>fs_private := Some ?fp2\<rparr>)"
    using fat_ok_upd [OF ok1 f, of "Some (x\<lparr>pos := int (p + n)\<rparr>)"] x(1) by (simp add: stream_ok_def)
  then have "fat_ok io ph img ?fp2 ?st2" using r(2) by (simp add: fat_ok_def kheap_ok_def)
  moreover have "same_volume fp ?fp2"
    by (rule same_volume_trans [OF stream_field_upd(2) [OF f] stream_field_upd(2) [OF f]])
  ultimately have "fat_step io ph img fp st ?st2"
    unfolding fat_step_def by (intro exI [of _ ?fp2] exI [of _ d'] exI [of _ m']) simp
  with that x(3) rd show thesis by blast
qed

lemma fat_step_ok: "fat_step io ph img fp st st' \<Longrightarrow> \<exists>fp'. fat_ok io ph img fp' st' \<and> same_volume fp fp'"
  by (auto simp: fat_step_def)

lemma fat_step_trans:
  assumes "fat_step io ph img fp st st1" "fat_ok io ph img fp1 st1" "fat_step io ph img fp1 st1 st2"
  shows "fat_step io ph img fp st st2"
proof -
  obtain q d m where q: "same_volume fp q" "st1 = st\<lparr>device := d, kmem := m, fs_private := Some q\<rparr>"
    using assms(1) by (auto simp: fat_step_def)
  obtain q' d' m' where q': "fat_ok io ph img q' st2" "same_volume fp1 q'"
    "st2 = st1\<lparr>device := d', kmem := m', fs_private := Some q'\<rparr>"
    using assms(3) by (auto simp: fat_step_def)
  have "fs_private st1 = Some fp1" using assms(2) by (simp add: fat_ok_def)
  then have "same_volume fp fp1" using q by simp
  from same_volume_trans [OF this q'(2)] q' q(2) show ?thesis
    unfolding fat_step_def by (intro exI [of _ q'] exI [of _ d'] exI [of _ m']) simp
qed

subsection \<open>The allocation table\<close>

text \<open>The entry of a cluster in the first copy of the table.\<close>

definition fat_entry :: "(nat \<Rightarrow> u8 list) \<Rightarrow> fat_private \<Rightarrow> nat \<Rightarrow> u16" where
  "fat_entry img fp c = le16 (disk_bytes img (unat (reserved_sectors (primary_header (header fp))) * 512 + 2 * c) 2) 0"

lemma sint_of_nat_u32: "n < 2 ^ 31 \<Longrightarrow> sint (of_nat n :: u32) = int n"
  using sint_eq_uint_low [of "of_nat n"] unat_of_nat_u32 [of n] by (simp add: uint_nat)

lemma unat_u16_less: "unat (x :: u16) < 65536"
  using unsigned_less [of x, where 'a = nat] by simp

lemma fat16_get_fat_entry_ok:
  assumes ok: "fat_ok io ph img fp st" and c: "c < 2 ^ 16"
  obtains st' where "fat16_get_fat_entry io st (int c) = Inr (uint (fat_entry img fp c), st')"
    "fat_step io ph img fp st st'"
proof -
  let ?r = "unat (reserved_sectors (primary_header (header fp)))"
  have small: "?r * 512 + 2 * c + 2 < 2 ^ 31"
    using unat_u16_less [of "reserved_sectors (primary_header (header fp))"] c by simp
  have "fat16_get_first_fat_sector fp * word_of_int 512 + word_of_int (int c * 2) = of_nat (?r * 512 + 2 * c)"
    by (simp add: fat16_get_first_fat_sector_def mult.commute)
  then have p: "sint (fat16_get_first_fat_sector fp * word_of_int 512 + word_of_int (int c * 2)) = int (?r * 512 + 2 * c)"
    using sint_of_nat_u32 [of "?r * 512 + 2 * c"] small by (simp only:)
  from fp_seek_read [OF ok stream_fields(2) small] obtain st1 st2
    where s: "fp_seek fat_read_stream fat_read_stream_update st (int (?r * 512 + 2 * c)) = Inr (0, st1)"
      "fp_read io fat_read_stream fat_read_stream_update st1 False (int 2) =
         Inr (0, disk_bytes img (?r * 512 + 2 * c) 2, st2)"
      "fat_step io ph img fp st st2" .
  have st: "fs_private st = Some fp" "sector_size st = 512" and "(fat_read_stream fp = None) = False"
    using ok by (auto simp: fat_ok_def stream_ok_def)
  then have "fat16_get_fat_entry io st (int c) = Inr (uint (fat_entry img fp c), st2)"
    unfolding fat16_get_fat_entry_def Let_def st option.case KERNEL_FAT16_FAT_ENTRY_SIZE_def p s(1)
      kbind_simps prod.case using s(2) by (auto simp: fat_entry_def)
  with s(3) that show thesis by blast
qed

subsection \<open>Reading file data\<close>

text \<open>Where a cluster's data lies on the disk.\<close>

definition cluster_start :: "fat_private \<Rightarrow> int \<Rightarrow> int" where
  "cluster_start fp c = fat16_cluster_to_sector fp c * 512"

definition cluster_size :: "fat_private \<Rightarrow> nat" where
  "cluster_size fp = unat (sectors_per_cluster (primary_header (header fp))) * 512"

lemma cluster_bytes_eq: "fat_ok io ph img fp st \<Longrightarrow> fat16_cluster_bytes st fp = int (cluster_size fp)"
  by (simp add: fat16_cluster_bytes_def cluster_size_def fat_ok_def)

lemma fat16_read_clusters_one:
  assumes ok: "fat_ok io ph img fp st" and in_cluster: "off + n \<le> cluster_size fp" and n: "0 < n"
    and start: "cluster_start fp c = int p" and bound: "p + off + n < 2 ^ 31"
  obtains st' where "fat16_read_clusters io st 0 c (int off) (int n) False [] =
      Some (Inr (0, disk_bytes img (p + off) n, st'))" "fat_step io ph img fp st st'"
proof -
  have cs: "fat16_cluster_bytes st fp = int (cluster_size fp)" by (rule cluster_bytes_eq [OF ok])
  have st: "fs_private st = Some fp" "sector_size st = 512" using ok by (simp_all add: fat_ok_def)
  have "int off < int (cluster_size fp)" using in_cluster n by simp
  then have "int off smod int (cluster_size fp) = int off"
    by (simp add: smod_nonneg)
  then have sp: "fat16_cluster_to_sector fp c * 512 + int off smod int (cluster_size fp) = int (p + off)"
    using start by (simp add: cluster_start_def)
  have m: "min (int n) (int (cluster_size fp) - int off) = int n" using in_cluster by simp
  from fp_seek_read [OF ok stream_fields(1) bound] obtain st1 st2
    where r: "fp_seek cluster_read_stream cluster_read_stream_update st (int (p + off)) = Inr (0, st1)"
      "fp_read io cluster_read_stream cluster_read_stream_update st1 False (int n) = Inr (0, disk_bytes img (p + off) n, st2)"
      "fat_step io ph img fp st st2" .
  have ne: "cluster_size fp \<noteq> 0" using in_cluster n by simp
  have "fat16_read_clusters io st 0 c (int off) (int n) False [] = Some (Inr (0, disk_bytes img (p + off) n, st2))"
    unfolding fat16_read_clusters.simps [of io st] Let_def st option.case cs sp m r(1) sum.case prod.case r(2)
    using n ne by (simp add: kconfig)
  with r(3) that show thesis by blast
qed

lemma fat16_read_internal_one:
  assumes ok: "fat_ok io ph img fp st" and in_cluster: "off + n \<le> cluster_size fp" and n: "0 < n"
    and start: "cluster_start fp c = int p" and bound: "p + off + n < 2 ^ 31" and c: "0 \<le> c"
  obtains st' where "fat16_read_internal io st c (int off) (int n) False =
      Inr (0, disk_bytes img (p + off) n, st')" "fat_step io ph img fp st st'"
proof -
  have "int off sdiv int (cluster_size fp) = 0"
    using in_cluster n by (simp add: smod_nonneg)
  then have "fat16_get_cluster_for_offset io st c (int off) = Inr (c, st)"
    using cluster_bytes_eq [OF ok] ok in_cluster n by (simp add: fat16_get_cluster_for_offset_def fat_ok_def Let_def)
  moreover obtain st' where "fat16_read_clusters io st 0 c (int off) (int n) False [] =
      Some (Inr (0, disk_bytes img (p + off) n, st'))" "fat_step io ph img fp st st'"
    by (rule fat16_read_clusters_one [OF ok in_cluster n start bound])
  ultimately show thesis
    using that [of st'] c by (simp add: fat16_read_internal_def fat16_read_internal_from_stream_def or_diverge_def)
qed

subsection \<open>Reading past one cluster\<close>

lemma fp_seek_volume:
  "fp_seek fld upd st p = Inr (r, st') \<Longrightarrow> stream_field fld upd \<Longrightarrow> fs_private st = Some fp \<Longrightarrow>
     \<exists>fp'. fs_private st' = Some fp' \<and> same_volume fp fp' \<and> sector_size st' = sector_size st"
  using stream_field_upd(2) [of fld upd] by (auto simp: fp_seek_def split: prod.splits)

lemma diskstream_read_fs:
  fixes st :: "('d, 'a) fatst_scheme"
  shows "diskstream_read io st s b n = Inr (r, bs, s', st') \<Longrightarrow>
     fs_private st' = fs_private st \<and> sector_size st' = sector_size st"
  by (auto simp: diskstream_read_def kmalloc_def kfree_def kbind_Inr_iff Let_def split: option.splits if_splits prod.splits)

lemma fp_read_volume:
  assumes "fp_read io fld upd st b n = Inr (r, bs, st')" "stream_field fld upd" "fs_private st = Some fp"
  shows "\<exists>fp'. fs_private st' = Some fp' \<and> same_volume fp fp' \<and> sector_size st' = sector_size st"
  using assms stream_field_upd(2) [of fld upd] diskstream_read_fs
  by (fastforce simp: fp_read_def kbind_Inr_iff)

lemma fat16_get_fat_entry_volume:
  assumes "fat16_get_fat_entry io st c = Inr (r, st')" "fs_private st = Some fp"
  shows "\<exists>fp'. fs_private st' = Some fp' \<and> same_volume fp fp' \<and> sector_size st' = sector_size st"
proof (cases "fat_read_stream fp")
  case None
  with assms show ?thesis by (auto simp: fat16_get_fat_entry_def same_volume_def)
next
  case (Some s)
  with assms obtain p r1 st1 where s1: "fp_seek fat_read_stream fat_read_stream_update st p = Inr (r1, st1)"
    and rest: "r1 < 0 \<and> st' = st1 \<or> (\<exists>r2 bs. fp_read io fat_read_stream fat_read_stream_update st1 False 2 = Inr (r2, bs, st'))"
    by (auto simp: fat16_get_fat_entry_def Let_def kbind_Inr_iff split: if_splits)
  from fp_seek_volume [OF s1 stream_fields(2) assms(2)] obtain fp1 where
    f1: "fs_private st1 = Some fp1" "same_volume fp fp1" "sector_size st1 = sector_size st" by auto
  from rest fp_read_volume [OF _ stream_fields(2) f1(1)] f1 show ?thesis
    using same_volume_trans by fastforce
qed

lemma fat16_get_next_cluster_volume:
  assumes "fat16_get_next_cluster io st c = Inr (r, st')" "fs_private st = Some fp"
  shows "\<exists>fp'. fs_private st' = Some fp' \<and> same_volume fp fp' \<and> sector_size st' = sector_size st"
  using assms fat16_get_fat_entry_volume [of io st c _ st' fp]
  by (auto simp: fat16_get_next_cluster_def kbind_Inr_iff split: if_splits)

lemma same_volume_bytes:
  "same_volume fp fp' \<Longrightarrow> sector_size st' = sector_size st \<Longrightarrow> fat16_cluster_bytes st' fp' = fat16_cluster_bytes st fp"
  by (simp add: same_volume_def fat16_cluster_bytes_def)

lemma diskstream_read_negative: "n < 0 \<Longrightarrow> diskstream_read io st s b n = Inr (r, bs, s', st') \<Longrightarrow> r \<noteq> KERNEL_ALL_OK"
  by (auto simp: diskstream_read_def kconfig split: option.splits)

lemma fp_read_negative: "n < 0 \<Longrightarrow> fp_read io fld upd st b n = Inr (r, bs, st') \<Longrightarrow> r \<noteq> KERNEL_ALL_OK"
  by (auto simp: fp_read_def kbind_Inr_iff split: option.splits dest: diskstream_read_negative)

text \<open>Once the offset has reached the cluster size, every further round asks for no bytes or for a
  negative number of them: the loop can only end in an error.\<close>

lemma fat16_read_clusters_stuck:
  "fat16_read_clusters io st res c off remain b acc = Some r \<Longrightarrow>
     (\<forall>fp. fs_private st = Some fp \<longrightarrow> fat16_cluster_bytes st fp \<le> off \<longrightarrow> 0 < remain \<longrightarrow>
        (\<forall>res' bs st'. r = Inr (res', bs, st') \<longrightarrow> res' \<noteq> KERNEL_ALL_OK))"
proof (induction rule: fat16_read_clusters.raw_induct [rotated 1, consumes 1])
  case (1 rec io st res c off remain b acc r)
  show ?case
  proof (intro allI impI)
    fix fp res' bs st'
    assume fp: "fs_private st = Some fp" and le: "fat16_cluster_bytes st fp \<le> off" and pos: "0 < remain"
      and r: "r = Inr (res', bs, st')"
    let ?cs = "fat16_cluster_bytes st fp" and ?k = "min remain (fat16_cluster_bytes st fp - off)"
    let ?p = "fat16_cluster_to_sector fp c * sector_size st + off smod ?cs"
    have k: "?k \<le> 0" and more: "?cs - off < remain" using le pos by auto
    note body = 1(2) [unfolded fp option.case Let_def]
    have cs: "?cs \<noteq> 0" using body pos r by (auto split: if_splits)
    obtain r1 st1 where s1: "fp_seek cluster_read_stream cluster_read_stream_update st ?p = Inr (r1, st1)"
      using body pos r cs by (auto split: sum.splits if_splits)
    show "res' \<noteq> KERNEL_ALL_OK"
    proof (cases "r1 = KERNEL_ALL_OK")
      case False
      then show ?thesis using body pos r cs s1 by auto
    next
      case True
      then obtain r2 bs2 st2 where
        s2: "fp_read io cluster_read_stream cluster_read_stream_update st1 b ?k = Inr (r2, bs2, st2)"
        using body pos r cs s1 by (auto split: sum.splits if_splits)
      show ?thesis
      proof (cases "r2 = KERNEL_ALL_OK")
        case False
        then show ?thesis using body pos r cs s1 s2 True by auto
      next
        case r2: True
        then have k0: "?k = 0" using fp_read_negative [OF _ s2] k by force
        have next_eq: "(case fat16_get_next_cluster io st2 c of Inl e \<Rightarrow> Some (Inl e)
            | Inr (next, st3) \<Rightarrow> if next < 0 then Some (Inr (next, acc @ bs2, st3))
                else rec io st3 KERNEL_ALL_OK next (off + ?k) (remain - ?k) b (acc @ bs2)) = Some r"
          using body pos cs s1 s2 True r2 more by simp
        then obtain nx st3 where s3: "fat16_get_next_cluster io st2 c = Inr (nx, st3)"
          using r by (auto split: sum.splits)
        show ?thesis
        proof (cases "nx < 0")
          case True
          with next_eq s3 r show ?thesis by (auto simp: kconfig)
        next
          case False
          with next_eq s3 k0 have "rec io st3 KERNEL_ALL_OK nx off remain b (acc @ bs2) = Some r" by simp
          note ih = 1(1) [OF this, rule_format, OF _ _ pos r]
          obtain fp1 fp2 fp3 where v: "fs_private st1 = Some fp1" "same_volume fp fp1" "sector_size st1 = sector_size st"
            "fs_private st2 = Some fp2" "same_volume fp1 fp2" "sector_size st2 = sector_size st1"
            "fs_private st3 = Some fp3" "same_volume fp2 fp3" "sector_size st3 = sector_size st2"
            using fp_seek_volume [OF s1 stream_fields(1) fp] fp_read_volume [OF s2 stream_fields(1)]
              fat16_get_next_cluster_volume [OF s3] by metis
          have sv: "same_volume fp fp3" and ss: "sector_size st3 = sector_size st"
            using v by (blast intro: same_volume_trans, simp)
          with same_volume_bytes [OF sv ss] le have "fat16_cluster_bytes st3 fp3 \<le> off" by simp
          with ih [OF v(7)] show ?thesis .
        qed
      qed
    qed
  qed
qed

lemma fat16_read_clusters_long:
  assumes fp: "fs_private st = Some fp" and cs: "0 < fat16_cluster_bytes st fp"
    and long: "fat16_cluster_bytes st fp < off + remain" and off: "0 \<le> off"
    and r: "fat16_read_clusters io st res c off remain b acc = Some (Inr (res', bs, st'))" and pos: "0 < remain"
  shows "res' \<noteq> KERNEL_ALL_OK"
proof (cases "fat16_cluster_bytes st fp \<le> off")
  case True
  with fat16_read_clusters_stuck [OF r] fp pos show ?thesis by blast
next
  case False
  let ?cs = "fat16_cluster_bytes st fp"
  have k: "min remain (?cs - off) = ?cs - off" and more: "?cs - off < remain" using long False by auto
  let ?p = "fat16_cluster_to_sector fp c * sector_size st + off smod ?cs"
  note body = r [unfolded fat16_read_clusters.simps [of io st] fp option.case Let_def k]
  show ?thesis
  proof (cases "\<exists>st1 bs2 st2. fp_seek cluster_read_stream cluster_read_stream_update st ?p = Inr (KERNEL_ALL_OK, st1) \<and>
      fp_read io cluster_read_stream cluster_read_stream_update st1 b (?cs - off) = Inr (KERNEL_ALL_OK, bs2, st2)")
    case False
    with body pos cs more show ?thesis by (auto split: sum.splits if_splits)
  next
    case True
    then obtain st1 bs2 st2 where s: "fp_seek cluster_read_stream cluster_read_stream_update st ?p = Inr (KERNEL_ALL_OK, st1)"
      "fp_read io cluster_read_stream cluster_read_stream_update st1 b (?cs - off) = Inr (KERNEL_ALL_OK, bs2, st2)"
      by blast
    have next_eq: "(case fat16_get_next_cluster io st2 c of Inl e \<Rightarrow> Some (Inl e)
        | Inr (next, st3) \<Rightarrow> if next < 0 then Some (Inr (next, acc @ bs2, st3))
            else fat16_read_clusters io st3 KERNEL_ALL_OK next (off + (?cs - off)) (remain - (?cs - off)) b (acc @ bs2)) =
        Some (Inr (res', bs, st'))"
      using body pos cs s more by simp
    then obtain nx st3 where s3: "fat16_get_next_cluster io st2 c = Inr (nx, st3)" by (auto split: sum.splits)
    show ?thesis
    proof (cases "nx < 0")
      case True
      with next_eq s3 show ?thesis by (auto simp: kconfig)
    next
      case False
      with next_eq s3 have rd: "fat16_read_clusters io st3 KERNEL_ALL_OK nx (off + (?cs - off)) (remain - (?cs - off)) b
          (acc @ bs2) = Some (Inr (res', bs, st'))" by simp
      obtain fp1 fp2 fp3 where v: "same_volume fp fp1" "sector_size st1 = sector_size st"
        "same_volume fp1 fp2" "sector_size st2 = sector_size st1"
        "fs_private st3 = Some fp3" "same_volume fp2 fp3" "sector_size st3 = sector_size st2"
        using fp_seek_volume [OF s(1) stream_fields(1) fp] fp_read_volume [OF s(2) stream_fields(1)]
          fat16_get_next_cluster_volume [OF s3] by metis
      have sv: "same_volume fp fp3" and ss: "sector_size st3 = sector_size st"
        using v by (blast intro: same_volume_trans, simp)
      have "fat16_cluster_bytes st3 fp3 = ?cs" by (rule same_volume_bytes [OF sv ss])
      with fat16_read_clusters_stuck [OF rd, rule_format, OF v(5)] more show ?thesis by simp
    qed
  qed
qed

subsection \<open>Names\<close>

definition name_char :: "u8 \<Rightarrow> bool" where
  "name_char c \<longleftrightarrow> c \<noteq> 0x00 \<and> c \<noteq> 0x20"

text \<open>A directory entry's name as the user writes it: the base name without padding, and the
  extension after a dot when there is one.\<close>

definition short_name :: "fat_directory_item \<Rightarrow> u8 list" where
  "short_name item = takeWhile name_char (filename item) @
     (if name_char (ext item ! 0) then 46 # takeWhile name_char (ext item) else [])"

definition item_ok :: "fat_directory_item \<Rightarrow> bool" where
  "item_ok item \<longleftrightarrow> length (filename item) = 8 \<and> length (ext item) = 3"

lemma fat16_to_proper_string_eq:
  assumes "i < sz" "sz - i \<le> length src"
  shows "fat16_to_proper_string out src sz i = Inr (out @ takeWhile name_char (take (sz - i) src))"
  using assms
proof (induction out src sz i rule: fat16_to_proper_string.induct)
  case (2 out c src sz i)
  then obtain d where d: "sz - i = Suc d" by (metis Suc_diff_Suc)
  then have "sz - Suc i = d" "(sz - 1 \<le> i) = (d = 0)" using 2 by auto
  with 2 d show ?case by (auto simp: name_char_def)
qed simp

lemma short_name_length: "item_ok item \<Longrightarrow> length (short_name item) \<le> 12"
  using length_takeWhile_le [of name_char "filename item"] length_takeWhile_le [of name_char "ext item"]
  by (auto simp: short_name_def item_ok_def)

lemma short_name_nonzero: "0 \<notin> set (short_name item)"
  by (auto simp: short_name_def name_char_def dest: set_takeWhileD)

lemma full_relative_filename_eq:
  assumes "item_ok item"
  shows "fat16_get_full_relative_filename item KERNEL_MAX_PATH =
    Inr (short_name item @ replicate (KERNEL_MAX_PATH - length (short_name item)) 0)"
proof -
  have e: "length (filename item) = 8" "length (ext item) = 3" using assms by (simp_all add: item_ok_def)
  have "length (short_name item) < KERNEL_MAX_PATH" using short_name_length [OF assms] by (simp add: kconfig)
  moreover have "fat16_to_proper_string [] (filename item @ ext item) 8 0 = Inr (takeWhile name_char (filename item))"
    using fat16_to_proper_string_eq [of 0 8 "filename item @ ext item" "[]"] e by simp
  moreover have "fat16_to_proper_string (n @ [46]) (ext item @ [attribute item]) 3 0 =
      Inr (n @ 46 # takeWhile name_char (ext item))" for n
    using fat16_to_proper_string_eq [of 0 3 "ext item @ [attribute item]" "n @ [46]"] e by simp
  ultimately show ?thesis
    unfolding fat16_get_full_relative_filename_def name_char_def [of "ext item ! 0", symmetric]
    by (cases "name_char (ext item ! 0)") (simp_all add: short_name_def)
qed

text \<open>An entry answers to every spelling of its name.\<close>

definition name_matches :: "fat_directory_item \<Rightarrow> u8 list \<Rightarrow> bool" where
  "name_matches item name \<longleftrightarrow> map tolower (short_name item) = map tolower name"

lemma istrncmp_name:
  assumes "item_ok item" "0 \<notin> set name" "length name \<le> KERNEL_MAX_PATH"
  shows "\<exists>r. istrncmp (short_name item @ replicate (KERNEL_MAX_PATH - length (short_name item)) 0) (name @ [0])
      KERNEL_MAX_PATH = Some r \<and> (r = 0 \<longleftrightarrow> name_matches item name)"
proof -
  let ?t = "short_name item @ replicate (KERNEL_MAX_PATH - length (short_name item)) 0"
  have l: "length (short_name item) < KERNEL_MAX_PATH" using short_name_length [OF assms(1)] by (simp add: kconfig)
  then obtain k where "KERNEL_MAX_PATH - length (short_name item) = Suc k" by (metis Suc_diff_Suc)
  then have t: "?t = short_name item @ 0 # replicate k 0" by simp
  have c: "is_cstr ?t" "cstr ?t = short_name item" "is_cstr (name @ [0])" "cstr (name @ [0]) = name"
    unfolding t using short_name_nonzero assms(2) by simp_all
  have z: "istrncmp ?t (name @ [0]) KERNEL_MAX_PATH = Some 0 \<longleftrightarrow> name_matches item name"
    using istrncmp_zero_iff [OF c(1,3)] c(2,4) l assms(3) by (simp add: name_matches_def)
  have "istrncmp s1 s2 n \<noteq> None" if "is_cstr s1" "is_cstr s2" for s1 s2 n
    using that by (induction s1 s2 n rule: istrncmp.induct) (auto simp: Let_def)
  then obtain r where r: "istrncmp ?t (name @ [0]) KERNEL_MAX_PATH = Some r" using c by fastforce
  with z show ?thesis by auto
qed

subsection \<open>Opening a file\<close>

lemma fat16_find_step:
  assumes "i < length items" "item_ok (items ! i)" "0 \<notin> set name" "length name \<le> KERNEL_MAX_PATH"
  shows "fat16_find_loop io (Suc n) st items i (name @ [0]) f =
    (if name_matches (items ! i) name
     then kbind (fat16_new_fat_item_for_directory_item io st (items ! i)) (\<lambda>(f', st1).
       fat16_find_loop io n st1 items (Suc i) (name @ [0]) f')
     else fat16_find_loop io n st items (Suc i) (name @ [0]) f)"
proof -
  from istrncmp_name [OF assms(2-4)] obtain r where
    "istrncmp (short_name (items ! i) @ replicate (KERNEL_MAX_PATH - length (short_name (items ! i))) 0) (name @ [0])
      KERNEL_MAX_PATH = Some r" "(r = 0) = name_matches (items ! i) name" by auto
  moreover have "(length items \<le> i) = False" using assms(1) by simp
  ultimately show ?thesis by (simp add: full_relative_filename_eq [OF assms(2)])
qed

lemma fat16_find_loop_append:
  assumes "i + m \<le> length items" "\<forall>item \<in> set items. item_ok item"
    and "\<forall>j. i \<le> j \<and> j < i + m \<longrightarrow> \<not> name_matches (items ! j) name"
    and "0 \<notin> set name" "length name \<le> KERNEL_MAX_PATH"
  shows "fat16_find_loop io (m + n) st items i (name @ [0]) f = fat16_find_loop io n st items (i + m) (name @ [0]) f"
  using assms(1,3)
proof (induction m arbitrary: i)
  case (Suc m)
  have "\<not> name_matches (items ! i) name" using Suc.prems(2) by simp
  moreover have "fat16_find_loop io (m + n) st items (Suc i) (name @ [0]) f =
      fat16_find_loop io n st items (Suc i + m) (name @ [0]) f"
    by (rule Suc.IH) (use Suc.prems in auto)
  ultimately show ?case
    using fat16_find_step [of i items name io "m + n" st f] Suc.prems(1) assms(2,4,5) by simp
qed simp

lemma fat16_find_loop_unique:
  assumes k: "k < n" "n \<le> length items" and all: "\<forall>item \<in> set items. item_ok item"
    and other: "\<forall>j < n. j \<noteq> k \<longrightarrow> \<not> name_matches (items ! j) name" and match: "name_matches (items ! k) name"
    and name: "0 \<notin> set name" "length name \<le> KERNEL_MAX_PATH"
    and new: "fat16_new_fat_item_for_directory_item io st (items ! k) = Inr (f, st')"
  shows "fat16_find_loop io n st items 0 (name @ [0]) None = Inr (f, st')"
proof -
  have "n = k + Suc (n - k - 1)" using k(1) by simp
  then have "fat16_find_loop io n st items 0 (name @ [0]) None =
      fat16_find_loop io (Suc (n - k - 1)) st items k (name @ [0]) None"
    using fat16_find_loop_append [of 0 k items name io "Suc (n - k - 1)" st None] k all other name by simp
  also have "\<dots> = fat16_find_loop io (n - k - 1) st' items (Suc k) (name @ [0]) f"
    using fat16_find_step [of k items name io "n - k - 1" st None] k all match new name by simp
  also have "\<dots> = fat16_find_loop io 0 st' items (Suc k + (n - k - 1)) (name @ [0]) f"
    using fat16_find_loop_append [of "Suc k" "n - k - 1" items name io 0 st' f] k all other name by simp
  finally show ?thesis by simp
qed

lemma kzalloc_fields:
  "kzalloc st sz = (p, st') \<Longrightarrow> \<exists>h m. st' = st\<lparr>kernel_heap := h, kmem := m\<rparr>"
  by (auto simp: kzalloc_def split: prod.splits)

lemma fat_ok_kzalloc:
  assumes ok: "fat_ok io ph img fp st" and one: "heap_blocks sz = 1" and a: "kzalloc st sz = (p, st')"
    and room: "heap_used (kernel_heap st) + 2 \<le> 25600"
  shows "p \<noteq> 0 \<and> \<not> IS_ERROR p \<and> fat_ok io ph img fp st' \<and> heap_grows (kernel_heap st) [p] (kernel_heap st') \<and>
    heap_used (kernel_heap st') = Suc (heap_used (kernel_heap st))"
proof -
  have "kheap_ok st" using ok by (simp add: fat_ok_def)
  note s = kzalloc_small [OF this one a]
  then have "p \<noteq> 0" using room by auto
  moreover obtain h m where "st' = st\<lparr>kernel_heap := h, kmem := m\<rparr>" using kzalloc_fields [OF a] by blast
  ultimately show ?thesis using s ok room by (simp add: fat_ok_def)
qed

lemma fat_ok_kzalloc_blocks:
  assumes ok: "fat_ok io ph img fp st" and n: "heap_blocks sz = n" "0 < n" and a: "kzalloc st sz = (p, st')"
    and room: "heap_used (kernel_heap st) < 25600 div n" "heap_used (kernel_heap st) + n < 25600"
  shows "p \<noteq> 0 \<and> \<not> IS_ERROR p \<and> fat_ok io ph img fp st' \<and> heap_grows (kernel_heap st) [p] (kernel_heap st') \<and>
    heap_used (kernel_heap st') = heap_used (kernel_heap st) + n"
proof -
  have k: "kheap_ok st" using ok by (simp add: fat_ok_def)
  from kzalloc_blocks [OF k room(1) n] a have s: "p \<noteq> 0" "kheap_ok st'"
    "heap_used (kernel_heap st') = heap_used (kernel_heap st) + n" by auto
  moreover obtain h m where "st' = st\<lparr>kernel_heap := h, kmem := m\<rparr>" using kzalloc_fields [OF a] by blast
  moreover have "heap_grows (kernel_heap st) [p] (kernel_heap st')"
    using heap_grows_kzalloc [OF heap_grows_refl [OF kheap_ok_wf [OF k]] a] s(1) by simp
  ultimately show ?thesis using ok room(2) kzalloc_not_error [OF k a] by (simp add: fat_ok_def)
qed

lemma blocks_fat: "heap_blocks 16 = 1" "heap_blocks (word_of_int FAT_DIRECTORY_ITEM_SIZE) = 1" "heap_blocks 92 = 1"
  by (simp_all add: heap_blocks_def heap_align_value_upper_def kconfig)

lemma fat16_new_file_item:
  assumes ok: "fat_ok io ph img fp st" and is_file: "attribute item AND FAT_FILE_SUBDIRECTORY = 0"
    and room: "heap_used (kernel_heap st) + 3 \<le> 25600"
  obtains a p st' where "fat16_new_fat_item_for_directory_item io st item =
      Inr (Some (FAT_ITEM_TYPE_FILE a (Some (p, item))), st')"
    "fat_ok io ph img fp st'" "heap_grows (kernel_heap st) [p, a] (kernel_heap st')"
    "heap_used (kernel_heap st') = heap_used (kernel_heap st) + 2"
proof -
  obtain a st1 where a: "kzalloc st 8 = (a, st1)" by fastforce
  have s1: "a \<noteq> 0 \<and> \<not> IS_ERROR a \<and> fat_ok io ph img fp st1 \<and> heap_grows (kernel_heap st) [a] (kernel_heap st1) \<and>
    heap_used (kernel_heap st1) = Suc (heap_used (kernel_heap st))"
    by (rule fat_ok_kzalloc [OF ok blocks_small(2) a]) (use room in simp)
  obtain p st2 where p: "kzalloc st1 (word_of_int FAT_DIRECTORY_ITEM_SIZE) = (p, st2)" by fastforce
  have s2: "p \<noteq> 0 \<and> \<not> IS_ERROR p \<and> fat_ok io ph img fp st2 \<and> heap_grows (kernel_heap st1) [p] (kernel_heap st2) \<and>
    heap_used (kernel_heap st2) = Suc (heap_used (kernel_heap st1))"
    by (rule fat_ok_kzalloc [OF _ blocks_fat(2) p]) (use s1 room in simp_all)
  have "heap_grows (kernel_heap st) [p, a] (kernel_heap st2)"
    using heap_grows_trans [of "kernel_heap st" "[a]" "kernel_heap st1" "[p]" "kernel_heap st2"] s1 s2 by simp
  with that [of a p st2] s1 s2 a p is_file show thesis
    by (simp add: fat16_new_fat_item_for_directory_item_def fat16_clone_directory_item_def)
qed

text \<open>The root directory entry with index \<open>k\<close> is the only one, among those the driver looks at, that
  answers to \<open>name\<close>.\<close>

definition only_entry :: "fat_directory \<Rightarrow> nat \<Rightarrow> u8 list \<Rightarrow> bool" where
  "only_entry d k name \<longleftrightarrow>
     k < nat (dir_total d) \<and> nat (dir_total d) \<le> length (dir_items d) \<and> (\<forall>item \<in> set (dir_items d). item_ok item) \<and>
     name_matches (dir_items d ! k) name \<and>
     (\<forall>j < nat (dir_total d). j \<noteq> k \<longrightarrow> \<not> name_matches (dir_items d ! j) name) \<and>
     0 \<notin> set name \<and> length name \<le> KERNEL_MAX_PATH"

definition open_file :: "u32 \<Rightarrow> u32 \<Rightarrow> u32 \<Rightarrow> fat_directory_item \<Rightarrow> fat_item_descriptor" where
  "open_file ptr a p item = \<lparr>fdesc_addr = ptr, fdesc_item = FAT_ITEM_TYPE_FILE a (Some (p, item)), fdesc_pos = 0\<rparr>"

lemma fat16_open_root_file:
  assumes ok: "fat_ok io ph img fp st" and e: "only_entry (root_directory fp) k (part pt)"
    and is_file: "attribute (dir_items (root_directory fp) ! k) AND FAT_FILE_SUBDIRECTORY = 0"
    and room: "heap_used (kernel_heap st) + 4 \<le> 25600"
  obtains ptr a p st' where "fat16_open io st [pt] FILE_MODE_READ =
      Inr (ptr, Some (open_file ptr a p (dir_items (root_directory fp) ! k)), st')"
    "ptr \<noteq> 0" "\<not> IS_ERROR ptr" "fat_ok io ph img fp st'" "heap_grows (kernel_heap st) [p, a, ptr] (kernel_heap st')"
    "heap_used (kernel_heap st') = heap_used (kernel_heap st) + 3"
proof -
  let ?item = "dir_items (root_directory fp) ! k"
  obtain ptr st1 where d: "kzalloc st 8 = (ptr, st1)" by fastforce
  have s1: "ptr \<noteq> 0 \<and> \<not> IS_ERROR ptr \<and> fat_ok io ph img fp st1 \<and> heap_grows (kernel_heap st) [ptr] (kernel_heap st1) \<and>
    heap_used (kernel_heap st1) = Suc (heap_used (kernel_heap st))"
    by (rule fat_ok_kzalloc [OF ok blocks_small(2) d]) (use room in simp)
  have ok1: "fat_ok io ph img fp st1" and room1: "heap_used (kernel_heap st1) + 3 \<le> 25600" using s1 room by auto
  obtain a p st2 where n: "fat16_new_fat_item_for_directory_item io st1 ?item =
      Inr (Some (FAT_ITEM_TYPE_FILE a (Some (p, ?item))), st2)" "fat_ok io ph img fp st2"
    "heap_grows (kernel_heap st1) [p, a] (kernel_heap st2)" "heap_used (kernel_heap st2) = heap_used (kernel_heap st1) + 2"
    by (rule fat16_new_file_item [OF ok1 is_file room1])
  have "fat16_find_item_in_directory io st1 (Some (root_directory fp)) (part pt @ [0]) =
      Inr (Some (FAT_ITEM_TYPE_FILE a (Some (p, ?item))), st2)"
    using e n(1) unfolding only_entry_def fat16_find_item_in_directory_def option.case
    by (intro fat16_find_loop_unique [of k]) auto
  then have "fat16_open io st [pt] FILE_MODE_READ = Inr (ptr, Some (open_file ptr a p ?item), st2)"
    using d s1 ok1 by (simp add: fat16_open_def fat16_get_directory_entry_def fat_ok_def open_file_def)
  moreover have "heap_grows (kernel_heap st) [p, a, ptr] (kernel_heap st2)"
    using heap_grows_trans [of "kernel_heap st" "[ptr]" "kernel_heap st1" "[p, a]"] s1 n(3) by simp
  ultimately show thesis using that s1 n(2,4) by simp
qed

lemma fat16_close_file:
  assumes "heap_grows h [p, a, ptr] (kernel_heap st)"
  shows "kernel_heap (snd (fat16_close st (open_file ptr a p item))) = h"
proof -
  have "fold (\<lambda>p h. heap_free h p) [p, a, ptr] (kernel_heap st) = h"
    by (rule heap_grows_free_all [OF assms]) (use assms in \<open>auto simp: heap_grows_def\<close>)
  then show ?thesis
    by (simp add: fat16_close_def fat16_free_descriptor_def fat16_fat_item_free_def open_file_def)
qed

lemma fat16_read_once:
  assumes ok: "fat_ok io ph img fp st" and n: "0 < n" "n \<le> cluster_size fp"
    and start: "cluster_start fp (fat16_get_first_cluster item) = int s" and bound: "s + n < 2 ^ 31"
    and c: "0 \<le> fat16_get_first_cluster item"
  obtains st' where "fat16_read io st (open_file ptr a p item) (of_nat n) 1 False =
      Inr (1, disk_bytes img s n, (open_file ptr a p item)\<lparr>fdesc_pos := of_nat n\<rparr>, st')" "fat_step io ph img fp st st'"
proof -
  have sn: "sint (of_nat n :: u32) = int n" using bound by (intro sint_of_nat_u32) simp
  obtain st' where r: "fat16_read_internal io st (fat16_get_first_cluster item) (int 0) (int n) False =
      Inr (0, disk_bytes img (s + 0) n, st')" "fat_step io ph img fp st st'"
    using fat16_read_internal_one [where off = 0, OF ok _ n(1) start _ c] n bound by auto
  have "fat16_read io st (open_file ptr a p item) (of_nat n) 1 False =
      Inr (1, disk_bytes img s n, (open_file ptr a p item)\<lparr>fdesc_pos := of_nat n\<rparr>, st')"
    using r(1) sn by (simp add: fat16_read_def open_file_def)
  with r(2) that show thesis by blast
qed

subsection \<open>Counting directory entries\<close>

lemma fp_read_at:
  assumes ok: "fat_ok io ph img fp st" and f: "stream_field fld upd" and x: "fld fp = Some x" "pos x = int p"
    and n: "p + n < 2 ^ 31"
  obtains fp' d' m' x' where "fp_read io fld upd st False (int n) =
      Inr (0, disk_bytes img p n, st\<lparr>device := d', kmem := m', fs_private := Some fp'\<rparr>)"
    "fat_ok io ph img fp' (st\<lparr>device := d', kmem := m', fs_private := Some fp'\<rparr>)" "same_volume fp fp'"
    "fld fp' = Some x'" "pos x' = int (p + n)"
proof -
  have xd: "ds_disk x = DISK" using fat_ok_stream [OF ok f] x by (simp add: stream_ok_def)
  have dev: "ata_device io ph img" "kheap_ok st" "heap_used (kernel_heap st) < 25600" "ph (device st) = Idle"
    "fs_private st = Some fp"
    using ok by (simp_all add: fat_ok_def)
  obtain d' m' where r: "diskstream_read io st (Some x) False (int n) =
      Inr (0, disk_bytes img p n, Some (x\<lparr>pos := int (p + n)\<rparr>), st\<lparr>device := d', kmem := m'\<rparr>)" "ph d' = Idle"
    using diskstream_read_bytes [OF dev(1-4) xd x(2) n] by blast
  let ?x = "x\<lparr>pos := int (p + n)\<rparr>"
  let ?fp = "upd (\<lambda>_. Some ?x) fp"
  let ?st = "st\<lparr>device := d', kmem := m', fs_private := Some ?fp\<rparr>"
  have "fp_read io fld upd st False (int n) = Inr (0, disk_bytes img p n, ?st)"
    using r(1) x(1) dev(5) by (simp add: fp_read_def)
  moreover have "fat_ok io ph img ?fp (st\<lparr>fs_private := Some ?fp\<rparr>)"
    by (rule fat_ok_upd [OF ok f]) (simp add: stream_ok_def xd)
  then have "fat_ok io ph img ?fp ?st" using r(2) by (simp add: fat_ok_def kheap_ok_def)
  ultimately show thesis
    using that [where fp' = ?fp and d' = d' and m' = m' and x' = ?x] stream_field_upd [OF f] by simp
qed

text \<open>The first byte of slot \<open>i\<close> of a directory at byte \<open>p\<close> of the disk says what it is: 0 ends the
  directory, 0xE5 marks a deleted entry.\<close>

definition slot_mark :: "(nat \<Rightarrow> u8 list) \<Rightarrow> nat \<Rightarrow> nat \<Rightarrow> u8" where
  "slot_mark img p i = disk_byte img (p + 32 * i)"

definition used_slots :: "(nat \<Rightarrow> u8 list) \<Rightarrow> nat \<Rightarrow> nat \<Rightarrow> nat \<Rightarrow> nat" where
  "used_slots img p i m = length (filter (\<lambda>j. slot_mark img p j \<noteq> 0xE5) [i ..< m])"

lemma used_slots_step:
  "i < m \<Longrightarrow> used_slots img p i m = (if slot_mark img p i \<noteq> 0xE5 then 1 else 0) + used_slots img p (Suc i) m"
  by (simp add: used_slots_def upt_conv_Cons)

lemma slot_filename: "filename (decode_directory_item (disk_bytes img (p + 32 * i) 32)) ! 0 = slot_mark img p i"
  by (simp add: decode_directory_item_def disk_bytes_def slot_mark_def)

lemma fat16_count_items_ok:
  assumes "fat_ok io ph img fp st" "directory_stream fp = Some x" "pos x = int (p + 32 * i)"
    and "i \<le> m" "slot_mark img p m = 0" "\<forall>j. i \<le> j \<and> j < m \<longrightarrow> slot_mark img p j \<noteq> 0" "p + 32 * Suc m < 2 ^ 31"
  shows "\<exists>st'. fat16_count_items io st cnt = Some (Inr (cnt + int (used_slots img p i m), st')) \<and> fat_step io ph img fp st st'"
  using assms
proof (induction "m - i" arbitrary: i st fp x cnt)
  case 0
  then have i: "i = m" by simp
  have b: "p + 32 * i + 32 < 2 ^ 31" using 0 i by simp
  obtain fp' d' m' x' where r: "fp_read io directory_stream directory_stream_update st False (int 32) =
      Inr (0, disk_bytes img (p + 32 * i) 32, st\<lparr>device := d', kmem := m', fs_private := Some fp'\<rparr>)"
    "fat_ok io ph img fp' (st\<lparr>device := d', kmem := m', fs_private := Some fp'\<rparr>)" "same_volume fp fp'"
    by (rule fp_read_at [OF "0.prems"(1) stream_fields(3) "0.prems"(2,3) b])
  have "fat16_count_items io st cnt = Some (Inr (cnt, st\<lparr>device := d', kmem := m', fs_private := Some fp'\<rparr>))"
    using r(1) "0.prems"(5) i
    by (subst fat16_count_items.simps) (simp add: slot_filename kconfig)
  moreover have "fat_step io ph img fp st (st\<lparr>device := d', kmem := m', fs_private := Some fp'\<rparr>)"
    using r(2,3) by (auto simp: fat_step_def)
  ultimately show ?case using i by (simp add: used_slots_def)
next
  case (Suc k)
  then have i: "i < m" by simp
  have b: "p + 32 * i + 32 < 2 ^ 31" using Suc.prems(7) i by simp
  obtain fp' d' m' x' where r: "fp_read io directory_stream directory_stream_update st False (int 32) =
      Inr (0, disk_bytes img (p + 32 * i) 32, st\<lparr>device := d', kmem := m', fs_private := Some fp'\<rparr>)"
    "fat_ok io ph img fp' (st\<lparr>device := d', kmem := m', fs_private := Some fp'\<rparr>)" "same_volume fp fp'"
    "directory_stream fp' = Some x'" "pos x' = int (p + 32 * i + 32)"
    by (rule fp_read_at [OF Suc.prems(1) stream_fields(3) Suc.prems(2,3) b])
  let ?st = "st\<lparr>device := d', kmem := m', fs_private := Some fp'\<rparr>"
  let ?c = "cnt + (if slot_mark img p i \<noteq> 0xE5 then 1 else 0)"
  have "fat16_count_items io st cnt = fat16_count_items io ?st ?c"
    using r(1) Suc.prems(6) i by (subst fat16_count_items.simps) (simp add: slot_filename kconfig)
  moreover have "\<exists>st'. fat16_count_items io ?st ?c = Some (Inr (?c + int (used_slots img p (Suc i) m), st')) \<and>
      fat_step io ph img fp' ?st st'"
    by (rule Suc.hyps(1) [of "Suc i", OF _ r(2,4)]) (use Suc r(5) i in auto)
  moreover have "fat_step io ph img fp st ?st" using r(2,3) by (auto simp: fat_step_def)
  ultimately show ?case
    using used_slots_step [OF i, of img p] fat_step_trans [OF _ r(2)] by fastforce
qed

lemma fat16_total_items_ok:
  assumes ok: "fat_ok io ph img fp st" and e: "slot_mark img (512 * s) m = 0" "\<forall>j < m. slot_mark img (512 * s) j \<noteq> 0"
    and b: "512 * s + 32 * Suc m < 2 ^ 31"
  obtains st' where "fat16_get_total_items_for_directory io st (int s) = Inr (int (used_slots img (512 * s) 0 m), st')"
    "fat_step io ph img fp st st'"
proof -
  have pos: "fat16_sector_to_absolute st (int s) = int (512 * s)"
    using ok by (simp add: fat16_sector_to_absolute_def fat_ok_def)
  obtain x where x: "ds_disk x = DISK" "pos x = int (512 * s)"
    "fp_seek directory_stream directory_stream_update st (int (512 * s)) =
       Inr (0, st\<lparr>fs_private := Some (directory_stream_update (\<lambda>_. Some x) fp)\<rparr>)"
    by (rule fp_seek_ok [OF ok stream_fields(3)])
  let ?fp = "directory_stream_update (\<lambda>_. Some x) fp" and ?st = "st\<lparr>fs_private := Some (directory_stream_update (\<lambda>_. Some x) fp)\<rparr>"
  have ok1: "fat_ok io ph img ?fp ?st" by (rule fat_ok_upd [OF ok stream_fields(3)]) (simp add: stream_ok_def x)
  from fat16_count_items_ok [OF ok1 _ _ _ e(1) _ b, of x 0 0] e(2) x(2)
  obtain st' where c: "fat16_count_items io ?st 0 = Some (Inr (int (used_slots img (512 * s) 0 m), st'))"
    "fat_step io ph img ?fp ?st st'" by auto
  have "fat16_get_total_items_for_directory io st (int s) = Inr (int (used_slots img (512 * s) 0 m), st')"
    using x(3) c(1) by (simp add: fat16_get_total_items_for_directory_def pos or_diverge_def kconfig del: of_nat_mult)
  moreover have "fat_step io ph img fp st st'"
    using c(2) stream_field_upd(2) [OF stream_fields(3), of fp "\<lambda>_. Some x"] same_volume_trans
    by (fastforce simp: fat_step_def)
  ultimately show thesis by (rule that)
qed

subsection \<open>Mounting a volume\<close>

lemma heap_used_free:
  assumes "heap_wf h" "heap_owned h p = Some k"
  shows "heap_used h = heap_used (heap_free h p) + k"
  using kernel_alloc.release_owned [OF assms] assms(2) by (intro heap_used_alloc [of _ p]) (auto simp: fun_eq_iff)

lemma diskstream_new_ok:
  assumes ok: "kheap_ok st" and room: "heap_used (kernel_heap st) < 25600"
  shows "\<exists>s h m. diskstream_new st 0 = (Some s, st\<lparr>kernel_heap := h, kmem := m\<rparr>) \<and> ds_disk s = DISK \<and> pos s = 0 \<and>
    kheap_ok (st\<lparr>kernel_heap := h, kmem := m\<rparr>) \<and> heap_grows (kernel_heap st) [ds_addr s] h \<and>
    heap_used h = Suc (heap_used (kernel_heap st))"
proof -
  obtain a st1 where a: "kzalloc st 8 = (a, st1)" by fastforce
  obtain h m where st1: "st1 = st\<lparr>kernel_heap := h, kmem := m\<rparr>" using kzalloc_fields [OF a] by blast
  note s = kzalloc_small [OF ok blocks_small(2) a]
  with room have "a \<noteq> 0" by auto
  then have "diskstream_new st 0 = (Some \<lparr>ds_addr = a, pos = 0, ds_disk = DISK\<rparr>, st1)"
    using a by (simp add: diskstream_new_def disk_get_def)
  with s st1 \<open>a \<noteq> 0\<close> show ?thesis by (intro exI [of _ h] exI [of _ m] exI) auto
qed

text \<open>A volume the driver can mount: besides the extended signature, the root directory has at least one entry,
  its first end marker is in slot \<open>m\<close>, and its positions are within \<open>int\<close>.\<close>

definition root_start :: "fat_header \<Rightarrow> nat" where
  "root_start h = unat (fat_copies h) * unat (sectors_per_fat h) + unat (reserved_sectors h)"

definition boot_header :: "(nat \<Rightarrow> u8 list) \<Rightarrow> fat_h" where
  "boot_header img = decode_header (disk_bytes img 0 62)"

definition root_pos :: "(nat \<Rightarrow> u8 list) \<Rightarrow> nat" where
  "root_pos img = 512 * root_start (primary_header (boot_header img))"

definition root_entries :: "(nat \<Rightarrow> u8 list) \<Rightarrow> nat" where
  "root_entries img = unat (root_dir_entries (primary_header (boot_header img)))"

definition root_marked :: "(nat \<Rightarrow> u8 list) \<Rightarrow> nat \<Rightarrow> bool" where
  "root_marked img m \<longleftrightarrow> 0 < root_entries img \<and>
     slot_mark img (root_pos img) m = 0 \<and> (\<forall>j < m. slot_mark img (root_pos img) j \<noteq> 0) \<and>
     root_pos img + 32 * Suc m < 2 ^ 31 \<and> root_pos img + root_entries img * 32 < 2 ^ 31"

text \<open>The heap blocks the root directory takes.\<close>

definition root_blocks :: "(nat \<Rightarrow> u8 list) \<Rightarrow> nat" where
  "root_blocks img = (root_entries img * 32 + 4095) div 4096"

text \<open>The root directory a mounted volume has.\<close>

definition root_dir :: "(nat \<Rightarrow> u8 list) \<Rightarrow> nat \<Rightarrow> u32 \<Rightarrow> fat_directory" where
  "root_dir img m dir =
     \<lparr>fd_addr = 0, dir_item_addr = dir,
      dir_items = decode_directory (disk_bytes img (root_pos img) (root_entries img * 32)),
      dir_total = int (used_slots img (root_pos img) 0 m),
      sector_pos = int (root_pos img div 512),
      ending_sector_pos = int (root_pos img div 512) + (int (root_entries img * 32) + 511) div 512\<rparr>"

lemma div_round_up:
  assumes "0 < (k :: int)"
  shows "n div k + (if n mod k \<noteq> 0 then 1 else 0) = (n + (k - 1)) div k"
proof -
  let ?r = "n mod k"
  have r: "0 \<le> ?r" "?r < k" using assms by simp_all
  have "(n + (k - 1)) div k = ((?r + (k - 1)) + k * (n div k)) div k" by (simp add: algebra_simps)
  also have "\<dots> = n div k + (?r + (k - 1)) div k" by (rule div_mult_self2) (use assms in simp)
  also have "(?r + (k - 1)) div k = (if ?r \<noteq> 0 then 1 else 0)"
    using int_div_pos_eq [of "?r + (k - 1)" k 1 "?r - 1"] r assms by (cases "?r = 0") auto
  finally show ?thesis by simp
qed

lemma blocks_root: "heap_blocks (word_of_int (int (root_entries img) * 32)) = root_blocks img"
proof -
  let ?n = "root_entries img * 32"
  have le: "?n \<le> 65535 * 32"
    using unat_u16_less [of "root_dir_entries (primary_header (boot_header img))"] by (simp add: root_entries_def)
  then have u: "unat (word_of_int (int (root_entries img) * 32) :: u32) = ?n"
    using unat_of_nat_u32 [of ?n] by simp
  have "heap_blocks (word_of_int (int (root_entries img) * 32)) * 4096 = root_blocks img * 4096"
    unfolding heap_blocks_size root_blocks_def unat_align_upper u using le by simp
  then show ?thesis by simp
qed

lemma root_blocks_pos: "root_marked img m \<Longrightarrow> 0 < root_blocks img"
  by (auto simp: root_marked_def root_blocks_def div_greater_zero_iff)

text \<open>A heap with room for \<open>j\<close> runs of \<open>n\<close> blocks beside those in use holds one run and \<open>j - 1\<close> single blocks.\<close>

lemma room_beside:
  assumes "(u + j) * n \<le> (25600 :: nat)" "0 < n" "0 < j"
  shows "u + n + j \<le> Suc 25600"
proof -
  obtain k i where "n = Suc k" "j = Suc i" using assms(2,3) by (metis gr0_implies_Suc)
  with assms(1) show ?thesis by simp
qed

lemma room_run:
  assumes "(u + j) * n \<le> (25600 :: nat)" "0 < n" "0 < j"
  shows "u < 25600 div n"
proof -
  have "Suc u * n \<le> (u + j) * n" by (rule mult_le_mono1) (use assms(3) in simp)
  then show ?thesis using assms(1,2) by (simp add: less_eq_div_iff_mult_less_eq Suc_le_eq [symmetric])
qed

lemma fat16_root_directory_ok:
  assumes ok: "fat_ok io ph img fp st" and h: "header fp = boot_header img" and vol: "root_marked img m"
    and room: "(heap_used (kernel_heap st) + 2) * root_blocks img \<le> 25600"
  obtains dir st' fp' where "fat16_get_root_directory io st = Inr (0, st')" "fat_ok io ph img fp' st'"
    "fp_addr fp' = fp_addr fp" "header fp' = boot_header img" "root_directory fp' = root_dir img m dir"
    "heap_grows (kernel_heap st) [dir] (kernel_heap st')"
    "heap_used (kernel_heap st') = heap_used (kernel_heap st) + root_blocks img"
    "filesystem st' = filesystem st" "disk_id st' = disk_id st"
proof -
  let ?s = "root_start (primary_header (boot_header img))" and ?n = "root_entries img"
  note v = vol [unfolded root_marked_def]
  have st: "fs_private st = Some fp" "sector_size st = 512" using ok by (simp_all add: fat_ok_def)
  have rp: "root_pos img = 512 * ?s" by (simp add: root_pos_def)
  obtain st1 where c: "fat16_get_total_items_for_directory io st (int ?s) = Inr (int (used_slots img (root_pos img) 0 m), st1)"
      "fat_step io ph img fp st st1"
    using fat16_total_items_ok [OF ok, of ?s m] v rp by metis
  from c(2) obtain fp1 d1 m1 where f1: "fat_ok io ph img fp1 st1" "same_volume fp fp1"
    "st1 = st\<lparr>device := d1, kmem := m1, fs_private := Some fp1\<rparr>" by (auto simp: fat_step_def)
  obtain dir st2 where a: "kzalloc st1 (word_of_int (int ?n * 32)) = (dir, st2)" by fastforce
  have s2: "dir \<noteq> 0 \<and> \<not> IS_ERROR dir \<and> fat_ok io ph img fp1 st2 \<and>
      heap_grows (kernel_heap st1) [dir] (kernel_heap st2) \<and>
      heap_used (kernel_heap st2) = heap_used (kernel_heap st1) + root_blocks img"
    by (rule fat_ok_kzalloc_blocks [OF f1(1) blocks_root root_blocks_pos [OF vol] a])
      (use room_run [OF room] room_beside [OF room] root_blocks_pos [OF vol] f1(3) in simp_all)
  obtain hh mm where st2: "st2 = st1\<lparr>kernel_heap := hh, kmem := mm\<rparr>" using kzalloc_fields [OF a] by blast
  obtain st3 st4 where r: "fp_seek directory_stream directory_stream_update st2 (int (root_pos img)) = Inr (0, st3)"
    "fp_read io directory_stream directory_stream_update st3 False (int (?n * 32)) =
       Inr (0, disk_bytes img (root_pos img) (?n * 32), st4)" "fat_step io ph img fp1 st2 st4"
    by (rule fp_seek_read [OF _ stream_fields(3), where p = "root_pos img" and n = "?n * 32"]) (use s2 v in auto)
  from r(3) obtain fp4 d4 m4 where f4: "fat_ok io ph img fp4 st4" "same_volume fp1 fp4"
    "st4 = st2\<lparr>device := d4, kmem := m4, fs_private := Some fp4\<rparr>" by (auto simp: fat_step_def)
  have sec: "uint (fat_copies (primary_header (boot_header img))) * uint (sectors_per_fat (primary_header (boot_header img)))
      + uint (reserved_sectors (primary_header (boot_header img))) = int ?s"
    by (simp add: root_start_def)
  have n: "uint (root_dir_entries (primary_header (boot_header img))) = int ?n" by (simp add: root_entries_def)
  let ?fp = "fp4\<lparr>root_directory := root_dir img m dir\<rparr>"
  let ?st = "st4\<lparr>fs_private := Some ?fp\<rparr>"
  have secs: "int ?n * 32 sdiv 512 + (if int ?n * 32 smod 512 \<noteq> 0 then 1 else 0) = (int (?n * 32) + 511) div 512"
    using div_round_up [of 512 "int ?n * 32"] by (simp add: smod_nonneg)
  have "fat16_get_root_directory io st = Inr (0, ?st)"
    unfolding fat16_get_root_directory_def st option.case Let_def h sec n kconfig secs fat16_sector_to_absolute_def
    using c(1) a s2 r(1,2) st2 f1(3) f4(3) st(2) by (simp add: root_dir_def rp)
  moreover have "fat_ok io ph img ?fp ?st" using f4(1) by (simp add: fat_ok_def kheap_ok_def)
  moreover have "fp_addr ?fp = fp_addr fp" "header ?fp = boot_header img"
    using f1(2) f4(2) h by (simp_all add: same_volume_def)
  ultimately show thesis
    using that [of ?st ?fp dir] s2 f1(3) st2 f4(3) by simp
qed

text \<open>What the driver has allocated once its streams are open: the private data and the three streams.\<close>

lemma fat16_init_private_ok:
  fixes st :: "('d, 'a) fatst_scheme"
  assumes ok: "kheap_ok st" and room: "heap_used (kernel_heap st) + 3 \<le> 25600" and id: "disk_id st = 0"
  obtains fp h m where "fat16_init_private st p = (fp, st\<lparr>kernel_heap := h, kmem := m\<rparr>)" "fp_addr fp = p"
    "stream_ok (cluster_read_stream fp)" "stream_ok (fat_read_stream fp)" "stream_ok (directory_stream fp)"
    "root_directory fp = fat_directory_zero" "kheap_ok (st\<lparr>kernel_heap := h, kmem := m\<rparr>)"
    "heap_grows (kernel_heap st) (map (ds_addr \<circ> the) [directory_stream fp, cluster_read_stream fp, fat_read_stream fp]) h"
    "heap_used h = heap_used (kernel_heap st) + 3"
proof -
  obtain s1 h1 m1 where s1: "diskstream_new st 0 = (Some s1, st\<lparr>kernel_heap := h1, kmem := m1\<rparr>)" "ds_disk s1 = DISK"
    "kheap_ok (st\<lparr>kernel_heap := h1, kmem := m1\<rparr>)" "heap_grows (kernel_heap st) [ds_addr s1] h1"
    "heap_used h1 = Suc (heap_used (kernel_heap st))"
    using diskstream_new_ok [OF ok] room by auto
  obtain s2 h2 m2 where s2: "diskstream_new (st\<lparr>kernel_heap := h1, kmem := m1\<rparr>) 0 =
      (Some s2, st\<lparr>kernel_heap := h2, kmem := m2\<rparr>)" "ds_disk s2 = DISK"
    "kheap_ok (st\<lparr>kernel_heap := h2, kmem := m2\<rparr>)" "heap_grows h1 [ds_addr s2] h2" "heap_used h2 = Suc (heap_used h1)"
    using diskstream_new_ok [OF s1(3)] room s1(5) by auto
  obtain s3 h3 m3 where s3: "diskstream_new (st\<lparr>kernel_heap := h2, kmem := m2\<rparr>) 0 =
      (Some s3, st\<lparr>kernel_heap := h3, kmem := m3\<rparr>)" "ds_disk s3 = DISK"
    "kheap_ok (st\<lparr>kernel_heap := h3, kmem := m3\<rparr>)" "heap_grows h2 [ds_addr s3] h3" "heap_used h3 = Suc (heap_used h2)"
    using diskstream_new_ok [OF s2(3)] room s1(5) s2(5) by auto
  let ?fp = "\<lparr>fp_addr = p, header = decode_header (replicate 62 0), root_directory = fat_directory_zero,
           cluster_read_stream = Some s2, fat_read_stream = Some s1, directory_stream = Some s3\<rparr>"
  have "heap_grows (kernel_heap st) [ds_addr s3, ds_addr s2, ds_addr s1] h3"
    using heap_grows_trans [OF heap_grows_trans [OF s1(4) s2(4)] s3(4)] by simp
  moreover have "fat16_init_private st p = (?fp, st\<lparr>kernel_heap := h3, kmem := m3\<rparr>)"
    using s1(1) s2(1) s3(1) id by (simp add: fat16_init_private_def)
  ultimately show thesis
    using that [where h = h3 and m = m3 and fp = ?fp] s1 s2 s3 by (simp add: stream_ok_def)
qed

text \<open>The state in which \<open>fat16_resolve\<close> has read the boot sector.\<close>

lemma fat16_boot_sector_ok:
  fixes st :: "('d, 'a) fatst_scheme"
  assumes dev: "ata_device io ph img" and ok: "kheap_ok st" and idle: "ph (device st) = Idle"
    and sz: "sector_size st = 512" "disk_id st = 0" and room: "heap_used (kernel_heap st) + 6 \<le> 25600"
  obtains p st1 fp st2 st3 s st4 s' st5 st6 where "kzalloc st 92 = (p, st1)" "p \<noteq> 0"
    "fat16_init_private st1 p = (fp, st2)" "st3 = st2\<lparr>fs_private := Some fp, filesystem := Some FAT16_FS\<rparr>"
    "diskstream_new st3 0 = (Some s, st4)"
    "diskstream_read io st4 (Some s) False FAT_H_SIZE = Inr (0, disk_bytes img 0 62, Some s', st5)"
    "ds_addr s' = ds_addr s" "fs_private st5 = Some fp" "root_directory fp = fat_directory_zero" "fp_addr fp = p"
    "st6 = st5\<lparr>fs_private := Some (fp\<lparr>header := boot_header img\<rparr>)\<rparr>"
    "fat_ok io ph img (fp\<lparr>header := boot_header img\<rparr>) st6"
    "heap_grows (kernel_heap st) (ds_addr s # map (ds_addr \<circ> the)
       [directory_stream fp, cluster_read_stream fp, fat_read_stream fp] @ [p]) (kernel_heap st6)"
    "heap_used (kernel_heap st6) = heap_used (kernel_heap st) + 5" "filesystem st6 = Some FAT16_FS" "disk_id st6 = 0"
proof -
  obtain p st1 where p: "kzalloc st 92 = (p, st1)" by fastforce
  note a = kzalloc_small [OF ok blocks_fat(3) p]
  with room have p0: "p \<noteq> 0" by auto
  obtain h1 m1 where st1: "st1 = st\<lparr>kernel_heap := h1, kmem := m1\<rparr>" using kzalloc_fields [OF p] by blast
  obtain fp h2 m2 where i: "fat16_init_private st1 p = (fp, st1\<lparr>kernel_heap := h2, kmem := m2\<rparr>)" "fp_addr fp = p"
    "stream_ok (cluster_read_stream fp)" "stream_ok (fat_read_stream fp)" "stream_ok (directory_stream fp)"
    "root_directory fp = fat_directory_zero" "kheap_ok (st1\<lparr>kernel_heap := h2, kmem := m2\<rparr>)"
    "heap_grows (kernel_heap st1) (map (ds_addr \<circ> the) [directory_stream fp, cluster_read_stream fp, fat_read_stream fp]) h2"
    "heap_used h2 = heap_used (kernel_heap st1) + 3"
    by (rule fat16_init_private_ok [of st1 p]) (use a p0 room sz st1 in auto)
  let ?st3 = "st\<lparr>kernel_heap := h2, kmem := m2, fs_private := Some fp, filesystem := Some FAT16_FS\<rparr>"
  have ok3: "kheap_ok ?st3" using i(7) by (simp add: kheap_ok_def)
  obtain s h4 m4 where n: "diskstream_new ?st3 0 = (Some s, ?st3\<lparr>kernel_heap := h4, kmem := m4\<rparr>)"
    "ds_disk s = DISK" "pos s = 0" "kheap_ok (?st3\<lparr>kernel_heap := h4, kmem := m4\<rparr>)" "heap_grows h2 [ds_addr s] h4"
    "heap_used h4 = Suc (heap_used h2)"
    using diskstream_new_ok [OF ok3] i(9) a p0 room by fastforce
  let ?st4 = "?st3\<lparr>kernel_heap := h4, kmem := m4\<rparr>"
  have used: "heap_used h4 = heap_used (kernel_heap st) + 5" using n(6) i(9) a p0 by simp
  obtain d' m' where r: "diskstream_read io ?st4 (Some s) False (int 62) =
      Inr (0, disk_bytes img 0 62, Some (s\<lparr>pos := int (0 + 62)\<rparr>), ?st4\<lparr>device := d', kmem := m'\<rparr>)" "ph d' = Idle"
    using diskstream_read_bytes [OF dev n(4), of s 0 62] n(2,3) used room idle by auto
  have g: "heap_grows (kernel_heap st) (ds_addr s # map (ds_addr \<circ> the)
       [directory_stream fp, cluster_read_stream fp, fat_read_stream fp] @ [p]) h4"
    using heap_grows_trans [OF heap_grows_trans [OF _ i(8)] n(5), of "kernel_heap st" "[p]"] a p0 by simp
  let ?st6 = "?st4\<lparr>device := d', kmem := m', fs_private := Some (fp\<lparr>header := boot_header img\<rparr>)\<rparr>"
  have f: "fat_ok io ph img (fp\<lparr>header := boot_header img\<rparr>) ?st6"
    using dev n(4) used room r(2) sz i(3,4,5) by (simp add: fat_ok_def kheap_ok_def)
  have r': "diskstream_read io ?st4 (Some s) False FAT_H_SIZE =
      Inr (0, disk_bytes img 0 62, Some (s\<lparr>pos := 62\<rparr>), ?st4\<lparr>device := d', kmem := m'\<rparr>)"
    using r(1) by (simp add: kconfig)
  have i': "fat16_init_private st1 p = (fp, st\<lparr>kernel_heap := h2, kmem := m2\<rparr>)" using i(1) st1 by simp
  show thesis
    by (rule that [OF p p0 i' _ n(1) r' _ _ i(6,2) _ f]) (use g used sz in simp_all)
qed

lemma diskstream_close_heap [simp]:
  "kernel_heap (diskstream_close st (Some s)) = heap_free (kernel_heap st) (ds_addr s)"
  "fs_private (diskstream_close st (Some s)) = fs_private st"
  by (simp_all add: diskstream_close_def kfree_def)

lemma fat16_resolve_mounts:
  assumes dev: "ata_device io ph img" and ok: "kheap_ok st" and idle: "ph (device st) = Idle"
    and sz: "sector_size st = 512" "disk_id st = 0" and room: "(heap_used (kernel_heap st) + 7) * root_blocks img \<le> 25600"
    and sig: "signature (extended_header (boot_header img)) = 0x29" and vol: "root_marked img m"
  obtains fp st' dir ps where "fat16_resolve io st = Inr (0, st')" "fat_ok io ph img fp st'" "header fp = boot_header img"
    "root_directory fp = root_dir img m dir" "filesystem st' = Some FAT16_FS"
    "heap_grows (kernel_heap st) ps (kernel_heap st')" "length ps = 5"
    "heap_used (kernel_heap st') \<le> heap_used (kernel_heap st) + 5 + root_blocks img"
proof -
  note rb = root_blocks_pos [OF vol]
  have room': "heap_used (kernel_heap st) + root_blocks img + 6 \<le> 25600" "heap_used (kernel_heap st) + 6 \<le> 25600"
    using room_beside [OF room rb] rb by simp_all
  obtain p st1 fp st2 st3 s st4 s' st5 st6 where b: "kzalloc st 92 = (p, st1)" "p \<noteq> 0"
    "fat16_init_private st1 p = (fp, st2)" "st3 = st2\<lparr>fs_private := Some fp, filesystem := Some FAT16_FS\<rparr>"
    "diskstream_new st3 0 = (Some s, st4)"
    "diskstream_read io st4 (Some s) False FAT_H_SIZE = Inr (0, disk_bytes img 0 62, Some s', st5)"
    "ds_addr s' = ds_addr s" "fs_private st5 = Some fp" "root_directory fp = fat_directory_zero" "fp_addr fp = p"
    "st6 = st5\<lparr>fs_private := Some (fp\<lparr>header := boot_header img\<rparr>)\<rparr>"
    "fat_ok io ph img (fp\<lparr>header := boot_header img\<rparr>) st6"
    "heap_grows (kernel_heap st) (ds_addr s # map (ds_addr \<circ> the)
       [directory_stream fp, cluster_read_stream fp, fat_read_stream fp] @ [p]) (kernel_heap st6)"
    "heap_used (kernel_heap st6) = heap_used (kernel_heap st) + 5" "filesystem st6 = Some FAT16_FS" "disk_id st6 = 0"
    by (rule fat16_boot_sector_ok [OF dev ok idle sz room'(2)])
  obtain dir st7 fp7 where d: "fat16_get_root_directory io st6 = Inr (0, st7)" "fat_ok io ph img fp7 st7"
    "fp_addr fp7 = p" "header fp7 = boot_header img" "root_directory fp7 = root_dir img m dir"
    "heap_grows (kernel_heap st6) [dir] (kernel_heap st7)"
    "heap_used (kernel_heap st7) = heap_used (kernel_heap st6) + root_blocks img"
    "filesystem st7 = filesystem st6"
    by (rule fat16_root_directory_ok [OF b(12) _ vol]) (use b(10,14) room in \<open>auto simp: add.commute\<close>)
  let ?st8 = "diskstream_close st7 (Some s')"
  have res: "fat16_resolve io st = Inr (0, ?st8)"
    using b d(1) sig sz by (simp add: fat16_resolve_def Let_def kconfig boot_header_def)
  let ?qs = "map (ds_addr \<circ> the) [directory_stream fp, cluster_read_stream fp, fat_read_stream fp] @ [p]"
  have g7: "heap_grows (kernel_heap st) (dir # ds_addr s # ?qs) (kernel_heap st7)"
    using heap_grows_trans [OF b(13) d(6)] by simp
  then obtain k where k: "heap_owned (kernel_heap st7) (ds_addr s) = Some k" by (auto simp: heap_grows_def)
  have g8: "heap_grows (kernel_heap st) (dir # ?qs) (kernel_heap ?st8)"
    using heap_grows_free [OF g7, of "ds_addr s"] b(7) g7 by (auto simp: heap_grows_def)
  have used: "heap_used (kernel_heap ?st8) \<le> heap_used (kernel_heap st) + 5 + root_blocks img"
    using heap_used_free [OF heap_grows_wf [OF g7] k] b(7,14) d(7) by simp
  have "fat_ok io ph img fp7 ?st8"
    using d(2) g8 used room'(1) ok kheap_ok_grows [OF ok g8]
    by (simp add: fat_ok_def diskstream_close_def kfree_def kheap_ok_def)
  moreover have "filesystem ?st8 = Some FAT16_FS" using d(8) b(15) by (simp add: diskstream_close_def kfree_def)
  ultimately show thesis using that [OF res _ d(4,5) _ g8] used by simp
qed

lemma fat16_resolve_refuses:
  assumes dev: "ata_device io ph img" and ok: "kheap_ok st" and idle: "ph (device st) = Idle"
    and sz: "sector_size st = 512" "disk_id st = 0" and room: "heap_used (kernel_heap st) + 6 \<le> 25600"
    and sig: "signature (extended_header (boot_header img)) \<noteq> 0x29"
  obtains st' where "fat16_resolve io st = Inr (- EFSNOTUS, st')" "kernel_heap st' = kernel_heap st" "fs_private st' = None"
proof -
  obtain p st1 fp st2 st3 s st4 s' st5 st6 where b: "kzalloc st 92 = (p, st1)" "p \<noteq> 0"
    "fat16_init_private st1 p = (fp, st2)" "st3 = st2\<lparr>fs_private := Some fp, filesystem := Some FAT16_FS\<rparr>"
    "diskstream_new st3 0 = (Some s, st4)"
    "diskstream_read io st4 (Some s) False FAT_H_SIZE = Inr (0, disk_bytes img 0 62, Some s', st5)"
    "ds_addr s' = ds_addr s" "fs_private st5 = Some fp" "root_directory fp = fat_directory_zero" "fp_addr fp = p"
    "st6 = st5\<lparr>fs_private := Some (fp\<lparr>header := boot_header img\<rparr>)\<rparr>"
    "fat_ok io ph img (fp\<lparr>header := boot_header img\<rparr>) st6"
    "heap_grows (kernel_heap st) (ds_addr s # map (ds_addr \<circ> the)
       [directory_stream fp, cluster_read_stream fp, fat_read_stream fp] @ [p]) (kernel_heap st6)"
    by (rule fat16_boot_sector_ok [OF dev ok idle sz room])
  let ?st' = "(fat16_free_private (diskstream_close st6 (Some s')) (Some (fp\<lparr>header := boot_header img\<rparr>)))\<lparr>fs_private := None\<rparr>"
  have "fat16_resolve io st = Inr (- EFSNOTUS, ?st')"
    using b sig sz by (simp add: fat16_resolve_def Let_def kconfig boot_header_def)
  moreover have "kernel_heap ?st' = kernel_heap st"
  proof -
    obtain x y z where xyz: "cluster_read_stream fp = Some x" "fat_read_stream fp = Some y" "directory_stream fp = Some z"
      using b(12) by (auto simp: fat_ok_def stream_ok_def)
    have "fold (\<lambda>p h. heap_free h p) [ds_addr s, ds_addr x, ds_addr y, ds_addr z, p] (kernel_heap st6) = kernel_heap st"
      by (rule heap_grows_free_all [OF b(13)]) (use b(13) xyz in \<open>auto simp: heap_grows_def\<close>)
    then show ?thesis using xyz b(7,9,10)
      by (simp add: fat16_free_private_def kfree_def heap_free_null fat_directory_zero_def)
  qed
  ultimately show thesis using that by simp
qed

lemma fat16_find_none:
  assumes "n \<le> length items" "\<forall>item \<in> set items. item_ok item" "\<forall>j < n. \<not> name_matches (items ! j) name"
    and "0 \<notin> set name" "length name \<le> KERNEL_MAX_PATH"
  shows "fat16_find_loop io n st items 0 (name @ [0]) None = Inr (None, st)"
  using fat16_find_loop_append [of 0 n items name io 0 st None] assms by simp

lemma fat16_open_not_found:
  assumes ok: "fat_ok io ph img fp st"
    and no: "nat (dir_total (root_directory fp)) \<le> length (dir_items (root_directory fp))"
      "\<forall>item \<in> set (dir_items (root_directory fp)). item_ok item"
      "\<forall>j < nat (dir_total (root_directory fp)). \<not> name_matches (dir_items (root_directory fp) ! j) (part pt)"
      "0 \<notin> set (part pt)" "length (part pt) \<le> KERNEL_MAX_PATH"
    and room: "heap_used (kernel_heap st) + 2 \<le> 25600"
  shows "\<exists>st'. fat16_open io st (pt # pts) FILE_MODE_READ = Inr (ERROR (- EIO), None, st') \<and>
    kernel_heap st' = kernel_heap st"
proof -
  obtain d st1 where d: "kzalloc st 8 = (d, st1)" by fastforce
  have s1: "d \<noteq> 0 \<and> \<not> IS_ERROR d \<and> fat_ok io ph img fp st1 \<and> heap_grows (kernel_heap st) [d] (kernel_heap st1) \<and>
    heap_used (kernel_heap st1) = Suc (heap_used (kernel_heap st))"
    by (rule fat_ok_kzalloc [OF ok blocks_small(2) d]) (use room in simp)
  have "fs_private st1 = Some fp" using s1 by (simp add: fat_ok_def)
  then have "fat16_get_directory_entry io st1 (pt # pts) = Inr (None, st1)"
    using fat16_find_none [OF no, of io st1] by (simp add: fat16_get_directory_entry_def fat16_find_item_in_directory_def)
  then have "fat16_open io st (pt # pts) FILE_MODE_READ = Inr (ERROR (- EIO), None, kfree st1 d)"
    using d s1 by (simp add: fat16_open_def)
  moreover have "kernel_heap (kfree st1 d) = kernel_heap st"
    using heap_grows_free [of _ "[d]", of "kernel_heap st" "kernel_heap st1" d] s1 by (auto dest: heap_grows_nil)
  ultimately show ?thesis by blast
qed

subsection \<open>Decoded directories\<close>

lemma decode_directory_slots:
  "decode_directory (disk_bytes img p (n * 32)) = map (\<lambda>i. decode_directory_item (disk_bytes img (p + 32 * i) 32)) [0 ..< n]"
proof (induction n arbitrary: p)
  case 0
  then show ?case by (simp add: decode_directory.simps)
next
  case (Suc n)
  have "disk_bytes img p (Suc n * 32) = disk_bytes img p 32 @ disk_bytes img (p + 32) (n * 32)"
    using disk_bytes_append [of img p 32 "n * 32"] by simp
  then show ?case
    using Suc [of "p + 32"] upt_conv_Cons [of 0 "Suc n"]
    by (simp add: decode_directory.simps [of "_ @ _"] map_Suc_upt [symmetric] add.assoc del: upt_Suc)
qed

lemma decoded_item_ok: "item_ok (decode_directory_item (disk_bytes img p 32))"
  by (simp add: item_ok_def decode_directory_item_def)

lemma root_dir_items:
  "length (dir_items (root_dir img m dir)) = root_entries img" "\<forall>item \<in> set (dir_items (root_dir img m dir)). item_ok item"
  "i < root_entries img \<Longrightarrow>
     dir_items (root_dir img m dir) ! i = decode_directory_item (disk_bytes img (root_pos img + 32 * i) 32)"
  by (auto simp: root_dir_def decode_directory_slots decoded_item_ok)

text \<open>The volume an image holds: what is mounted of it, apart from the addresses of the allocations.\<close>

definition volume :: "(nat \<Rightarrow> u8 list) \<Rightarrow> nat \<Rightarrow> fat_private" where
  "volume img m = \<lparr>fp_addr = 0, header = boot_header img, root_directory = root_dir img m 0,
     cluster_read_stream = None, fat_read_stream = None, directory_stream = None\<rparr>"

lemma volume_eqs:
  assumes "header fp = boot_header img" "root_directory fp = root_dir img m dir"
  shows "cluster_size fp = cluster_size (volume img m)" "cluster_start fp c = cluster_start (volume img m) c"
    "dir_items (root_directory fp) = dir_items (root_directory (volume img m))"
    "dir_total (root_directory fp) = dir_total (root_directory (volume img m))"
    "only_entry (root_directory fp) k name \<longleftrightarrow> only_entry (root_directory (volume img m)) k name"
  using assms
  by (simp_all add: volume_def cluster_size_def cluster_start_def fat16_cluster_to_sector_def root_dir_def only_entry_def)

subsection \<open>A volume with one file\<close>

text \<open>One reserved sector, one one-sector table, a root directory of 16 entries and one-sector
  clusters. \<open>sample_volume slots\<close> has the directory entries \<open>slots\<close>; its cluster 2 is sector 3.\<close>

definition sample_boot :: "u8 list" where
  "sample_boot = [0xEB, 0x3C, 0x90] @ replicate 8 0x20 @ [0, 2, 1, 1, 0, 1, 16, 0, 0, 0, 0xF8, 1, 0] @ replicate 12 0 @
     [0, 0, 0x29] @ replicate 23 0"

definition sample_entry :: "u8 list" where
  "sample_entry = [72, 69, 76, 76, 79, 32, 32, 32, 84, 88, 84, 0x20] @ replicate 14 0 @ [2, 0, 5, 0, 0, 0]"

lemma length_sample_entry [simp]: "length sample_entry = 32"
  by (simp add: sample_entry_def)

definition pad_sector :: "u8 list \<Rightarrow> u8 list" where
  "pad_sector bs = bs @ replicate (512 - length bs) 0"

definition sample_volume :: "u8 list \<Rightarrow> nat \<Rightarrow> u8 list" where
  "sample_volume slots lba =
     (if lba = 0 then pad_sector sample_boot
      else if lba = 1 then pad_sector [0xF8, 0xFF, 0xFF, 0xFF, 0xFF, 0xFF]
      else if lba = 2 then pad_sector slots
      else if lba = 3 then pad_sector [104, 101, 108, 108, 111]
      else replicate 512 0)"

lemma sample_volume_ata: "length slots \<le> 512 \<Longrightarrow> ata_device (sim_io (sample_volume slots)) sim_phase (sample_volume slots)"
  by (rule sim_ata) (simp add: sample_volume_def pad_sector_def sample_boot_def)

lemma sample_header: "disk_bytes (sample_volume slots) 0 62 = sample_boot"
proof -
  have "disk_bytes (sample_volume slots) 0 62 = take 62 (drop (0 mod 512) (sample_volume slots (0 div 512)))"
    by (rule disk_bytes_sector) (simp_all add: sample_volume_def pad_sector_def sample_boot_def)
  then show ?thesis by (simp add: sample_volume_def pad_sector_def sample_boot_def)
qed

lemma sample_volume_facts:
  "signature (extended_header (boot_header (sample_volume slots))) = 0x29"
  "root_entries (sample_volume slots) = 16" "root_pos (sample_volume slots) = 1024"
  "sectors_per_cluster (primary_header (boot_header (sample_volume slots))) = 1"
  by (simp_all add: boot_header_def sample_header root_entries_def root_pos_def root_start_def decode_header_def
      sample_boot_def le16_def nth_append)

lemma sample_root_blocks: "root_blocks (sample_volume slots) = 1"
  by (simp add: root_blocks_def sample_volume_facts)

lemma sample_slot:
  assumes "length slots \<le> 512" "i < 16"
  shows "disk_bytes (sample_volume slots) (1024 + 32 * i) 32 = take 32 (drop (32 * i) (pad_sector slots))"
    "slot_mark (sample_volume slots) 1024 i = pad_sector slots ! (32 * i)"
proof -
  have m: "(1024 + 32 * i) div 512 = 2" "(1024 + 32 * i) mod 512 = 32 * i"
    using assms(2) mod_mult_self1 [of "32 * i" 2 512] by (simp_all add: add.commute)
  have "disk_bytes (sample_volume slots) (1024 + 32 * i) 32 =
      take 32 (drop ((1024 + 32 * i) mod 512) (sample_volume slots ((1024 + 32 * i) div 512)))"
    by (rule disk_bytes_sector) (use assms m in \<open>simp_all add: sample_volume_def pad_sector_def\<close>)
  then show "disk_bytes (sample_volume slots) (1024 + 32 * i) 32 = take 32 (drop (32 * i) (pad_sector slots))"
    using m by (simp add: sample_volume_def)
  show "slot_mark (sample_volume slots) 1024 i = pad_sector slots ! (32 * i)"
    using m by (simp add: slot_mark_def disk_byte_def sample_volume_def)
qed

definition deleted_entry :: "u8 list" where
  "deleted_entry = [0xE5, 76, 68, 32, 32, 32, 32, 32, 84, 88, 84, 0x20] @ replicate 14 0 @ [3, 0, 5, 0, 0, 0]"

definition hello_txt :: path_part where
  "hello_txt = \<lparr>pp_addr = 0, part_addr = 0, part = [104, 101, 108, 108, 111, 46, 116, 120, 116]\<rparr>"

lemma one_file_volume:
  "root_marked (sample_volume sample_entry) 1"
  "used_slots (sample_volume sample_entry) 1024 0 1 = 1"
  "decode_directory_item (disk_bytes (sample_volume sample_entry) 1024 32) = decode_directory_item sample_entry"
  using sample_slot [of sample_entry 0] sample_slot [of sample_entry 1]
  by (simp_all add: root_marked_def sample_volume_facts used_slots_def pad_sector_def sample_entry_def nth_append)

lemma sample_item:
  "name_matches (decode_directory_item sample_entry) (part hello_txt)"
  "attribute (decode_directory_item sample_entry) AND FAT_FILE_SUBDIRECTORY = 0"
  "fat16_get_first_cluster (decode_directory_item sample_entry) = 2"
  by (simp_all add: decode_directory_item_def sample_entry_def name_matches_def short_name_def hello_txt_def
      name_char_def tolower_def kconfig fat16_get_first_cluster_def le16_def nth_append)

lemma one_file_entry:
  "only_entry (root_directory (volume (sample_volume sample_entry) 1)) 0 (part hello_txt)"
  "dir_items (root_directory (volume (sample_volume sample_entry) 1)) ! 0 = decode_directory_item sample_entry"
proof -
  let ?d = "root_dir (sample_volume sample_entry) 1 0"
  have t: "dir_total ?d = 1" using one_file_volume(2) by (simp add: root_dir_def sample_volume_facts)
  have i: "dir_items ?d ! 0 = decode_directory_item sample_entry"
    using root_dir_items(3) [of 0 "sample_volume sample_entry" 1 0] one_file_volume(3) by (simp add: sample_volume_facts)
  show "dir_items (root_directory (volume (sample_volume sample_entry) 1)) ! 0 = decode_directory_item sample_entry"
    using i by (simp add: volume_def)
  show "only_entry (root_directory (volume (sample_volume sample_entry) 1)) 0 (part hello_txt)"
    using t i sample_item(1) root_dir_items(1,2) [of "sample_volume sample_entry" 1 0]
    by (simp add: volume_def only_entry_def sample_volume_facts) (simp add: hello_txt_def kconfig)
qed

lemma one_file_cluster:
  "cluster_size (volume (sample_volume slots) m) = 512" "cluster_start (volume (sample_volume slots) m) 2 = int 1536"
  by (simp_all add: cluster_size_def cluster_start_def fat16_cluster_to_sector_def volume_def root_dir_def sample_volume_facts)

definition boot_fatst :: "sim_disk fatst" where
  "boot_fatst = \<lparr>kernel_heap = kernel_heap boot_dstate, kmem = kmem boot_dstate, current_directory = 0,
     vedio_mem = 0xB8000, terminal_row = 0, terminal_col = 0, device = sim_idle, sector_size = 512,
     disk_id = 0, filesystem = None, fs_private = None\<rparr>"

lemma boot_fatst_ok:
  "kheap_ok boot_fatst" "heap_used (kernel_heap boot_fatst) = 0" "sim_phase (device boot_fatst) = Idle"
  "sector_size boot_fatst = 512" "disk_id boot_fatst = 0"
  using boot_dstate_ok by (simp_all add: boot_fatst_def kheap_ok_def sim_idle_def)

subsection \<open>Properties\<close>

lemma sample_content: "disk_bytes (sample_volume slots) 1536 5 = [104, 101, 108, 108, 111]"
  by (simp add: disk_bytes_def disk_byte_def sample_volume_def pad_sector_def upt_conv_Cons)

lemma fat16_read_internal_long:
  assumes fp: "fs_private st = Some fp" and cs: "0 < fat16_cluster_bytes st fp"
    and long: "fat16_cluster_bytes st fp < off + n" and off: "0 \<le> off" and n: "0 < n"
    and same: "\<And>c st1. fat16_get_cluster_for_offset io st c0 off = Inr (c, st1) \<Longrightarrow>
      \<exists>fp1. fs_private st1 = Some fp1 \<and> same_volume fp fp1 \<and> sector_size st1 = sector_size st"
  shows "fat16_read_internal io st c0 off n b \<noteq> Inr (KERNEL_ALL_OK, bs, st')"
proof
  assume r: "fat16_read_internal io st c0 off n b = Inr (KERNEL_ALL_OK, bs, st')"
  then obtain c st1 where c: "fat16_get_cluster_for_offset io st c0 off = Inr (c, st1)" "0 \<le> c"
    and rest: "or_diverge (fat16_read_clusters io st1 0 c off n b []) = Inr (KERNEL_ALL_OK, bs, st')"
    by (auto simp: fat16_read_internal_def fat16_read_internal_from_stream_def kbind_Inr_iff kconfig split: if_splits)
  from same [OF c(1)] obtain fp1 where f: "fs_private st1 = Some fp1" "same_volume fp fp1" "sector_size st1 = sector_size st"
    by auto
  from rest have "fat16_read_clusters io st1 0 c off n b [] = Some (Inr (KERNEL_ALL_OK, bs, st'))"
    by (auto simp: or_diverge_def split: option.splits)
  then show False
    using fat16_read_clusters_long [OF f(1)] same_volume_bytes [OF f(2,3)] assms(2-5) by metis
qed

lemma fat16_cluster_ahead_volume:
  "fat16_cluster_ahead io k st c0 = Inr (c, st1) \<Longrightarrow> fs_private st = Some fp \<Longrightarrow>
     \<exists>fp1. fs_private st1 = Some fp1 \<and> same_volume fp fp1 \<and> sector_size st1 = sector_size st"
proof (induction k arbitrary: st c0 fp)
  case 0
  then show ?case by (simp add: same_volume_def)
next
  case (Suc k)
  from Suc.prems(1) obtain e st2 where e: "fat16_get_fat_entry io st c0 = Inr (e, st2)"
    and rest: "st1 = st2 \<or> fat16_cluster_ahead io k st2 e = Inr (c, st1)"
    by (auto simp: kbind_Inr_iff split: if_splits)
  obtain fp2 where f: "fs_private st2 = Some fp2" "same_volume fp fp2" "sector_size st2 = sector_size st"
    using fat16_get_fat_entry_volume [OF e Suc.prems(2)] by auto
  from rest show ?case
  proof
    assume "fat16_cluster_ahead io k st2 e = Inr (c, st1)"
    from Suc.IH [OF this f(1)] f(2,3) same_volume_trans show ?thesis by fastforce
  qed (use f in auto)
qed

lemma fat16_get_cluster_for_offset_volume:
  "fat16_get_cluster_for_offset io st c0 off = Inr (c, st1) \<Longrightarrow> fs_private st = Some fp \<Longrightarrow>
     \<exists>fp1. fs_private st1 = Some fp1 \<and> same_volume fp fp1 \<and> sector_size st1 = sector_size st"
  by (auto simp: fat16_get_cluster_for_offset_def Let_def split: if_splits intro: fat16_cluster_ahead_volume)

text \<open>C19: Mounting a volume. The disk controller conforms, the boot sector carries the extended
  signature, the root directory has at least one entry and an end marker (slot \<open>m\<close> is the first
  whose name starts with 0, without which the driver's count would run on), its positions fit an \<open>int\<close>,
  and the heap has room: seven more than the blocks in use, times the blocks of the root
  directory (one per 128 entries), is within the heap's 25600 blocks. Then \<open>fat16_resolve\<close> returns 0,
  the private data hold the boot sector's header and the root directory's slots exactly as they
  are on the disk, the entry count is the number of slots before the end marker that are not deleted,
  and five heap allocations are left (private data, three streams, root directory).\<close>

theorem fat16_resolve_root_directory:
  assumes "ata_device io ph img" "kheap_ok st" "ph (device st) = Idle" "sector_size st = 512" "disk_id st = 0"
    and "(heap_used (kernel_heap st) + 7) * root_blocks img \<le> 25600"
    and "signature (extended_header (boot_header img)) = 0x29" "root_marked img m"
  shows "\<exists>st' fp ps. fat16_resolve io st = Inr (0, st') \<and> fs_private st' = Some fp \<and> filesystem st' = Some FAT16_FS \<and>
    header fp = decode_header (disk_bytes img 0 62) \<and>
    dir_items (root_directory fp) = map (\<lambda>i. decode_directory_item (disk_bytes img (root_pos img + 32 * i) 32))
      [0 ..< root_entries img] \<and>
    dir_total (root_directory fp) =
      int (length (filter (\<lambda>j. disk_byte img (root_pos img + 32 * j) \<noteq> 0xE5) [0 ..< m])) \<and>
    length ps = 5 \<and> heap_grows (kernel_heap st) ps (kernel_heap st')"
proof -
  obtain fp st' dir ps where "fat16_resolve io st = Inr (0, st')" "fat_ok io ph img fp st'" "header fp = boot_header img"
    "root_directory fp = root_dir img m dir" "filesystem st' = Some FAT16_FS"
    "heap_grows (kernel_heap st) ps (kernel_heap st')" "length ps = 5"
    by (rule fat16_resolve_mounts [OF assms])
  then show ?thesis
    by (intro exI [of _ st'] exI [of _ fp] exI [of _ ps])
      (simp add: fat_ok_def boot_header_def root_dir_def decode_directory_slots used_slots_def slot_mark_def)
qed

theorem fat16_resolve_root_directory_witness:
  "\<exists>st' fp ps. fat16_resolve (sim_io (sample_volume sample_entry)) boot_fatst = Inr (0, st') \<and>
    fs_private st' = Some fp \<and> filesystem st' = Some FAT16_FS \<and>
    header fp = decode_header (disk_bytes (sample_volume sample_entry) 0 62) \<and>
    dir_items (root_directory fp) = map (\<lambda>i. decode_directory_item (disk_bytes (sample_volume sample_entry)
      (root_pos (sample_volume sample_entry) + 32 * i) 32)) [0 ..< root_entries (sample_volume sample_entry)] \<and>
    dir_total (root_directory fp) = int (length (filter (\<lambda>j. disk_byte (sample_volume sample_entry)
      (root_pos (sample_volume sample_entry) + 32 * j) \<noteq> 0xE5) [0 ..< 1])) \<and>
    length ps = 5 \<and> heap_grows (kernel_heap boot_fatst) ps (kernel_heap st')"
  by (rule fat16_resolve_root_directory [OF sample_volume_ata boot_fatst_ok(1,3,4,5) _ sample_volume_facts(1) one_file_volume(1)])
    (simp_all add: boot_fatst_ok sample_root_blocks)

text \<open>C20: A disk without the extended boot signature is refused with \<open>-EFSNOTUS\<close>, everything allocated for
  the attempt is released and no private data stay behind.\<close>

theorem fat16_resolve_refuses_foreign:
  assumes "ata_device io ph img" "kheap_ok st" "ph (device st) = Idle" "sector_size st = 512" "disk_id st = 0"
    and "heap_used (kernel_heap st) + 6 \<le> 25600" and "disk_byte img 38 \<noteq> 0x29"
  shows "\<exists>st'. fat16_resolve io st = Inr (- EFSNOTUS, st') \<and> kernel_heap st' = kernel_heap st \<and> fs_private st' = None"
proof -
  have "signature (extended_header (boot_header img)) \<noteq> 0x29"
    using assms(7) by (simp add: boot_header_def decode_header_def disk_bytes_def)
  from fat16_resolve_refuses [OF assms(1-6) this] show ?thesis by metis
qed

theorem fat16_resolve_refuses_foreign_witness:
  "\<exists>st'. fat16_resolve (sim_io sample_img) boot_fatst = Inr (- EFSNOTUS, st') \<and>
    kernel_heap st' = kernel_heap boot_fatst \<and> fs_private st' = None"
  by (rule fat16_resolve_refuses_foreign [OF sample_ata boot_fatst_ok(1,3,4,5)])
    (simp_all add: boot_fatst_ok disk_byte_def sample_img_def)

text \<open>C22: A read that reaches beyond the first cluster of its range never succeeds: \<open>fat16_read_internal\<close>
  bounds each round by the cluster size minus the offset from the start of the file, so the second
  round asks for no bytes or for a negative number of them.\<close>

theorem fat16_read_internal_one_cluster_only:
  assumes "fs_private st = Some fp" and "0 < fat16_cluster_bytes st fp"
    and "fat16_cluster_bytes st fp < off + n" and "0 \<le> off" and "0 < n"
  shows "fat16_read_internal io st c0 off n b \<noteq> Inr (KERNEL_ALL_OK, bs, st')"
  by (rule fat16_read_internal_long [OF assms]) (rule fat16_get_cluster_for_offset_volume [OF _ assms(1)])

theorem fat16_read_internal_one_cluster_only_witness:
  "\<forall>bs st'. fat16_read_internal (sim_io (sample_volume sample_entry))
     (boot_fatst\<lparr>fs_private := Some (volume (sample_volume sample_entry) 1)\<rparr>) 2 0 600 False \<noteq> Inr (KERNEL_ALL_OK, bs, st')"
  by (intro allI, rule fat16_read_internal_one_cluster_only [where fp = "volume (sample_volume sample_entry) 1"])
    (simp_all add: fat16_cluster_bytes_def boot_fatst_ok volume_def sample_volume_facts)

text \<open>C21: Seeking an open file: a successful seek puts the position at the requested place and inside the
  file, and a refused one (beyond the end, from the end, on a directory) changes nothing.\<close>

theorem fat16_seek_in_file:
  assumes "fat16_seek desc offset whence = Inr (r, desc')"
  shows "if r = 0 then \<exists>a p item. fdesc_item desc = FAT_ITEM_TYPE_FILE a (Some (p, item)) \<and>
      fdesc_pos desc' < filesize item \<and> fdesc_item desc' = fdesc_item desc \<and>
      fdesc_pos desc' = (if whence = SEEK_SET then word_of_int offset else fdesc_pos desc + word_of_int offset)
    else desc' = desc \<and> (r = - EINVAGS \<or> r = - ENOIMPL \<and> whence = SEEK_END)"
  using assms unfolding fat16_seek_def
  by (cases whence) (auto simp: kconfig split: fat_item.splits option.splits if_splits)

theorem fat16_seek_in_file_witness:
  "let desc = open_file 1 2 3 (decode_directory_item sample_entry); desc' = desc\<lparr>fdesc_pos := 4\<rparr> in
   fat16_seek desc 4 SEEK_SET = Inr (0, desc') \<and>
   (\<exists>a p item. fdesc_item desc = FAT_ITEM_TYPE_FILE a (Some (p, item)) \<and> fdesc_pos desc' < filesize item \<and>
      fdesc_item desc' = fdesc_item desc \<and> fdesc_pos desc' = 4)"
proof -
  let ?d = "open_file 1 2 3 (decode_directory_item sample_entry)"
  have "filesize (decode_directory_item sample_entry) = 5"
    by (simp add: decode_directory_item_def sample_entry_def le32_def nth_append)
  then have s: "fat16_seek ?d 4 SEEK_SET = Inr (0, ?d\<lparr>fdesc_pos := 4\<rparr>)"
    by (simp add: fat16_seek_def open_file_def)
  from fat16_seek_in_file [OF s] s show ?thesis by (simp add: Let_def)
qed

text \<open>C23: Entries after a deleted one can be out of reach. The driver counts the slots that are not deleted
  but looks at that many slots from the first on: a file in slot \<open>k\<close> is not found (\<open>-EIO\<close>) when at
  most \<open>k\<close> slots are in use, although it lies before the end marker. The failed open releases what it
  had allocated. (The volume is one that mounts: extended signature, end marker in slot \<open>m\<close>, room on the
  heap.)\<close>

theorem fat16_deleted_entry_hides_file:
  assumes "ata_device io ph img" "kheap_ok st" "ph (device st) = Idle" "sector_size st = 512" "disk_id st = 0"
    and "(heap_used (kernel_heap st) + 10) * root_blocks img \<le> 25600"
    and "signature (extended_header (boot_header img)) = 0x29" "root_marked img m"
    and "k < m" "m \<le> root_entries img" "name_matches (decode_directory_item (disk_bytes img (root_pos img + 32 * k) 32)) (part pt)"
    and "\<forall>j < m. j \<noteq> k \<longrightarrow> \<not> name_matches (decode_directory_item (disk_bytes img (root_pos img + 32 * j) 32)) (part pt)"
    and "length (filter (\<lambda>j. disk_byte img (root_pos img + 32 * j) \<noteq> 0xE5) [0 ..< m]) \<le> k"
    and "0 \<notin> set (part pt)" "length (part pt) \<le> KERNEL_MAX_PATH"
  shows "\<exists>st1 st2. fat16_resolve io st = Inr (0, st1) \<and>
    fat16_open io st1 [pt] FILE_MODE_READ = Inr (ERROR (- EIO), None, st2) \<and> kernel_heap st2 = kernel_heap st1"
proof -
  have room7: "(heap_used (kernel_heap st) + 7) * root_blocks img \<le> 25600" using assms(6) by (simp add: add_mult_distrib)
  obtain fp st1 dir ps where r: "fat16_resolve io st = Inr (0, st1)" "fat_ok io ph img fp st1"
    "root_directory fp = root_dir img m dir" "heap_used (kernel_heap st1) \<le> heap_used (kernel_heap st) + 5 + root_blocks img"
    by (rule fat16_resolve_mounts [OF assms(1-5) room7 assms(7,8)])
  have t: "nat (dir_total (root_directory fp)) \<le> k"
    using assms(13) r(3) by (simp add: root_dir_def used_slots_def slot_mark_def)
  have "\<exists>st2. fat16_open io st1 (pt # []) FILE_MODE_READ = Inr (ERROR (- EIO), None, st2) \<and> kernel_heap st2 = kernel_heap st1"
  proof (rule fat16_open_not_found [OF r(2)])
    show "\<forall>j < nat (dir_total (root_directory fp)). \<not> name_matches (dir_items (root_directory fp) ! j) (part pt)"
      using t r(3) assms(9,10,12) root_dir_items(3) [of _ img m dir] by auto
  qed (use t r assms(9,10,14,15) root_dir_items(1,2) [of img m dir] room_beside [OF assms(6) root_blocks_pos [OF assms(8)]] in auto)
  with r(1) show ?thesis by auto
qed

lemma deleted_slots:
  "root_marked (sample_volume (deleted_entry @ sample_entry)) 2"
  "disk_bytes (sample_volume (deleted_entry @ sample_entry)) 1056 32 = sample_entry"
  "disk_bytes (sample_volume (deleted_entry @ sample_entry)) 1024 32 = deleted_entry"
  "filter (\<lambda>j. disk_byte (sample_volume (deleted_entry @ sample_entry)) (1024 + 32 * j) \<noteq> 0xE5) [0 ..< 2] = [1]"
proof -
  have l: "length deleted_entry = 32" by (simp add: deleted_entry_def)
  have m: "slot_mark (sample_volume (deleted_entry @ sample_entry)) 1024 0 = 0xE5"
    "slot_mark (sample_volume (deleted_entry @ sample_entry)) 1024 1 = 72"
    "slot_mark (sample_volume (deleted_entry @ sample_entry)) 1024 2 = 0"
    using sample_slot(2) [of "deleted_entry @ sample_entry" 0] sample_slot(2) [of "deleted_entry @ sample_entry" 1]
      sample_slot(2) [of "deleted_entry @ sample_entry" 2] l
    by (simp_all add: pad_sector_def nth_append) (simp_all add: deleted_entry_def sample_entry_def nth_append)
  have u: "[0 ..< 2] = [0, 1 :: nat]" by (simp add: upt_conv_Cons)
  show "root_marked (sample_volume (deleted_entry @ sample_entry)) 2"
    using m by (auto simp: root_marked_def sample_volume_facts less_2_cases_iff)
  show "filter (\<lambda>j. disk_byte (sample_volume (deleted_entry @ sample_entry)) (1024 + 32 * j) \<noteq> 0xE5) [0 ..< 2] = [1]"
    using m unfolding u slot_mark_def [symmetric] by simp
  show "disk_bytes (sample_volume (deleted_entry @ sample_entry)) 1056 32 = sample_entry"
    "disk_bytes (sample_volume (deleted_entry @ sample_entry)) 1024 32 = deleted_entry"
    using sample_slot(1) [of "deleted_entry @ sample_entry" 1] sample_slot(1) [of "deleted_entry @ sample_entry" 0] l
    by (simp_all add: pad_sector_def)
qed

lemma deleted_name: "\<not> name_matches (decode_directory_item deleted_entry) (part hello_txt)"
  by (simp add: decode_directory_item_def deleted_entry_def name_matches_def short_name_def hello_txt_def
      name_char_def tolower_def)

theorem fat16_deleted_entry_hides_file_witness:
  "\<exists>st1 st2. fat16_resolve (sim_io (sample_volume (deleted_entry @ sample_entry))) boot_fatst = Inr (0, st1) \<and>
    fat16_open (sim_io (sample_volume (deleted_entry @ sample_entry))) st1 [hello_txt] FILE_MODE_READ =
      Inr (ERROR (- EIO), None, st2) \<and> kernel_heap st2 = kernel_heap st1"
proof (rule fat16_deleted_entry_hides_file [OF sample_volume_ata boot_fatst_ok(1,3,4,5) _ sample_volume_facts(1) deleted_slots(1), where k = 1])
  show "\<forall>j < 2. j \<noteq> 1 \<longrightarrow> \<not> name_matches (decode_directory_item (disk_bytes (sample_volume (deleted_entry @ sample_entry))
      (root_pos (sample_volume (deleted_entry @ sample_entry)) + 32 * j) 32)) (part hello_txt)"
    by (auto simp: less_2_cases_iff sample_volume_facts deleted_slots deleted_name)
  show "0 \<notin> set (part hello_txt)" "length (part hello_txt) \<le> KERNEL_MAX_PATH"
    by (simp_all add: hello_txt_def kconfig)
qed (simp_all add: sample_volume_facts deleted_slots sample_item boot_fatst_ok sample_root_blocks, simp add: deleted_entry_def)

end
