(* ===== verification/Fat16_Frame.thy ===== *)
theory Fat16_Frame
  imports Fat16
begin

section \<open>What the FAT16 driver leaves alone\<close>

text \<open>
  The driver's operations change the heap, the memory, the device and the private data of the disk. The
  rest of the kernel state (\<open>outside\<close>: the disk structure's other fields and every field an
  extension of the state adds) comes out of every operation as it went in. The lemmas follow
  the call graph of \<open>fat16.c\<close>, leaves first.
\<close>

definition outside :: "('d, 'a) fatst_scheme \<Rightarrow> int \<times> int \<times> fs_type option \<times> 'a" where
  "outside st = (sector_size st, disk_id st, filesystem st, fatst.more st)"

lemma outside_upd [simp]:
  "outside (st\<lparr>fs_private := p\<rparr>) = outside st" "outside (st\<lparr>device := d\<rparr>) = outside st"
  "outside (st\<lparr>kernel_heap := h\<rparr>) = outside st" "outside (st\<lparr>kmem := m\<rparr>) = outside st"
  "outside (kfree st a) = outside st" "outside (diskstream_close st s) = outside st"
  by (simp_all add: outside_def kfree_def diskstream_close_def split: option.splits)

lemma outside_kzalloc: "kzalloc st n = (p, st') \<Longrightarrow> outside st' = outside st"
  using kzalloc_fields [of st n p st'] by auto

lemma outside_kmalloc: "kmalloc st n = (p, st') \<Longrightarrow> outside st' = outside st"
  by (auto simp: kmalloc_def split: prod.splits)

lemma outside_diskstream_new: "diskstream_new st i = (s, st') \<Longrightarrow> outside st' = outside st"
  by (auto simp: diskstream_new_def Let_def split: prod.splits if_splits dest: outside_kzalloc)

lemma outside_diskstream_read: "diskstream_read io st s b n = Inr (r, bs, s', st') \<Longrightarrow> outside st' = outside st"
  by (auto simp: diskstream_read_def kbind_Inr_iff Let_def split: option.splits if_splits prod.splits dest: outside_kmalloc)

lemma outside_fp_seek: "fp_seek fld upd st p = Inr (r, st') \<Longrightarrow> outside st' = outside st"
  by (auto simp: fp_seek_def split: option.splits prod.splits)

lemma outside_fp_read: "fp_read io fld upd st b n = Inr (r, bs, st') \<Longrightarrow> outside st' = outside st"
  by (auto simp: fp_read_def kbind_Inr_iff split: option.splits dest: outside_diskstream_read)

lemma outside_count_items:
  "fat16_count_items io st cnt = Some x \<Longrightarrow> (\<forall>r st'. x = Inr (r, st') \<longrightarrow> outside st' = outside st)"
proof (induction rule: fat16_count_items.raw_induct [rotated 1, consumes 1])
  case (1 rec io st cnt x)
  show ?case
  proof (cases "fp_read io directory_stream directory_stream_update st False FAT_DIRECTORY_ITEM_SIZE")
    case (Inl e)
    with 1(2) show ?thesis by auto
  next
    case (Inr y)
    obtain res bs st1 where y: "y = (res, bs, st1)" by (cases y)
    from outside_fp_read [OF Inr [unfolded y]] 1(2) 1(1) show ?thesis
      unfolding Inr y by (auto simp: Let_def split: if_splits)
  qed
qed

lemma outside_count: "fat16_count_items io st cnt = Some (Inr (r, st')) \<Longrightarrow> outside st' = outside st"
  using outside_count_items by blast

lemma outside_total_items:
  "fat16_get_total_items_for_directory io st s = Inr (r, st') \<Longrightarrow> outside st' = outside st"
  by (auto simp: fat16_get_total_items_for_directory_def kbind_Inr_iff or_diverge_def split: if_splits option.splits
      dest!: outside_fp_seek outside_count)

lemma outside_get_fat_entry: "fat16_get_fat_entry io st c = Inr (r, st') \<Longrightarrow> outside st' = outside st"
  by (auto simp: fat16_get_fat_entry_def kbind_Inr_iff Let_def split: option.splits if_splits
      dest!: outside_fp_seek outside_fp_read)

lemma outside_get_next_cluster: "fat16_get_next_cluster io st c = Inr (r, st') \<Longrightarrow> outside st' = outside st"
  by (auto simp: fat16_get_next_cluster_def kbind_Inr_iff split: if_splits dest: outside_get_fat_entry)

lemma outside_cluster_ahead: "fat16_cluster_ahead io k st c = Inr (r, st') \<Longrightarrow> outside st' = outside st"
  by (induction k arbitrary: st c) (auto simp: kbind_Inr_iff split: if_splits dest: outside_get_fat_entry)

lemma outside_cluster_for_offset: "fat16_get_cluster_for_offset io st c off = Inr (r, st') \<Longrightarrow> outside st' = outside st"
  by (auto simp: fat16_get_cluster_for_offset_def Let_def split: option.splits if_splits dest: outside_cluster_ahead)

lemma outside_read_clusters:
  "fat16_read_clusters io st res c off remain b acc = Some x \<Longrightarrow>
     (\<forall>r bs st'. x = Inr (r, bs, st') \<longrightarrow> outside st' = outside st)"
proof (induction rule: fat16_read_clusters.raw_induct [rotated 1, consumes 1])
  case (1 rec io st res c off remain b acc x)
  have ih: "outside st' = outside st3" if "rec io st3 res' c' off' remain' b' acc' = Some (Inr (r, bs, st'))"
    for st3 res' c' off' remain' b' acc' r bs st'
    using 1(1) [OF that] by blast
  show ?case
    using 1(2) by (auto simp: Let_def split: if_splits option.splits sum.splits prod.splits
        dest!: ih outside_fp_seek outside_fp_read outside_get_next_cluster)
qed

lemma outside_read_internal: "fat16_read_internal io st c off n b = Inr (r, bs, st') \<Longrightarrow> outside st' = outside st"
proof -
  assume "fat16_read_internal io st c off n b = Inr (r, bs, st')"
  then obtain c1 st1 where c: "fat16_get_cluster_for_offset io st c off = Inr (c1, st1)"
    and rest: "st' = st1 \<or> fat16_read_clusters io st1 0 c1 off n b [] = Some (Inr (r, bs, st'))"
    by (auto simp: fat16_read_internal_def fat16_read_internal_from_stream_def kbind_Inr_iff or_diverge_def
        split: if_splits option.splits)
  from rest have "outside st' = outside st1" using outside_read_clusters by blast
  with outside_cluster_for_offset [OF c] show ?thesis by simp
qed

lemma outside_free_directory [simp]: "outside (fat16_free_directory st d) = outside st"
  by (simp add: fat16_free_directory_def split: option.splits)

lemma outside_item_free [simp]: "outside (fat16_fat_item_free st it) = outside st"
  by (simp add: fat16_fat_item_free_def split: fat_item.splits)

lemma outside_load_directory:
  assumes "fat16_load_fat_directory io st item = Inr (d, st')"
  shows "outside st' = outside st"
proof -
  obtain a st1 where a: "kzalloc st 16 = (a, st1)" by fastforce
  consider "st' = st" | "st' = st1" | (load) fp n st2 where "fs_private st1 = Some fp"
      "fat16_get_total_items_for_directory io st1 (fat16_cluster_to_sector fp (fat16_get_first_cluster item)) = Inr (n, st2)"
      "a \<noteq> 0" "attribute item AND FAT_FILE_SUBDIRECTORY \<noteq> 0"
    using assms a by (fastforce simp: fat16_load_fat_directory_def kbind_Inr_iff Let_def split: if_splits option.splits)
  then show ?thesis
  proof cases
    case load
    let ?sz = "sint (word_of_int (n * FAT_DIRECTORY_ITEM_SIZE) :: u32)"
    obtain p st3 where p: "kzalloc st2 (word_of_int ?sz) = (p, st3)" by fastforce
    have "outside st' = outside st3"
      using assms load a p
      by (auto simp: fat16_load_fat_directory_def kbind_Inr_iff Let_def split: if_splits dest!: outside_read_internal)
    with outside_kzalloc [OF p] outside_total_items [OF load(2)] outside_kzalloc [OF a] show ?thesis by simp
  qed (use outside_kzalloc [OF a] in auto)
qed

lemma outside_clone: "fat16_clone_directory_item st item n = (r, st') \<Longrightarrow> outside st' = outside st"
  by (auto simp: fat16_clone_directory_item_def split: if_splits prod.splits dest!: outside_kzalloc)

lemma outside_new_item: "fat16_new_fat_item_for_directory_item io st item = Inr (f, st') \<Longrightarrow> outside st' = outside st"
  by (auto simp: fat16_new_fat_item_for_directory_item_def kbind_Inr_iff split: if_splits prod.splits
      dest!: outside_kzalloc outside_load_directory outside_clone)

lemma outside_find_loop: "fat16_find_loop io n st items i name f = Inr (f', st') \<Longrightarrow> outside st' = outside st"
  by (induction n arbitrary: st i f)
    (auto simp: kbind_Inr_iff split: if_splits option.splits dest!: outside_new_item)

lemma outside_find_item: "fat16_find_item_in_directory io st d name = Inr (f, st') \<Longrightarrow> outside st' = outside st"
  by (auto simp: fat16_find_item_in_directory_def split: option.splits dest: outside_find_loop)

lemma outside_walk: "fat16_walk io st it pts = Inr (f, st') \<Longrightarrow> outside st' = outside st"
  by (induction pts arbitrary: st it)
    (fastforce split: fat_item.splits sum.splits prod.splits option.splits dest: outside_find_item)+

lemma outside_directory_entry: "fat16_get_directory_entry io st path = Inr (f, st') \<Longrightarrow> outside st' = outside st"
  by (auto simp: fat16_get_directory_entry_def kbind_Inr_iff split: list.splits option.splits
      dest!: outside_find_item outside_walk)

lemma outside_open: "fat16_open io st path mode = Inr (p, d, st') \<Longrightarrow> outside st' = outside st"
  by (auto simp: fat16_open_def kbind_Inr_iff split: if_splits option.splits prod.splits
      dest!: outside_kzalloc outside_directory_entry)

lemma outside_read_loop: "fat16_read_loop io n st c off sz b res acc = Inr (r, o', bs, st') \<Longrightarrow> outside st' = outside st"
  by (induction n arbitrary: st off res acc) (auto simp: kbind_Inr_iff split: if_splits dest!: outside_read_internal)

lemma outside_read: "fat16_read io st d sz n b = Inr (r, bs, d', st') \<Longrightarrow> outside st' = outside st"
  by (auto simp: fat16_read_def kbind_Inr_iff split: fat_item.splits option.splits if_splits dest!: outside_read_loop)

lemma outside_close [simp]: "outside (snd (fat16_close st d)) = outside st"
  by (simp add: fat16_close_def fat16_free_descriptor_def)

lemma outside_init_private: "fat16_init_private st p = (fp, st') \<Longrightarrow> outside st' = outside st"
  by (auto simp: fat16_init_private_def split: prod.splits dest!: outside_diskstream_new)

lemma outside_free_private [simp]: "outside (fat16_free_private st p) = outside st"
  by (simp add: fat16_free_private_def Let_def split: option.splits)

lemma outside_get_root_directory:
  assumes "fat16_get_root_directory io st = Inr (r, st')"
  shows "outside st' = outside st"
proof -
  from assms obtain fp s n st1 where t: "fs_private st = Some fp"
    "fat16_get_total_items_for_directory io st s = Inr (n, st1)"
    "s = uint (fat_copies (primary_header (header fp))) * uint (sectors_per_fat (primary_header (header fp)))
       + uint (reserved_sectors (primary_header (header fp)))" "sector_size st \<noteq> 0"
    by (auto simp: fat16_get_root_directory_def kbind_Inr_iff Let_def split: option.splits if_splits)
  let ?sz = "uint (root_dir_entries (primary_header (header fp))) * FAT_DIRECTORY_ITEM_SIZE"
  obtain p st2 where p: "kzalloc st1 (word_of_int ?sz) = (p, st2)" by fastforce
  have "outside st' = outside st2"
    using assms t p
    by (auto simp: fat16_get_root_directory_def kbind_Inr_iff Let_def split: if_splits dest!: outside_fp_seek outside_fp_read)
  with outside_kzalloc [OF p] outside_total_items [OF t(2)] show ?thesis by simp
qed

lemma resolve_more:
  assumes "fat16_resolve io st = Inr (r, st')"
  shows "fatst.more st' = fatst.more st" "sector_size st' = sector_size st" "disk_id st' = disk_id st"
proof -
  obtain p st1 where p: "kzalloc st 92 = (p, st1)" by fastforce
  obtain fp st2 where i: "fat16_init_private st1 p = (fp, st2)" by fastforce
  let ?st3 = "st2\<lparr>fs_private := Some fp, filesystem := Some FAT16_FS\<rparr>"
  obtain s st4 where s: "diskstream_new ?st3 (disk_id st) = (s, st4)" by fastforce
  have "outside st' = outside st4"
    using assms p i s
    by (auto simp: fat16_resolve_def kbind_Inr_iff Let_def split: if_splits
        dest!: outside_diskstream_read outside_get_root_directory)
  with outside_diskstream_new [OF s] have "outside st' = outside ?st3" by simp
  moreover have "outside st2 = outside st" using outside_init_private [OF i] outside_kzalloc [OF p] by simp
  ultimately show "fatst.more st' = fatst.more st" "sector_size st' = sector_size st" "disk_id st' = disk_id st"
    by (simp_all add: outside_def)
qed

end
