(* ===== verification/Vfs.thy ===== *)
theory Vfs
  imports Fat16_Frame
begin

unbundle bit_operations_syntax

section \<open>The file layer: fs/file.c and disk_search_and_init\<close>

text \<open>
  The file layer keeps a table of file systems and a table of 512 file descriptors, and reaches a
  file system only through the function pointers of \<open>struct filesystem\<close>. Here the record
  \<open>filesystem_ops\<close> holds these functions; the operations of the layer take the memory of the
  structures, a map from \<open>struct filesystem *\<close> values to their functions, as their first argument. The
  contract they rely on is the locale \<open>filesystem_driver\<close>; the FAT16 driver is shown to keep it.

  A descriptor's \<open>private\<close> pointer is the driver's descriptor, owned by the one table entry that holds
  it. A NULL pointer is \<open>None\<close>.
\<close>

subsection \<open>State\<close>

record file_descriptor =
  fdt_addr :: u32
  fd_index :: int
  fd_filesystem :: "fs_type option"
  fd_private :: "fat_item_descriptor option"

record 'd vfsst = "'d fatst" +
  filesystems :: "fs_type option list"
  file_descriptors :: "file_descriptor option list"

record 's filesystem_ops =
  fs_resolve_fn :: "'s \<Rightarrow> (int \<times> 's) kresult"
  fs_open_fn :: "'s \<Rightarrow> path_part list \<Rightarrow> FILE_MODE \<Rightarrow> (u32 \<times> fat_item_descriptor option \<times> 's) kresult"
  fs_read_fn :: "'s \<Rightarrow> fat_item_descriptor \<Rightarrow> u32 \<Rightarrow> u32 \<Rightarrow> bool \<Rightarrow> (int \<times> u8 list \<times> fat_item_descriptor \<times> 's) kresult"
  fs_seek_fn :: "fat_item_descriptor \<Rightarrow> int \<Rightarrow> FILE_SEEK_MODE \<Rightarrow> (int \<times> fat_item_descriptor) kresult"
  fs_stat_fn :: "fat_item_descriptor \<Rightarrow> file_stat \<Rightarrow> (int \<times> file_stat) kresult"
  fs_close_fn :: "'s \<Rightarrow> fat_item_descriptor \<Rightarrow> int \<times> 's"

definition fat16_fs :: "'d port_io \<Rightarrow> ('d, 'a) fatst_scheme filesystem_ops" where
  "fat16_fs io = \<lparr>fs_resolve_fn = fat16_resolve io, fs_open_fn = fat16_open io, fs_read_fn = fat16_read io,
     fs_seek_fn = fat16_seek, fs_stat_fn = fat16_stat, fs_close_fn = fat16_close\<rparr>"

definition fat16_init :: fs_type where
  "fat16_init = FAT16_FS"

definition KERNEL_MAX_FILESYSTEMS :: nat where [kconfig]: "KERNEL_MAX_FILESYSTEMS = 12"

subsection \<open>The table of file systems\<close>

text \<open>The first free entry of a table of pointers.\<close>

fun first_free :: "'b option list \<Rightarrow> nat option" where
  "first_free [] = None"
| "first_free (x # xs) = (if x = None then Some 0 else map_option Suc (first_free xs))"

definition fs_get_free_filesystem :: "('d, 'a) vfsst_scheme \<Rightarrow> nat option" where
  "fs_get_free_filesystem st = first_free (filesystems st)"

definition fs_insert_filesystem :: "('d, 'a) vfsst_scheme \<Rightarrow> fs_type \<Rightarrow> ('d, 'a) vfsst_scheme kresult" where
  "fs_insert_filesystem st fs =
     (case fs_get_free_filesystem st of
        None \<Rightarrow> Inl (Panic ''Problem inserting filesystem'')
      | Some i \<Rightarrow> Inr (st\<lparr>filesystems := (filesystems st)[i := Some fs]\<rparr>))"

definition fs_static_load :: "('d, 'a) vfsst_scheme \<Rightarrow> ('d, 'a) vfsst_scheme kresult" where
  "fs_static_load st = fs_insert_filesystem st fat16_init"

definition fs_init :: "('d, 'a) vfsst_scheme \<Rightarrow> ('d, 'a) vfsst_scheme kresult" where
  "fs_init st = fs_static_load (st\<lparr>filesystems := replicate KERNEL_MAX_FILESYSTEMS None\<rparr>)"

text \<open>The loop of \<open>fs_resolve\<close>: each file system in turn is asked to mount the disk.\<close>

fun fs_resolve_loop ::
    "(fs_type \<Rightarrow> ('d, 'a) vfsst_scheme filesystem_ops) \<Rightarrow> fs_type option list \<Rightarrow> ('d, 'a) vfsst_scheme
      \<Rightarrow> (fs_type option \<times> ('d, 'a) vfsst_scheme) kresult" where
  "fs_resolve_loop ops [] st = Inr (None, st)"
| "fs_resolve_loop ops (None # fss) st = fs_resolve_loop ops fss st"
| "fs_resolve_loop ops (Some fs # fss) st =
     kbind (fs_resolve_fn (ops fs) st) (\<lambda>(res, st1).
     if res = 0 then Inr (Some fs, st1) else fs_resolve_loop ops fss st1)"

definition fs_resolve ::
    "(fs_type \<Rightarrow> ('d, 'a) vfsst_scheme filesystem_ops) \<Rightarrow> ('d, 'a) vfsst_scheme
      \<Rightarrow> (fs_type option \<times> ('d, 'a) vfsst_scheme) kresult" where
  "fs_resolve ops st = fs_resolve_loop ops (filesystems st) st"

definition disk_search_and_init ::
    "(fs_type \<Rightarrow> ('d, 'a) vfsst_scheme filesystem_ops) \<Rightarrow> ('d, 'a) vfsst_scheme \<Rightarrow> ('d, 'a) vfsst_scheme kresult" where
  "disk_search_and_init ops st =
     kbind (fs_resolve ops (st\<lparr>filesystem := None, fs_private := None, sector_size := KERNEL_SECTOR_SIZE, disk_id := 0\<rparr>))
       (\<lambda>(fs, st1). Inr (st1\<lparr>filesystem := fs\<rparr>))"

subsection \<open>File descriptors\<close>

text \<open>\<open>file_new_descriptor\<close> returns its status and, through \<open>desc_out\<close>, the index of the entry it made. It writes
  through the pointer \<open>kzalloc\<close> returned without testing it.\<close>

definition file_new_descriptor ::
    "('d, 'a) vfsst_scheme \<Rightarrow> (int \<times> nat option \<times> ('d, 'a) vfsst_scheme) kresult" where
  "file_new_descriptor st =
     (case first_free (file_descriptors st) of
        None \<Rightarrow> Inr (- ENOMEM, None, st)
      | Some i \<Rightarrow>
          let (desc, st1) = kzalloc st 16 in
          if desc = 0 then Inl NullDeref
          else Inr (0, Some i, st1\<lparr>file_descriptors := (file_descriptors st1)[i := Some
                 \<lparr>fdt_addr = desc, fd_index = int i + 1, fd_filesystem = None, fd_private = None\<rparr>]\<rparr>))"

definition file_free_descriptor :: "('d, 'a) vfsst_scheme \<Rightarrow> int \<Rightarrow> ('d, 'a) vfsst_scheme kresult" where
  "file_free_descriptor st fd =
     (if fd < 1 \<or> nat (fd - 1) \<ge> length (file_descriptors st) then Inl OutOfBounds
      else let desc = file_descriptors st ! nat (fd - 1);
               st1 = st\<lparr>file_descriptors := (file_descriptors st)[nat (fd - 1) := None]\<rparr>
           in Inr (kfree st1 (case desc of None \<Rightarrow> 0 | Some d \<Rightarrow> fdt_addr d)))"

definition file_get_descriptor :: "('d, 'a) vfsst_scheme \<Rightarrow> int \<Rightarrow> file_descriptor option" where
  "file_get_descriptor st fd =
     (if fd \<le> 0 \<or> fd > int KERNEL_MAX_FILE_DESCRIPTORS then None else file_descriptors st ! nat (fd - 1))"

definition file_get_mode_by_string :: "u8 list \<Rightarrow> FILE_MODE kresult" where
  "file_get_mode_by_string str =
     (case (strncmp str [114, 0] 1, strncmp str [119, 0] 1, strncmp str [97, 0] 1) of
        (Some r, Some w, Some a) \<Rightarrow>
          Inr (if r = 0 then FILE_MODE_READ else if w = 0 then FILE_MODE_WRITE
               else if a = 0 then FILE_MODE_APPEND else FILE_MODE_INVALID)
      | _ \<Rightarrow> Inl OutOfBounds)"

subsection \<open>Opening, reading, seeking, closing\<close>

text \<open>The exit of \<open>fopen\<close> with a negative \<open>res\<close>: the path, the driver's descriptor and the table entry are
  released, as far as they have been acquired.\<close>

definition fopen_failed ::
    "(fs_type \<Rightarrow> ('d, 'a) vfsst_scheme filesystem_ops) \<Rightarrow> u32 \<Rightarrow> path_root \<Rightarrow> fs_type option
      \<Rightarrow> fat_item_descriptor option \<Rightarrow> ('d, 'a) vfsst_scheme \<Rightarrow> (int \<times> ('d, 'a) vfsst_scheme) kresult" where
  "fopen_failed ops root_ptr root disk_fs priv st =
     (let st1 = (if root_ptr \<noteq> 0 \<and> \<not> IS_ERROR root_ptr then pathparser_free st root_ptr root else st);
          st2 = (case (disk_fs, priv) of (Some fs, Some p) \<Rightarrow> snd (fs_close_fn (ops fs) st1 p) | _ \<Rightarrow> st1)
      in Inr (0, st2))"

definition fopen ::
    "(fs_type \<Rightarrow> ('d, 'a) vfsst_scheme filesystem_ops) \<Rightarrow> ('d, 'a) vfsst_scheme \<Rightarrow> u8 list \<Rightarrow> u8 list
      \<Rightarrow> (int \<times> ('d, 'a) vfsst_scheme) kresult" where
  "fopen ops st fname mode_str =
     kbind (pathparser_parse st fname) (\<lambda>(root_ptr, root, st1).
     if IS_ERROR root_ptr \<or> root_ptr = 0 \<or> first root = [] then fopen_failed ops root_ptr root None None st1
     else case (disk_get (drive_no root), filesystem st1) of
       (DISK, Some fs) \<Rightarrow>
         kbind (file_get_mode_by_string mode_str) (\<lambda>mode.
         if mode = FILE_MODE_INVALID then fopen_failed ops root_ptr root (Some fs) None st1
         else kbind (fs_open_fn (ops fs) st1 (first root) mode) (\<lambda>(priv_ptr, priv, st2).
           if IS_ERROR priv_ptr then fopen_failed ops root_ptr root (Some fs) None st2
           else kbind (file_new_descriptor st2) (\<lambda>(res, desc, st3).
             case desc of
               None \<Rightarrow> fopen_failed ops root_ptr root (Some fs) priv st3
             | Some i \<Rightarrow>
                 Inr (int i + 1, st3\<lparr>file_descriptors := (file_descriptors st3)[i := map_option
                   (\<lambda>d. d\<lparr>fd_filesystem := Some fs, fd_private := priv\<rparr>) (file_descriptors st3 ! i)]\<rparr>))))
     | _ \<Rightarrow> fopen_failed ops root_ptr root None None st1)"

definition fread ::
    "(fs_type \<Rightarrow> ('d, 'a) vfsst_scheme filesystem_ops) \<Rightarrow> ('d, 'a) vfsst_scheme \<Rightarrow> bool \<Rightarrow> u32 \<Rightarrow> u32 \<Rightarrow> int
      \<Rightarrow> (int \<times> u8 list \<times> ('d, 'a) vfsst_scheme) kresult" where
  "fread ops st ptr_null sz nmemb fd =
     (if sz = 0 \<or> nmemb = 0 \<or> fd < 1 then Inr (- EINVAGS, [], st)
      else case file_get_descriptor st fd of
        None \<Rightarrow> Inr (- EINVAGS, [], st)
      | Some desc \<Rightarrow>
          (case (fd_filesystem desc, fd_private desc) of
             (Some fs, Some priv) \<Rightarrow>
               kbind (fs_read_fn (ops fs) st priv sz nmemb ptr_null) (\<lambda>(res, bs, priv', st1).
               Inr (res, bs, st1\<lparr>file_descriptors :=
                 (file_descriptors st1)[nat (fd - 1) := Some (desc\<lparr>fd_private := Some priv'\<rparr>)]\<rparr>))
           | _ \<Rightarrow> Inl NullDeref))"

definition fseek ::
    "(fs_type \<Rightarrow> ('d, 'a) vfsst_scheme filesystem_ops) \<Rightarrow> ('d, 'a) vfsst_scheme \<Rightarrow> int \<Rightarrow> int \<Rightarrow> FILE_SEEK_MODE
      \<Rightarrow> (int \<times> ('d, 'a) vfsst_scheme) kresult" where
  "fseek ops st fd offset whence =
     (case file_get_descriptor st fd of
        None \<Rightarrow> Inr (- EINVAGS, st)
      | Some desc \<Rightarrow>
          (case (fd_filesystem desc, fd_private desc) of
             (Some fs, Some priv) \<Rightarrow>
               kbind (fs_seek_fn (ops fs) priv offset whence) (\<lambda>(res, priv').
               Inr (res, st\<lparr>file_descriptors :=
                 (file_descriptors st)[nat (fd - 1) := Some (desc\<lparr>fd_private := Some priv'\<rparr>)]\<rparr>))
           | _ \<Rightarrow> Inl NullDeref))"

text \<open>\<open>stat\<close> is what the caller's structure holds, \<open>None\<close> for a NULL pointer.\<close>

definition fstat ::
    "(fs_type \<Rightarrow> ('d, 'a) vfsst_scheme filesystem_ops) \<Rightarrow> ('d, 'a) vfsst_scheme \<Rightarrow> int \<Rightarrow> file_stat option
      \<Rightarrow> (int \<times> file_stat option) kresult" where
  "fstat ops st fd stat =
     (case stat of
        None \<Rightarrow> Inr (- EINVAGS, None)
      | Some s \<Rightarrow>
          (case file_get_descriptor st fd of
             None \<Rightarrow> Inr (- EINVAGS, stat)
           | Some desc \<Rightarrow>
               (case (fd_filesystem desc, fd_private desc) of
                  (Some fs, Some priv) \<Rightarrow>
                    kbind (fs_stat_fn (ops fs) priv s) (\<lambda>(res, s'). Inr (res, Some s'))
                | _ \<Rightarrow> Inl NullDeref)))"

definition fclose ::
    "(fs_type \<Rightarrow> ('d, 'a) vfsst_scheme filesystem_ops) \<Rightarrow> ('d, 'a) vfsst_scheme \<Rightarrow> int
      \<Rightarrow> (int \<times> ('d, 'a) vfsst_scheme) kresult" where
  "fclose ops st fd =
     (case file_get_descriptor st fd of
        None \<Rightarrow> Inr (- EINVAGS, st)
      | Some desc \<Rightarrow>
          (case (fd_filesystem desc, fd_private desc) of
             (Some fs, Some priv) \<Rightarrow>
               let (res, st1) = fs_close_fn (ops fs) st priv in
               if res \<noteq> 0 then Inr (res, st1)
               else kbind (file_free_descriptor st1 fd) (\<lambda>st2. Inr (res, st2))
           | _ \<Rightarrow> Inl NullDeref))"

subsection \<open>Path parsing leaves the file layer alone\<close>

lemma more_kzalloc: "kzalloc ks n = (p, ks') \<Longrightarrow> kstate.more ks' = kstate.more ks"
  by (auto simp: kzalloc_def split: prod.splits)

lemma more_kfree [simp]: "kstate.more (kfree ks p) = kstate.more ks"
  by (simp add: kfree_def)

lemma more_create_root: "pathparser_create_root ks d = (p, r, ks') \<Longrightarrow> kstate.more ks' = kstate.more ks"
  by (auto simp: pathparser_create_root_def split: prod.splits if_splits dest: more_kzalloc)

lemma more_get_path_part: "pathparser_get_path_part ks path = Inr (p, s, path', ks') \<Longrightarrow> kstate.more ks' = kstate.more ks"
  by (auto simp: pathparser_get_path_part_def kbind_Inr_iff Let_def split: prod.splits if_splits dest: more_kzalloc)

lemma more_parse_path_part: "pathparser_parse_path_part ks path = Inr (p, pt, path', ks') \<Longrightarrow> kstate.more ks' = kstate.more ks"
  by (auto simp: pathparser_parse_path_part_def kbind_Inr_iff Let_def split: prod.splits if_splits
      dest!: more_get_path_part more_kzalloc)

lemma more_parse_loop: "pathparser_parse_loop ks path parts = Inr (r, parts', ks') \<Longrightarrow> kstate.more ks' = kstate.more ks"
proof (induction ks path parts rule: pathparser_parse_loop.induct)
  case (1 ks path parts)
  from 1(2) obtain p pt path1 ks1 where p: "pathparser_parse_path_part ks path = Inr (p, pt, path1, ks1)"
    by (subst (asm) pathparser_parse_loop.simps) (auto split: sum.splits)
  from 1(2) p 1(1) [OF p refl] more_parse_path_part [OF p] show ?case
    by (subst (asm) pathparser_parse_loop.simps) (auto split: if_splits)
qed

lemma more_fold_free: "kstate.more (fold (\<lambda>pt ks. kfree (kfree ks (part_addr pt)) (pp_addr pt)) pts ks) = kstate.more ks"
  by (induction pts arbitrary: ks) simp_all

lemma more_free [simp]: "kstate.more (pathparser_free ks p r) = kstate.more ks"
  by (simp add: pathparser_free_def more_fold_free)

lemma more_parse:
  assumes "pathparser_parse ks path = Inr (p, r, ks')"
  shows "kstate.more ks' = kstate.more ks"
proof (cases "\<exists>len d tmp. strlen path = Some len \<and> len \<le> KERNEL_MAX_PATH \<and> pathparser_get_drive_by_path path = Inr (d, tmp) \<and> 0 \<le> d")
  case False
  with assms show ?thesis
    by (auto simp: pathparser_parse_def kbind_Inr_iff Let_def kconfig split: option.splits if_splits)
next
  case True
  then obtain len d tmp where d: "strlen path = Some len" "len \<le> KERNEL_MAX_PATH"
    "pathparser_get_drive_by_path path = Inr (d, tmp)" "0 \<le> d" by auto
  obtain q r1 ks1 where q: "pathparser_create_root ks d = (q, r1, ks1)" by (cases "pathparser_create_root ks d")
  have n: "\<not> KERNEL_MAX_PATH < len" "\<not> d < 0" using d by auto
  note a = assms [unfolded pathparser_parse_def Let_def d(1,3) option.case kbind_simps prod.case q if_not_P [OF n(1)] if_not_P [OF n(2)]]
  have "kstate.more ks' = kstate.more ks1"
  proof (cases "IS_ERROR q")
    case True
    note a1 = a [unfolded if_P [OF True]]
    show ?thesis
      by (cases "ERROR_I q < 0") (use a1 in \<open>auto simp: True\<close>)
  next
    case False
    from a [unfolded if_not_P [OF False]] obtain p1 pt tmp1 ks2 where
      p: "pathparser_parse_path_part ks1 tmp = Inr (p1, pt, tmp1, ks2)" by (auto simp: kbind_Inr_iff)
    note a2 = a [unfolded if_not_P [OF False] p kbind_simps prod.case]
    show ?thesis
    proof (cases "IS_ERROR p1 \<or> p1 = 0")
      case True
      with a2 more_parse_path_part [OF p] show ?thesis by (auto split: if_splits)
    next
      case False
      from a2 [unfolded if_not_P [OF False]] obtain ret parts ks3 where
        l: "pathparser_parse_loop ks2 tmp1 [pt] = Inr (ret, parts, ks3)" by (auto simp: kbind_Inr_iff)
      from a2 [unfolded if_not_P [OF False] l kbind_simps prod.case] more_parse_loop [OF l] more_parse_path_part [OF p]
      show ?thesis by (auto split: if_splits)
    qed
  qed
  with more_create_root [OF q] show ?thesis by simp
qed

subsection \<open>What the file layer relies on\<close>

definition vfs_part :: "('d, 'a) vfsst_scheme \<Rightarrow> fs_type option \<times> fs_type option list \<times> file_descriptor option list \<times> 'a" where
  "vfs_part st = (filesystem st, filesystems st, file_descriptors st, vfsst.more st)"

lemma vfs_part_more:
  fixes st st' :: "('d, 'a) vfsst_scheme"
  shows "kstate.more st' = kstate.more st \<Longrightarrow> vfs_part st' = vfs_part st"
  by (cases st, cases st') (simp add: vfs_part_def)

lemma vfs_part_outside:
  fixes st st' :: "('d, 'a) vfsst_scheme"
  shows "outside st' = outside st \<Longrightarrow> vfs_part st' = vfs_part st"
  by (cases st, cases st') (simp add: vfs_part_def outside_def)

text \<open>The contract of \<open>struct filesystem\<close>: an open that does not return an error code returns a
  descriptor, and no operation but \<open>resolve\<close> touches the tables of the file layer or what lies above it.\<close>

locale filesystem_driver =
  fixes ops :: "fs_type \<Rightarrow> ('d, 'a) vfsst_scheme filesystem_ops"
  assumes open_keeps: "fs_open_fn (ops fs) st path mode = Inr (p, d, st') \<Longrightarrow> vfs_part st' = vfs_part st"
    and open_result: "fs_open_fn (ops fs) st path mode = Inr (p, d, st') \<Longrightarrow> \<not> IS_ERROR p \<Longrightarrow> d \<noteq> None"
    and read_keeps: "fs_read_fn (ops fs) st d0 sz n b = Inr (r, bs, d', st') \<Longrightarrow> vfs_part st' = vfs_part st"
    and close_keeps: "fs_close_fn (ops fs) st d0 = (r, st') \<Longrightarrow> vfs_part st' = vfs_part st"

text \<open>The descriptor table: 512 entries, each entry in use knows its own number, its file system and its
  driver's descriptor.\<close>

definition entry_ok :: "nat \<Rightarrow> file_descriptor \<Rightarrow> bool" where
  "entry_ok i d \<longleftrightarrow> fd_index d = int i + 1 \<and> fd_filesystem d \<noteq> None \<and> fd_private d \<noteq> None"

definition table_ok :: "file_descriptor option list \<Rightarrow> bool" where
  "table_ok fds \<longleftrightarrow> length fds = KERNEL_MAX_FILE_DESCRIPTORS \<and> (\<forall>i d. i < length fds \<longrightarrow> fds ! i = Some d \<longrightarrow> entry_ok i d)"

lemma entry_ok_priv: "entry_ok i d \<Longrightarrow> entry_ok i (d\<lparr>fd_private := Some p\<rparr>)"
  by (simp add: entry_ok_def)

lemma table_ok_upd: "table_ok fds \<Longrightarrow> (\<And>d. x = Some d \<Longrightarrow> entry_ok i d) \<Longrightarrow> table_ok (fds[i := x])"
  by (auto simp: table_ok_def) (metis nth_list_update_eq nth_list_update_neq)

lemma first_free_Some:
  "first_free xs = Some i \<Longrightarrow> i < length xs \<and> xs ! i = None \<and> (\<forall>j < i. xs ! j \<noteq> None)"
proof (induction xs arbitrary: i)
  case (Cons x xs)
  then show ?case by (cases i) (auto simp: less_Suc_eq_0_disj split: if_splits)
qed simp

lemma first_free_None: "first_free xs = None \<Longrightarrow> \<forall>x \<in> set xs. x \<noteq> None"
  by (induction xs) (auto split: if_splits)

lemma file_new_descriptor_cases:
  assumes "file_new_descriptor st = Inr (res, desc, st')"
  obtains (full) "desc = None" "st' = st" "first_free (file_descriptors st) = None"
  | (new) i a where "desc = Some i" "first_free (file_descriptors st) = Some i" "filesystem st' = filesystem st" "vfsst.more st' = vfsst.more st"
      "file_descriptors st' = (file_descriptors st)[i := Some \<lparr>fdt_addr = a, fd_index = int i + 1, fd_filesystem = None, fd_private = None\<rparr>]"
proof (cases "first_free (file_descriptors st)")
  case None
  with assms show thesis by (intro full) (auto simp: file_new_descriptor_def)
next
  case (Some i)
  obtain a st1 where a: "kzalloc st 16 = (a, st1)" by fastforce
  have "file_descriptors st1 = file_descriptors st" "filesystem st1 = filesystem st" "vfsst.more st1 = vfsst.more st"
    using vfs_part_more [OF more_kzalloc [OF a]] by (simp_all add: vfs_part_def)
  with assms Some a show thesis by (intro new) (auto simp: file_new_descriptor_def split: if_splits)
qed

context filesystem_driver
begin

lemma fopen_failed_keeps: "fopen_failed ops rp root fs priv st = Inr (r, st') \<Longrightarrow> r = 0 \<and> vfs_part st' = vfs_part st"
  using vfs_part_more [OF more_free, of st rp root]
  by (auto simp: fopen_failed_def Let_def split: option.splits if_splits)
    (metis close_keeps prod.collapse)+

lemma fopen_effect:
  assumes "fopen ops st f m = Inr (r, st')"
  shows "vfsst.more st' = vfsst.more st \<and> (r = 0 \<and> file_descriptors st' = file_descriptors st \<or>
    (\<exists>i d. first_free (file_descriptors st) = Some i \<and> r = int i + 1 \<and> entry_ok i d \<and>
       file_descriptors st' = (file_descriptors st)[i := Some d]))"
proof -
  from assms obtain rp root st1 where p: "pathparser_parse st f = Inr (rp, root, st1)"
    by (auto simp: fopen_def kbind_Inr_iff)
  have k1: "vfs_part st1 = vfs_part st" by (rule vfs_part_more [OF more_parse [OF p]])
  note a = assms [unfolded fopen_def p kbind_simps prod.case]
  consider (failed) rp' root' fs' priv' st2 where "fopen_failed ops rp' root' fs' priv' st2 = Inr (r, st')" "vfs_part st2 = vfs_part st"
    | (opened) fs priv i d and st2 st3 :: "('d, 'a) vfsst_scheme" where "priv \<noteq> None" "vfs_part st2 = vfs_part st"
        "file_new_descriptor st2 = Inr (d, Some i, st3)" "r = int i + 1"
        "file_descriptors st' = (file_descriptors st3)[i := map_option (\<lambda>d. d\<lparr>fd_filesystem := Some fs, fd_private := priv\<rparr>)
           (file_descriptors st3 ! i)]" "vfsst.more st' = vfsst.more st3"
  proof (cases "IS_ERROR rp \<or> rp = 0 \<or> first root = []")
    case True
    with a k1 that show thesis by auto
  next
    case False
    show thesis
    proof (cases "disk_get (drive_no root) = DISK \<and> filesystem st1 \<noteq> None")
      case no: False
      with False a k1 that(1) show thesis by (auto split: disk_ptr.splits option.splits)
    next
      case True
      then obtain fs where fs: "disk_get (drive_no root) = DISK" "filesystem st1 = Some fs" by auto
      with a False obtain mode where m: "file_get_mode_by_string m = Inr mode" by (auto simp: kbind_Inr_iff)
      note a1 = a [unfolded if_not_P [OF False] fs disk_ptr.case option.case prod.case m kbind_simps]
      show thesis
      proof (cases "mode = FILE_MODE_INVALID")
        case True
        with a1 k1 that show thesis by auto
      next
        case False
        from a1 [unfolded if_not_P [OF False]] obtain ptr priv st2 where
          o: "fs_open_fn (ops fs) st1 (first root) mode = Inr (ptr, priv, st2)" by (auto simp: kbind_Inr_iff)
        note k2 = open_keeps [OF o, unfolded k1]
        note a2 = a1 [unfolded if_not_P [OF False] o kbind_simps prod.case]
        show thesis
        proof (cases "IS_ERROR ptr")
          case True
          with a2 k2 that show thesis by auto
        next
          case False
          from a2 [unfolded if_not_P [OF False]] obtain res desc st3 where
            n: "file_new_descriptor st2 = Inr (res, desc, st3)" by (auto simp: kbind_Inr_iff)
          note a3 = a2 [unfolded if_not_P [OF False] n kbind_simps prod.case]
          show thesis
          proof (cases desc)
            case None
            from n None have "st3 = st2" by (auto elim: file_new_descriptor_cases)
            with a3 None k2 that show thesis by auto
          next
            case (Some i)
            have "priv \<noteq> None" by (rule open_result [OF o False])
            with a3 Some k2 n that(2) [where fs = fs and priv = priv and ?st2.0 = st2 and ?st3.0 = st3 and d = res and i = i] show thesis by auto
          qed
        qed
      qed
    qed
  qed
  then show ?thesis
  proof cases
    case failed
    with fopen_failed_keeps [OF failed(1)] show ?thesis by (auto simp: vfs_part_def)
  next
    case opened
    from opened(3) show ?thesis
    proof (cases rule: file_new_descriptor_cases)
      case (new j a)
      then have "i < length (file_descriptors st2)" using first_free_Some by auto
      with new opened show ?thesis
        by (intro conjI disjI2 exI [of _ i]
            exI [of _ "\<lparr>fdt_addr = a, fd_index = int i + 1, fd_filesystem = Some fs, fd_private = priv\<rparr>"])
          (auto simp: entry_ok_def vfs_part_def)
    qed (use opened in auto)
  qed
qed

lemma fopen_entry:
  assumes "fopen ops st f m = Inr (r, st')"
  shows "r = 0 \<and> file_descriptors st' = file_descriptors st \<or>
    (\<exists>i d. first_free (file_descriptors st) = Some i \<and> r = int i + 1 \<and> entry_ok i d \<and>
       file_descriptors st' = (file_descriptors st)[i := Some d])"
  using fopen_effect [OF assms] by blast

text \<open>Every operation on a descriptor touches at most its own entry.\<close>

lemma fread_entry:
  assumes "fread ops st b sz n fd = Inr (r, bs, st')" "table_ok (file_descriptors st)"
  shows "filesystem st' = filesystem st \<and> (file_descriptors st' = file_descriptors st \<or>
    (\<exists>d. entry_ok (nat (fd - 1)) d \<and> file_descriptors st ! nat (fd - 1) \<noteq> None \<and>
       file_descriptors st' = (file_descriptors st)[nat (fd - 1) := Some d]))"
proof (cases "file_get_descriptor st fd")
  case None
  with assms(1) show ?thesis by (auto simp: fread_def split: if_splits)
next
  case (Some desc)
  then have fd: "0 < fd" "fd \<le> 512" "file_descriptors st ! nat (fd - 1) = Some desc"
    by (auto simp: file_get_descriptor_def kconfig split: if_splits)
  then have e: "entry_ok (nat (fd - 1)) desc" using assms(2) by (auto simp: table_ok_def kconfig)
  then obtain fs priv where p: "fd_filesystem desc = Some fs" "fd_private desc = Some priv" by (auto simp: entry_ok_def)
  from assms(1) Some p have "st' = st \<or> (\<exists>priv' st1. fs_read_fn (ops fs) st priv sz n b = Inr (r, bs, priv', st1) \<and>
      st' = st1\<lparr>file_descriptors := (file_descriptors st1)[nat (fd - 1) := Some (desc\<lparr>fd_private := Some priv'\<rparr>)]\<rparr>)"
    by (auto simp: fread_def kbind_Inr_iff split: if_splits)
  then show ?thesis
    using e fd(3) entry_ok_priv [OF e] by (auto simp: vfs_part_def dest!: read_keeps) metis+
qed

lemma fread_more:
  assumes "fread ops st b sz n fd = Inr (r, bs, st')"
  shows "vfsst.more st' = vfsst.more st"
  using assms
  by (auto simp: fread_def kbind_Inr_iff vfs_part_def split: if_splits option.splits dest!: read_keeps)

lemma fclose_more:
  assumes "fclose ops st fd = Inr (r, st')"
  shows "vfsst.more st' = vfsst.more st"
proof -
  have k: "vfsst.more (snd (fs_close_fn (ops fs) st d)) = vfsst.more st" for fs d
    using close_keeps [of fs st d "fst (fs_close_fn (ops fs) st d)" "snd (fs_close_fn (ops fs) st d)"] by (simp add: vfs_part_def)
  show ?thesis
    using assms k
    by (auto simp: fclose_def file_free_descriptor_def kbind_Inr_iff Let_def kfree_def split: if_splits option.splits prod.splits)
      (metis snd_conv)+
qed

lemma fseek_entry:
  assumes "fseek ops st fd off wh = Inr (r, st')" "table_ok (file_descriptors st)"
  shows "file_descriptors st' = file_descriptors st \<or>
    (\<exists>d. entry_ok (nat (fd - 1)) d \<and> file_descriptors st ! nat (fd - 1) \<noteq> None \<and>
       file_descriptors st' = (file_descriptors st)[nat (fd - 1) := Some d])"
proof (cases "file_get_descriptor st fd")
  case None
  with assms(1) show ?thesis by (auto simp: fseek_def)
next
  case (Some desc)
  then have fd: "0 < fd" "fd \<le> 512" "file_descriptors st ! nat (fd - 1) = Some desc"
    by (auto simp: file_get_descriptor_def kconfig split: if_splits)
  then have e: "entry_ok (nat (fd - 1)) desc" using assms(2) by (auto simp: table_ok_def kconfig)
  then obtain fs priv where p: "fd_filesystem desc = Some fs" "fd_private desc = Some priv" by (auto simp: entry_ok_def)
  from assms(1) Some p fd(3) entry_ok_priv [OF e] show ?thesis
    by (auto simp: fseek_def kbind_Inr_iff) metis+
qed

lemma fclose_entry:
  assumes "fclose ops st fd = Inr (r, st')" "table_ok (file_descriptors st)"
  shows "file_descriptors st' = file_descriptors st \<or>
    file_descriptors st ! nat (fd - 1) \<noteq> None \<and> file_descriptors st' = (file_descriptors st)[nat (fd - 1) := None]"
proof (cases "file_get_descriptor st fd")
  case None
  with assms(1) show ?thesis by (auto simp: fclose_def)
next
  case (Some desc)
  then have fd: "0 < fd" "fd \<le> 512" "file_descriptors st ! nat (fd - 1) = Some desc"
    by (auto simp: file_get_descriptor_def kconfig split: if_splits)
  then have "entry_ok (nat (fd - 1)) desc" using assms(2) by (auto simp: table_ok_def kconfig)
  then obtain fs priv where p: "fd_filesystem desc = Some fs" "fd_private desc = Some priv" by (auto simp: entry_ok_def)
  obtain r1 st1 where c: "fs_close_fn (ops fs) st priv = (r1, st1)" by fastforce
  have "file_descriptors st1 = file_descriptors st" using close_keeps [OF c] by (simp add: vfs_part_def)
  with assms(1) Some p c fd(3) show ?thesis
    by (auto simp: fclose_def file_free_descriptor_def kbind_Inr_iff Let_def kfree_def split: if_splits)
qed

end

text \<open>Any sequence of calls of the file layer, with any arguments.\<close>

inductive vfs_step :: "(fs_type \<Rightarrow> ('d, 'a) vfsst_scheme filesystem_ops) \<Rightarrow> ('d, 'a) vfsst_scheme \<Rightarrow> ('d, 'a) vfsst_scheme \<Rightarrow> bool"
  for ops where
  step_fopen: "fopen ops st f m = Inr (r, st') \<Longrightarrow> vfs_step ops st st'"
| step_fread: "fread ops st b sz n fd = Inr (r, bs, st') \<Longrightarrow> vfs_step ops st st'"
| step_fseek: "fseek ops st fd off wh = Inr (r, st') \<Longrightarrow> vfs_step ops st st'"
| step_fclose: "fclose ops st fd = Inr (r, st') \<Longrightarrow> vfs_step ops st st'"

context filesystem_driver
begin

lemma vfs_step_table: "vfs_step ops st st' \<Longrightarrow> table_ok (file_descriptors st) \<Longrightarrow> table_ok (file_descriptors st')"
proof (induction rule: vfs_step.induct)
  case (step_fopen st f m r st')
  with fopen_entry [OF step_fopen(1)] table_ok_upd show ?case by fastforce
next
  case (step_fread st b sz n fd r bs st')
  with fread_entry [OF step_fread(1,2)] table_ok_upd show ?case by fastforce
next
  case (step_fseek st fd off wh r st')
  with fseek_entry [OF step_fseek(1,2)] table_ok_upd show ?case by fastforce
next
  case (step_fclose st fd r st')
  with fclose_entry [OF step_fclose(1,2)] table_ok_upd show ?case by fastforce
qed

lemma vfs_steps_table: "(vfs_step ops)\<^sup>*\<^sup>* st st' \<Longrightarrow> table_ok (file_descriptors st) \<Longrightarrow> table_ok (file_descriptors st')"
  by (induction rule: rtranclp_induct) (auto intro: vfs_step_table)

end

lemma ERROR_code: "0 < e \<Longrightarrow> e < 2 ^ 31 \<Longrightarrow> IS_ERROR (ERROR (- e))"
  using ERROR_I_ERROR [of "- e"] by (simp add: IS_ERROR_def)

interpretation fat16_driver: filesystem_driver "\<lambda>_. fat16_fs io"
proof
  fix fs st path mode p d st'
  show "fs_open_fn (fat16_fs io) st path mode = Inr (p, d, st') \<Longrightarrow> vfs_part st' = vfs_part st"
    by (auto simp: fat16_fs_def intro: vfs_part_outside outside_open)
  show "fs_open_fn (fat16_fs io) st path mode = Inr (p, d, st') \<Longrightarrow> \<not> IS_ERROR p \<Longrightarrow> d \<noteq> None"
    by (auto simp: fat16_fs_def fat16_open_def kbind_Inr_iff ERROR_code kconfig split: if_splits prod.splits option.splits)
next
  fix fs st d0 sz n b r bs d' st'
  show "fs_read_fn (fat16_fs io) st d0 sz n b = Inr (r, bs, d', st') \<Longrightarrow> vfs_part st' = vfs_part st"
    by (auto simp: fat16_fs_def intro: vfs_part_outside outside_read)
next
  fix fs st d0 r st'
  show "fs_close_fn (fat16_fs io) st d0 = (r, st') \<Longrightarrow> vfs_part st' = vfs_part st"
    using outside_close [of st d0] by (auto simp: fat16_fs_def intro: vfs_part_outside)
qed

subsection \<open>From boot to a file's contents\<close>

lemma fat_ok_more:
  fixes st st' :: "('d, 'a) fatst_scheme"
  assumes "fat_ok io ph img fp st" "kstate.more st' = kstate.more st" "kheap_ok st'" "heap_used (kernel_heap st') < 25600"
  shows "fat_ok io ph img fp st'"
  using assms by (cases st, cases st') (simp add: fat_ok_def)

text \<open>A kernel with its disk mounted on volume \<open>img\<close>.\<close>

definition mounted :: "'d port_io \<Rightarrow> ('d \<Rightarrow> ata_phase) \<Rightarrow> (nat \<Rightarrow> u8 list) \<Rightarrow> nat \<Rightarrow> ('d, 'a) vfsst_scheme \<Rightarrow> bool" where
  "mounted io ph img m st \<longleftrightarrow> filesystem st = Some FAT16_FS \<and> (\<exists>fp dir. fat_ok io ph img fp st \<and>
     header fp = boot_header img \<and> root_directory fp = root_dir img m dir)"

lemma disk_search_and_init_mounts:
  fixes st :: "('d, 'a) vfsst_scheme"
  assumes dev: "ata_device io ph img" "kheap_ok st" "ph (device st) = Idle"
    and room: "(heap_used (kernel_heap st) + 7) * root_blocks img \<le> 25600"
    and vol: "signature (extended_header (boot_header img)) = 0x29" "root_marked img m"
  obtains st' where "kbind (fs_init st) (disk_search_and_init (\<lambda>_. fat16_fs io)) = Inr st'" "mounted io ph img m st'"
    "file_descriptors st' = file_descriptors st" "heap_used (kernel_heap st') \<le> heap_used (kernel_heap st) + 5 + root_blocks img"
proof -
  let ?st = "st\<lparr>filesystems := (replicate KERNEL_MAX_FILESYSTEMS None)[0 := Some FAT16_FS],
    filesystem := None, fs_private := None, sector_size := 512, disk_id := 0\<rparr>"
  have ok: "kheap_ok ?st" "ph (device ?st) = Idle" "sector_size ?st = 512" "disk_id ?st = 0"
    "(heap_used (kernel_heap ?st) + 7) * root_blocks img \<le> 25600"
    using dev room by (simp_all add: kheap_ok_def)
  obtain fp st' dir ps where r: "fat16_resolve io ?st = Inr (0, st')" "fat_ok io ph img fp st'" "header fp = boot_header img"
    "root_directory fp = root_dir img m dir" "heap_used (kernel_heap st') \<le> heap_used (kernel_heap ?st) + 5 + root_blocks img"
    by (rule fat16_resolve_mounts [OF dev(1) ok vol])
  let ?st' = "st'\<lparr>filesystem := Some FAT16_FS\<rparr>"
  have "fs_init st = Inr (st\<lparr>filesystems := (replicate KERNEL_MAX_FILESYSTEMS None)[0 := Some FAT16_FS]\<rparr>)"
    by (simp add: fs_init_def fs_static_load_def fs_insert_filesystem_def fs_get_free_filesystem_def fat16_init_def
        kconfig numeral_eq_Suc)
  moreover have "(replicate KERNEL_MAX_FILESYSTEMS None)[0 := Some FAT16_FS] = Some FAT16_FS # replicate 11 None"
    by (simp add: kconfig numeral_eq_Suc)
  ultimately have "kbind (fs_init st) (disk_search_and_init (\<lambda>_. fat16_fs io)) = Inr ?st'"
    using r(1) by (simp add: disk_search_and_init_def fs_resolve_def fat16_fs_def kconfig)
  moreover have "mounted io ph img m ?st'" using r(2-4) by (auto simp: mounted_def fat_ok_def kheap_ok_def)
  moreover have "file_descriptors ?st' = file_descriptors st"
    using resolve_more(1) [OF r(1)] by (cases st, cases st') simp
  ultimately show thesis using that r(5) by simp
qed

definition fd_entry :: "nat \<Rightarrow> u32 \<Rightarrow> fat_item_descriptor \<Rightarrow> file_descriptor" where
  "fd_entry i a d = \<lparr>fdt_addr = a, fd_index = int i + 1, fd_filesystem = Some FAT16_FS, fd_private = Some d\<rparr>"

lemma blocks_descriptor: "heap_blocks 16 = 1"
  by (rule blocks_fat(1))

lemma parse_one_part:
  fixes st :: "('d, 'a) vfsst_scheme"
  assumes ok: "fat_ok io ph img fp st" and path: "is_cstr f" "path_meaning (cstr f) = Some (0, [name])"
    and room: "heap_used (kernel_heap st) + 9 \<le> 25600"
  obtains rp root st1 pt where "pathparser_parse st f = Inr (rp, root, st1)" "rp \<noteq> 0" "\<not> IS_ERROR rp" "drive_no root = 0"
    "first root = [pt]" "part pt = name" "fat_ok io ph img fp st1" "vfs_part st1 = vfs_part st"
    "heap_grows (kernel_heap st) [rp, part_addr pt, pp_addr pt] (kernel_heap st1)"
    "heap_used (kernel_heap st1) = heap_used (kernel_heap st) + 3"
proof -
  have k: "kheap_ok st" using ok by (simp add: fat_ok_def)
  have "path_parts (drop 3 (cstr f)) = [name]" using path(2) by (simp add: path_meaning_def split: if_splits)
  then have "parse_done st (cstr f) (pathparser_parse st f)"
    using pathparser_parse_cases [OF k path(1)] path(2) room by auto
  then obtain rp root st1 where p: "pathparser_parse st f = Inr (rp, root, st1)" "rp \<noteq> 0" "\<not> IS_ERROR rp"
    "0 = drive_no root" "[name] = map part (first root)"
    "heap_grows (kernel_heap st) (rp # part_addrs (first root)) (kernel_heap st1)" "kheap_ok st1"
    "heap_used (kernel_heap st1) = heap_used (kernel_heap st) + 2 * length (first root) + 1"
    unfolding parse_done_def path(2) by auto
  from p(5) obtain pt where pt: "first root = [pt]" "part pt = name" by (cases "first root") auto
  have "fat_ok io ph img fp st1"
    by (rule fat_ok_more [OF ok more_parse [OF p(1)] p(7)]) (use p(8) pt room in simp)
  with p pt that vfs_part_more [OF more_parse [OF p(1)]] show thesis by simp
qed

lemma fopen_root_file:
  fixes st :: "('d, 'a) vfsst_scheme"
  assumes mnt: "mounted io ph img m st" and free: "first_free (file_descriptors st) = Some i"
    and path: "is_cstr f" "path_meaning (cstr f) = Some (0, [name])" and mode: "take 1 mode = [114]"
    and e: "only_entry (root_directory (volume img m)) k name" "item = dir_items (root_directory (volume img m)) ! k"
      "attribute item AND FAT_FILE_SUBDIRECTORY = 0"
    and room: "heap_used (kernel_heap st) + 9 \<le> 25600"
  obtains fp dir fda ptr a p st' h where "fopen (\<lambda>_. fat16_fs io) st f mode = Inr (int i + 1, st')"
    "file_descriptors st' = (file_descriptors st)[i := Some (fd_entry i fda (open_file ptr a p item))]"
    "fat_ok io ph img fp st'" "header fp = boot_header img" "root_directory fp = root_dir img m dir"
    "\<exists>ps. length ps = 3 \<and> heap_grows (kernel_heap st) ps h" "heap_grows h [fda, p, a, ptr] (kernel_heap st')"
proof -
  from mnt obtain fp dir where fp: "fat_ok io ph img fp st" "header fp = boot_header img" "root_directory fp = root_dir img m dir"
    and fs: "filesystem st = Some FAT16_FS" by (auto simp: mounted_def)
  note v = volume_eqs [OF fp(2,3)]
  obtain rp root st1 pt where p1: "pathparser_parse st f = Inr (rp, root, st1)" "rp \<noteq> 0" "\<not> IS_ERROR rp" "drive_no root = 0"
    "first root = [pt]" "part pt = name" "fat_ok io ph img fp st1" "vfs_part st1 = vfs_part st"
    "heap_grows (kernel_heap st) [rp, part_addr pt, pp_addr pt] (kernel_heap st1)"
    "heap_used (kernel_heap st1) = heap_used (kernel_heap st) + 3"
    by (rule parse_one_part [OF fp(1) path room])
  obtain ptr a p st2 where o: "fat16_open io st1 [pt] FILE_MODE_READ = Inr (ptr, Some (open_file ptr a p item), st2)"
    "ptr \<noteq> 0" "\<not> IS_ERROR ptr" "fat_ok io ph img fp st2" "heap_grows (kernel_heap st1) [p, a, ptr] (kernel_heap st2)"
    "heap_used (kernel_heap st2) = heap_used (kernel_heap st1) + 3"
    by (rule fat16_open_root_file [OF p1(7), of k pt]) (use e v p1(6,10) room in auto)
  obtain fda st3 where n: "kzalloc st2 16 = (fda, st3)" by fastforce
  have n': "fda \<noteq> 0 \<and> \<not> IS_ERROR fda \<and> fat_ok io ph img fp st3 \<and> heap_grows (kernel_heap st2) [fda] (kernel_heap st3) \<and>
      heap_used (kernel_heap st3) = Suc (heap_used (kernel_heap st2))"
    by (rule fat_ok_kzalloc [OF o(4) blocks_descriptor n]) (use o(6) p1(10) room in simp)
  have k2: "vfs_part st2 = vfs_part st" using fat16_driver.open_keeps [of io st1] o(1) p1(8) by (simp add: fat16_fs_def)
  have k3: "file_descriptors st3 = file_descriptors st" "filesystem st1 = Some FAT16_FS" "file_descriptors st2 = file_descriptors st"
    using vfs_part_more [OF more_kzalloc [OF n]] k2 fs p1(8) by (simp_all add: vfs_part_def)
  have i: "i < length (file_descriptors st)" using first_free_Some [OF free] by simp
  let ?st' = "st3\<lparr>file_descriptors := (file_descriptors st)[i := Some (fd_entry i fda (open_file ptr a p item))]\<rparr>"
  obtain cs where mode': "mode = 114 # cs" using mode by (cases mode) auto
  have m: "file_get_mode_by_string mode = Inr FILE_MODE_READ"
    by (simp add: file_get_mode_by_string_def mode' One_nat_def)
  have new: "file_new_descriptor st2 = Inr (0, Some i, st3\<lparr>file_descriptors := (file_descriptors st)[i := Some
      \<lparr>fdt_addr = fda, fd_index = int i + 1, fd_filesystem = None, fd_private = None\<rparr>]\<rparr>)"
    using free k3 n n' by (simp add: file_new_descriptor_def)
  have "fopen (\<lambda>_. fat16_fs io) st f mode = Inr (int i + 1, ?st')"
    using p1 k3 m o new i by (simp add: fopen_def fat16_fs_def disk_get_def fd_entry_def)
  moreover have "fat_ok io ph img fp ?st'" using n' by (simp add: fat_ok_def kheap_ok_def)
  moreover have "heap_grows (kernel_heap st1) [fda, p, a, ptr] (kernel_heap ?st')"
    using heap_grows_trans [OF o(5), of "[fda]"] n' by simp
  ultimately show thesis
    using that [where h = "kernel_heap st1" and fp = fp and dir = dir and st' = ?st'] fp(2,3) p1(9) by fastforce
qed

text \<open>The whole life of a descriptor.\<close>

lemma vfs_open_read_close:
  fixes st :: "('d, 'a) vfsst_scheme"
  assumes mnt: "mounted io ph img m st" and free: "first_free (file_descriptors st) = Some i"
    and len: "length (file_descriptors st) = KERNEL_MAX_FILE_DESCRIPTORS"
    and path: "is_cstr f" "path_meaning (cstr f) = Some (0, [name])" and mode: "take 1 mode = [114]"
    and e: "only_entry (root_directory (volume img m)) k name" "item = dir_items (root_directory (volume img m)) ! k"
      "attribute item AND FAT_FILE_SUBDIRECTORY = 0" and c: "0 \<le> fat16_get_first_cluster item"
    and n: "0 < n" "n \<le> cluster_size (volume img m)" "s + n < 2 ^ 31"
    and s: "cluster_start (volume img m) (fat16_get_first_cluster item) = int s"
    and room: "heap_used (kernel_heap st) + 9 \<le> 25600"
  shows "\<exists>st1 st2 st3 ps. fopen (\<lambda>_. fat16_fs io) st f mode = Inr (int i + 1, st1) \<and>
    fread (\<lambda>_. fat16_fs io) st1 False (of_nat n) 1 (int i + 1) = Inr (1, disk_bytes img s n, st2) \<and>
    fclose (\<lambda>_. fat16_fs io) st2 (int i + 1) = Inr (0, st3) \<and> file_descriptors st3 = file_descriptors st \<and>
    length ps = 3 \<and> heap_grows (kernel_heap st) ps (kernel_heap st3)"
proof -
  obtain fp dir fda ptr a p st1 h where o: "fopen (\<lambda>_. fat16_fs io) st f mode = Inr (int i + 1, st1)"
    "file_descriptors st1 = (file_descriptors st)[i := Some (fd_entry i fda (open_file ptr a p item))]"
    "fat_ok io ph img fp st1" "header fp = boot_header img" "root_directory fp = root_dir img m dir"
    "\<exists>ps. length ps = 3 \<and> heap_grows (kernel_heap st) ps h" "heap_grows h [fda, p, a, ptr] (kernel_heap st1)"
    by (rule fopen_root_file [OF mnt free path mode e room])
  note v = volume_eqs [OF o(4,5)]
  have i: "i < length (file_descriptors st)" "file_descriptors st ! i = None" using first_free_Some [OF free] by auto
  let ?d = "open_file ptr a p item" and ?d' = "(open_file ptr a p item)\<lparr>fdesc_pos := of_nat n\<rparr>"
  obtain st2 where r: "fat16_read io st1 ?d (of_nat n) 1 False = Inr (1, disk_bytes img s n, ?d', st2)" "fat_step io ph img fp st1 st2"
    by (rule fat16_read_once [OF o(3) n(1), of item s ptr a p]) (use n s v c in auto)
  then have k: "kernel_heap st2 = kernel_heap st1" "file_descriptors st2 = file_descriptors st1" by (auto simp: fat_step_def)
  let ?st2 = "st2\<lparr>file_descriptors := (file_descriptors st1)[i := Some (fd_entry i fda ?d')]\<rparr>"
  have g1: "file_get_descriptor st1 (int i + 1) = Some (fd_entry i fda ?d)"
    "file_get_descriptor ?st2 (int i + 1) = Some (fd_entry i fda ?d')"
    using i len o(2) by (simp_all add: file_get_descriptor_def)
  have "(of_nat n :: u32) \<noteq> 0" using n unat_of_nat_u32 [of n] by auto
  then have fr: "fread (\<lambda>_. fat16_fs io) st1 False (of_nat n) 1 (int i + 1) = Inr (1, disk_bytes img s n, ?st2)"
    using g1(1) r(1) k by (simp add: fread_def fd_entry_def fat16_fs_def)
  obtain st3 where cl: "fat16_close ?st2 ?d' = (0, st3)" by (simp add: fat16_close_def)
  let ?st3 = "kfree (st3\<lparr>file_descriptors := (file_descriptors st3)[i := None]\<rparr>) fda"
  have cl2: "file_descriptors st3 = (file_descriptors st)[i := Some (fd_entry i fda ?d')]"
    using fat16_driver.close_keeps [of io ?st2 ?d'] cl o(2) by (simp add: fat16_fs_def vfs_part_def)
  have fc: "fclose (\<lambda>_. fat16_fs io) ?st2 (int i + 1) = Inr (0, ?st3)"
    using g1(2) cl cl2 i len by (simp add: fclose_def fd_entry_def fat16_fs_def file_free_descriptor_def)
  have "kernel_heap st3 = fold (\<lambda>p h. heap_free h p) [p, a, ptr] (kernel_heap st1)"
    using cl k(1) by (auto simp: fat16_close_def fat16_free_descriptor_def fat16_fat_item_free_def open_file_def)
  then have "kernel_heap ?st3 = fold (\<lambda>p h. heap_free h p) [p, a, ptr, fda] (kernel_heap st1)" by simp
  also have "\<dots> = h" by (rule heap_grows_free_all [OF o(7)]) (use o(7) in \<open>auto simp: heap_grows_def\<close>)
  finally have hh: "kernel_heap ?st3 = h" .
  moreover have "file_descriptors ?st3 = file_descriptors st"
    using cl2 i by (simp add: kfree_def list_update_same_conv)
  ultimately show ?thesis using o(1,6) fr fc by metis
qed

subsection \<open>Properties\<close>

text \<open>C24: From boot to a file's contents, for a file the driver can reach. The volume is one that
  mounts: conforming controller, extended boot signature, a root directory of at least one entry
  whose first end marker is in slot \<open>m\<close>, positions within \<open>int\<close>, and room on the heap (fifteen more than the
  blocks in use, times the blocks of the root directory, within 25600). The file is a plain file
  in slot \<open>k\<close> of the root directory with \<open>k\<close> below the number of slots in use (no deleted slots push it out of
  reach; that number is within the directory), no other slot below that number has its name, and the name fits a path part. Then, after
  \<open>fs_init\<close> and \<open>disk_search_and_init\<close> with an empty descriptor table, \<open>fopen\<close> of a path \<open>0:/name\<close> for reading
  returns descriptor 1, \<open>fread\<close> of one member of \<open>n\<close> bytes (at most a cluster) delivers the bytes of the
  disk where the file's first cluster starts, and \<open>fclose\<close> returns 0 and leaves the descriptor table as
  it was. The heap has then grown by exactly three allocations: the parsed path, which \<open>fopen\<close> never
  releases when it succeeds.\<close>

theorem vfs_boot_open_read_close:
  fixes st :: "('d, 'a) vfsst_scheme"
  assumes "ata_device io ph img" "kheap_ok st" "ph (device st) = Idle"
    and "(heap_used (kernel_heap st) + 15) * root_blocks img \<le> 25600"
    and "file_descriptors st = replicate KERNEL_MAX_FILE_DESCRIPTORS None"
    and "signature (extended_header (boot_header img)) = 0x29" "root_marked img m"
    and "is_cstr f" "path_meaning (cstr f) = Some (0, [name])" "take 1 mode = [114]"
    and "only_entry (root_directory (volume img m)) k name" "item = dir_items (root_directory (volume img m)) ! k"
    and "attribute item AND FAT_FILE_SUBDIRECTORY = 0" "0 \<le> fat16_get_first_cluster item"
    and "0 < n" "n \<le> cluster_size (volume img m)" "s + n < 2 ^ 31"
    and "cluster_start (volume img m) (fat16_get_first_cluster item) = int s"
  shows "\<exists>st0 st1 st2 st3 ps. kbind (fs_init st) (disk_search_and_init (\<lambda>_. fat16_fs io)) = Inr st0 \<and>
    fopen (\<lambda>_. fat16_fs io) st0 f mode = Inr (1, st1) \<and>
    fread (\<lambda>_. fat16_fs io) st1 False (of_nat n) 1 1 = Inr (1, disk_bytes img s n, st2) \<and>
    fclose (\<lambda>_. fat16_fs io) st2 1 = Inr (0, st3) \<and> file_descriptors st3 = file_descriptors st \<and>
    length ps = 3 \<and> heap_grows (kernel_heap st0) ps (kernel_heap st3)"
proof -
  have room: "(heap_used (kernel_heap st) + 7) * root_blocks img \<le> 25600" using assms(4) by (simp add: add_mult_distrib)
  obtain st0 where st0: "kbind (fs_init st) (disk_search_and_init (\<lambda>_. fat16_fs io)) = Inr st0" "mounted io ph img m st0"
    "file_descriptors st0 = file_descriptors st" "heap_used (kernel_heap st0) \<le> heap_used (kernel_heap st) + 5 + root_blocks img"
    by (rule disk_search_and_init_mounts [OF assms(1-3) room assms(6,7)])
  have free: "first_free (file_descriptors st0) = Some 0" and len: "length (file_descriptors st0) = KERNEL_MAX_FILE_DESCRIPTORS"
    using assms(5) st0(3) by (simp_all add: kconfig numeral_eq_Suc)
  have "heap_used (kernel_heap st0) + 9 \<le> 25600"
    using room_beside [OF assms(4) root_blocks_pos [OF assms(7)]] st0(4) by simp
  from vfs_open_read_close [OF st0(2) free len assms(8-18) this] st0(1,3) show ?thesis by auto
qed

definition boot_vfsst :: "sim_disk vfsst" where
  "boot_vfsst = fatst.extend boot_fatst \<lparr>filesystems = [], file_descriptors = replicate 512 None\<rparr>"

lemma boot_vfsst_ok:
  "kheap_ok boot_vfsst" "heap_used (kernel_heap boot_vfsst) = 0" "sim_phase (device boot_vfsst) = Idle"
  "file_descriptors boot_vfsst = replicate KERNEL_MAX_FILE_DESCRIPTORS None"
  using boot_fatst_ok by (simp_all add: boot_vfsst_def fatst.defs kheap_ok_def kconfig)

definition hello_path :: "u8 list" where
  "hello_path = print_path 0 [part hello_txt] @ [0]"

lemma hello_path_ok: "is_cstr hello_path" "path_meaning (cstr hello_path) = Some (0, [part hello_txt])"
proof -
  have c: "is_cstr hello_path" "cstr hello_path = print_path 0 [part hello_txt]"
    by (simp_all add: hello_path_def print_path_def hello_txt_def kconfig)
  show "is_cstr hello_path" by (rule c(1))
  show "path_meaning (cstr hello_path) = Some (0, [part hello_txt])"
    unfolding c(2) using path_meaning_print [of 0 "[part hello_txt]"]
    by (simp add: hello_txt_def print_path_def kconfig)
qed

theorem vfs_boot_open_read_close_witness:
  "\<exists>st0 st1 st2 st3 ps. kbind (fs_init boot_vfsst) (disk_search_and_init (\<lambda>_. fat16_fs (sim_io (sample_volume sample_entry)))) = Inr st0 \<and>
    fopen (\<lambda>_. fat16_fs (sim_io (sample_volume sample_entry))) st0 hello_path [114, 0] = Inr (1, st1) \<and>
    fread (\<lambda>_. fat16_fs (sim_io (sample_volume sample_entry))) st1 False 5 1 1 = Inr (1, [104, 101, 108, 108, 111], st2) \<and>
    fclose (\<lambda>_. fat16_fs (sim_io (sample_volume sample_entry))) st2 1 = Inr (0, st3) \<and>
    file_descriptors st3 = file_descriptors boot_vfsst \<and>
    length ps = 3 \<and> heap_grows (kernel_heap st0) ps (kernel_heap st3)"
  using vfs_boot_open_read_close [OF sample_volume_ata boot_vfsst_ok(1,3) _ boot_vfsst_ok(4) sample_volume_facts(1) one_file_volume(1)
      hello_path_ok _ one_file_entry(1) one_file_entry(2) [symmetric], where n = 5 and s = 1536 and mode = "[114, 0]"]
  by (simp add: sample_item one_file_cluster boot_vfsst_ok(2) sample_content sample_root_blocks)

text \<open>C25: Whatever calls of \<open>fopen\<close>, \<open>fread\<close>, \<open>fseek\<close> and \<open>fclose\<close> are made, in any order and with any
  arguments, the descriptor table keeps its 512 entries, and every entry in use has the number of
  its slot, a file system and a driver's descriptor: no later call follows a NULL pointer of it.\<close>

theorem vfs_descriptor_table_invariant:
  assumes "(vfs_step (\<lambda>_. fat16_fs io))\<^sup>*\<^sup>* st st'" and "table_ok (file_descriptors st)"
  shows "table_ok (file_descriptors st')"
  by (rule fat16_driver.vfs_steps_table [OF assms])

lemma boot_table_ok: "table_ok (file_descriptors boot_vfsst)"
  by (simp add: boot_vfsst_ok table_ok_def)

theorem vfs_descriptor_table_invariant_witness:
  "\<exists>st0 st1 st2. kbind (fs_init boot_vfsst) (disk_search_and_init (\<lambda>_. fat16_fs (sim_io (sample_volume sample_entry)))) = Inr st0 \<and>
    fopen (\<lambda>_. fat16_fs (sim_io (sample_volume sample_entry))) st0 hello_path [114, 0] = Inr (1, st1) \<and>
    fread (\<lambda>_. fat16_fs (sim_io (sample_volume sample_entry))) st1 False 5 1 1 = Inr (1, [104, 101, 108, 108, 111], st2) \<and>
    table_ok (file_descriptors st2)"
proof -
  let ?ops = "\<lambda>_ :: fs_type. fat16_fs (sim_io (sample_volume sample_entry)) :: sim_disk vfsst filesystem_ops"
  obtain st0 where m: "kbind (fs_init boot_vfsst) (disk_search_and_init ?ops) = Inr st0"
    "mounted (sim_io (sample_volume sample_entry)) sim_phase (sample_volume sample_entry) 1 st0"
    "file_descriptors st0 = file_descriptors boot_vfsst" "heap_used (kernel_heap st0) \<le> 6"
    by (rule disk_search_and_init_mounts [OF sample_volume_ata boot_vfsst_ok(1,3) _ sample_volume_facts(1) one_file_volume(1)])
      (simp_all add: boot_vfsst_ok(2) sample_root_blocks)
  have f: "first_free (file_descriptors st0) = Some 0" "length (file_descriptors st0) = KERNEL_MAX_FILE_DESCRIPTORS"
    using m(3) by (simp_all add: boot_vfsst_ok(4) kconfig numeral_eq_Suc)
  obtain st1 st2 where o: "fopen ?ops st0 hello_path [114, 0] = Inr (1, st1)"
    "fread ?ops st1 False 5 1 1 = Inr (1, [104, 101, 108, 108, 111], st2)"
    using vfs_open_read_close [OF m(2) f hello_path_ok _ one_file_entry(1) one_file_entry(2) [symmetric],
        where n = 5 and s = 1536 and mode = "[114, 0]"] m(4)
    by (auto simp: sample_item one_file_cluster sample_content)
  have "(vfs_step ?ops)\<^sup>*\<^sup>* st0 st2" using step_fopen [OF o(1)] step_fread [OF o(2)] by (meson rtranclp.rtrancl_into_rtrancl rtranclp.rtrancl_refl)
  moreover have "table_ok (file_descriptors st0)" using boot_table_ok m(3) by simp
  ultimately have "table_ok (file_descriptors st2)" by (rule vfs_descriptor_table_invariant)
  with m(1) o show ?thesis by blast
qed

text \<open>What \<open>fopen\<close> answers: 0 for every failure (invalid path, unknown mode, driver error, full table), with
  the table unchanged, or the number of the lowest free entry plus one, with that entry and no
  other filled in.\<close>

lemma fopen_lowest_descriptor:
  assumes "fopen (\<lambda>_. fat16_fs io) st f m = Inr (r, st')"
  shows "if r = 0 then file_descriptors st' = file_descriptors st
    else \<exists>i d. r = int i + 1 \<and> i < length (file_descriptors st) \<and> file_descriptors st ! i = None \<and>
      (\<forall>j < i. file_descriptors st ! j \<noteq> None) \<and> fd_index d = r \<and>
      file_descriptors st' = (file_descriptors st)[i := Some d]"
  using fat16_driver.fopen_entry [OF assms] first_free_Some [of "file_descriptors st"]
  by (auto simp: entry_ok_def)

lemma fopen_lowest_descriptor_witness:
  "\<exists>st'. fopen (\<lambda>_. fat16_fs (sim_io sample_img)) boot_vfsst [0] [114, 0] = Inr (0, st') \<and>
    file_descriptors st' = file_descriptors boot_vfsst"
proof -
  have d: "path_meaning (cstr [0]) = None" by (simp add: path_meaning_def path_format_ok_def)
  with pathparser_parse_cases [OF boot_vfsst_ok(1), of "[0]"] obtain root st1 where
    "pathparser_parse boot_vfsst [0] = Inr (ERROR (- EINVAGS), root, st1)"
    by (auto simp: parse_failed_def parse_done_def boot_vfsst_ok path_parts_def split_path.simps)
  then have f: "fopen (\<lambda>_. fat16_fs (sim_io sample_img)) boot_vfsst [0] [114, 0] = Inr (0, st1)"
    using ERROR_EINVAGS(1) by (simp add: fopen_def fopen_failed_def)
  with fopen_lowest_descriptor [OF f] show ?thesis by simp
qed

end
