(* ===== verification/Descriptor_Tables.thy ===== *)
theory Descriptor_Tables
  imports Kernel_Prelude
begin

unbundle bit_operations_syntax

section \<open>Descriptor tables: gdt.c and the gates of idt.c\<close>

text \<open>
  \<open>gdt_structured_to_gdt\<close> packs segment descriptors into the eight bytes the processor reads, and \<open>idt_set\<close>
  packs gate descriptors. The decoding functions here are the processor's reading of those
  bytes (Intel SDM, volume 3, sections 3.4.5 and 6.11); the round trips say that the packed
  descriptors mean what was asked for.
\<close>

subsection \<open>Segments\<close>

record gdt_structured =
  seg_base :: u32
  seg_limit :: u32
  seg_type :: u8

text \<open>The eight bytes of \<open>struct gdt\<close>; the target's bytes before the call are not read.\<close>

definition encode_gdt_entry :: "gdt_structured \<Rightarrow> u8 list kresult" where
  "encode_gdt_entry source =
     (if seg_limit source > 65536 \<and> seg_limit source AND 0xFFF \<noteq> 0xFFF then Inl (Panic ''encode_gdt_entry: Invalid argument'')
      else let flags = (if seg_limit source > 65536 then 0xC0 else 0x40);
               limit = (if seg_limit source > 65536 then drop_bit 12 (seg_limit source) else seg_limit source);
               base = seg_base source
           in Inr [ucast (limit AND 0xFF), ucast (drop_bit 8 limit AND 0xFF),
                   ucast (base AND 0xFF), ucast (drop_bit 8 base AND 0xFF), ucast (drop_bit 16 base AND 0xFF),
                   seg_type source, flags OR ucast (drop_bit 16 limit AND 0x0F), ucast (drop_bit 24 base AND 0xFF)])"

fun gdt_structured_to_gdt :: "gdt_structured list \<Rightarrow> u8 list list kresult" where
  "gdt_structured_to_gdt [] = Inr []"
| "gdt_structured_to_gdt (s # ss) =
     kbind (encode_gdt_entry s) (\<lambda>d. kbind (gdt_structured_to_gdt ss) (\<lambda>ds. Inr (d # ds)))"

definition descriptor_base :: "u8 list \<Rightarrow> u32" where
  "descriptor_base d = ucast (d ! 2) OR push_bit 8 (ucast (d ! 3)) OR push_bit 16 (ucast (d ! 4)) OR push_bit 24 (ucast (d ! 7))"

definition descriptor_limit :: "u8 list \<Rightarrow> u32" where
  "descriptor_limit d =
     (let limit = ucast (d ! 0) OR push_bit 8 (ucast (d ! 1)) OR push_bit 16 (ucast (d ! 6 AND 0x0F)) in
      if bit (d ! 6) 7 then push_bit 12 limit OR 0xFFF else limit)"

lemma mask_bits: "(0xFF :: u32) = mask 8" "(0x0F :: u32) = mask 4" "(0x0F :: u8) = mask 4" "(0xFFF :: u32) = mask 12"
  by (simp_all add: mask_eq_exp_minus_1)

lemma base_bytes:
  "ucast (ucast (b AND 0xFF) :: u8) OR push_bit 8 (ucast (ucast (drop_bit 8 b AND 0xFF) :: u8))
     OR push_bit 16 (ucast (ucast (drop_bit 16 b AND 0xFF) :: u8))
     OR push_bit 24 (ucast (ucast (drop_bit 24 b AND 0xFF) :: u8)) = (b :: u32)" (is "?l = b")
proof (rule bit_word_eqI)
  fix n assume "n < LENGTH(32)"
  then consider "n < 8" | "8 \<le> n" "n < 16" | "16 \<le> n" "n < 24" | "24 \<le> n" "n < 32" by fastforce
  then show "bit ?l n = bit b n"
    unfolding mask_bits by cases (auto simp: bit_simps)
qed

lemma limit_bytes:
  assumes "l < 2 ^ 20" "f = 0x40 \<or> f = 0xC0"
  shows "ucast (ucast (l AND 0xFF) :: u8) OR push_bit 8 (ucast (ucast (drop_bit 8 l AND 0xFF) :: u8))
     OR push_bit 16 (ucast ((f OR ucast (drop_bit 16 l AND 0x0F) :: u8) AND 0x0F)) = (l :: u32)" (is "?l = l")
proof (rule bit_word_eqI)
  fix n assume n: "n < LENGTH(32)"
  have high: "\<not> bit l n" if "20 \<le> n"
  proof -
    have "take_bit 20 l = l" using assms(1) by (simp add: take_bit_eq_mod word_less_nat_alt unat_mod_distrib flip: unat_eq_iff_u32)
    then show ?thesis using that by (metis bit_take_bit_iff not_le)
  qed
  have f: "(f OR ucast (drop_bit 16 l AND 0x0F) :: u8) AND 0x0F = ucast (drop_bit 16 l AND 0x0F)"
    using assms(2) unfolding mask_bits
    by (auto simp: bit.conj_disj_distrib2 mask_eq_exp_minus_1 intro!: bit_word_eqI simp: bit_simps)
  from n consider "n < 8" | "8 \<le> n" "n < 16" | "16 \<le> n" "n < 20" | "20 \<le> n" by fastforce
  then show "bit ?l n = bit l n"
    unfolding f unfolding mask_bits by cases (auto simp: bit_simps high)
qed

lemma flag_nibble:
  assumes "f = 0x40 \<or> f = 0xC0"
  shows "(f OR ucast (x AND 0x0F :: u32) :: u8) AND 0xF0 = f"
proof -
  have "(ucast (x AND 0x0F) :: u8) AND 0xF0 = 0"
  proof (rule bit_word_eqI)
    fix n assume "n < LENGTH(8)"
    have f: "(0xF0 :: u8) = push_bit 4 (mask 4)" by (simp add: mask_eq_exp_minus_1 push_bit_eq_mult)
    show "bit ((ucast (x AND 0x0F) :: u8) AND 0xF0) n = bit (0 :: u8) n"
      unfolding f mask_bits(2) by (auto simp: bit_simps)
  qed
  with assms show ?thesis by (auto simp: bit.conj_disj_distrib2)
qed

subsection \<open>Gates\<close>

record idt_desc =
  offset_1 :: u16
  idt_selector :: u16
  idt_zero :: u8
  type_attributes :: u8
  offset_2 :: u16

record idtr_desc =
  idtr_limit :: u16
  idtr_base :: u32

definition idt_gate :: "u32 \<Rightarrow> idt_desc" where
  "idt_gate address =
     \<lparr>offset_1 = ucast (address AND 0x0000ffff), idt_selector = KERNEL_CODE_SELECTOR, idt_zero = 0, type_attributes = 0xEE,
      offset_2 = ucast (drop_bit 16 address)\<rparr>"

definition idt_set :: "idt_desc list \<Rightarrow> int \<Rightarrow> u32 \<Rightarrow> idt_desc list kresult" where
  "idt_set tbl interrupt_no address =
     (if interrupt_no < 0 \<or> int (length tbl) \<le> interrupt_no then Inl OutOfBounds
      else Inr (tbl[nat interrupt_no := idt_gate address]))"

definition gate_offset :: "idt_desc \<Rightarrow> u32" where
  "gate_offset d = ucast (offset_1 d) OR push_bit 16 (ucast (offset_2 d))"

lemma gate_offset_gate: "gate_offset (idt_gate a) = a"
proof (rule bit_word_eqI)
  fix n assume "n < LENGTH(32)"
  have m: "(0xffff :: u32) = mask 16" by (simp add: mask_eq_exp_minus_1)
  show "bit (gate_offset (idt_gate a)) n = bit a n"
    using \<open>n < LENGTH(32)\<close> unfolding gate_offset_def idt_gate_def idt_desc.select_convs m
    by (auto simp: bit_simps)
qed

lemma granularity_bit: "bit (f OR ucast (x AND 0x0F :: u32) :: u8) 7 = bit f 7"
  unfolding mask_bits by (simp add: bit_simps)

lemma page_limit:
  assumes "L AND 0xFFF = (0xFFF :: u32)"
  shows "push_bit 12 (drop_bit 12 L) OR 0xFFF = L"
proof (rule bit_word_eqI)
  fix n assume n: "n < LENGTH(32)"
  have "bit (L AND mask 12) n = bit (mask 12 :: u32) n" using assms by (simp only: mask_bits)
  then show "bit (push_bit 12 (drop_bit 12 L) OR 0xFFF) n = bit L n"
    using n unfolding mask_bits by (auto simp: bit_simps)
qed

lemma descriptor_limit_bytes:
  "descriptor_limit [x, y, b0, b1, b2, t, z, b3] =
     (let limit = ucast x OR push_bit 8 (ucast y) OR push_bit 16 (ucast (z AND 0x0F)) in
      if bit z 7 then push_bit 12 limit OR 0xFFF else limit)"
  by (simp add: descriptor_limit_def Let_def)

lemma limit_decode:
  assumes "l < 2 ^ 20" "f = 0x40 \<or> f = 0xC0"
  shows "descriptor_limit [ucast (l AND 0xFF), ucast (drop_bit 8 l AND 0xFF), b0, b1, b2, t, f OR ucast (drop_bit 16 l AND 0x0F), b3] =
    (if f = 0xC0 then push_bit 12 l OR 0xFFF else l)"
proof -
  have "bit (f OR ucast (drop_bit 16 l AND 0x0F) :: u8) 7 = (f = 0xC0)"
    unfolding granularity_bit using assms(2) by (auto simp: bit_iff_odd)
  then show ?thesis
    unfolding descriptor_limit_bytes limit_bytes [OF assms] Let_def by simp
qed

subsection \<open>Properties\<close>

text \<open>C28: Packing a segment descriptor. A limit above 65536 whose low twelve bits are not all set is refused
  with a panic, and no other limit is. The eight bytes of the others mean what was asked for: read back the
  way the processor reads them, they have the base, the type and the limit of the source, the
  flags of a 32-bit segment, and the granularity bit exactly for limits above 65536.\<close>

theorem encode_gdt_entry_roundtrip:
  "if seg_limit s > 65536 \<and> seg_limit s AND 0xFFF \<noteq> 0xFFF
   then encode_gdt_entry s = Inl (Panic ''encode_gdt_entry: Invalid argument'')
   else \<exists>d. encode_gdt_entry s = Inr d \<and> length d = 8 \<and> descriptor_base d = seg_base s \<and> descriptor_limit d = seg_limit s \<and>
     d ! 5 = seg_type s \<and> d ! 6 AND 0xF0 = (if seg_limit s > 65536 then 0xC0 else 0x40)"
proof (cases "seg_limit s > 65536")
  case False
  then have "seg_limit s < 2 ^ 20" by (simp add: word_less_nat_alt word_le_nat_alt not_less)
  with False limit_decode [of "seg_limit s" "0x40"] base_bytes [of "seg_base s"] flag_nibble [of "0x40"] show ?thesis
    by (simp add: encode_gdt_entry_def descriptor_base_def Let_def)
next
  case True
  have "drop_bit 12 (seg_limit s) < 2 ^ 20"
    using unat_u32_less [of "seg_limit s"]
    by (simp add: word_less_nat_alt drop_bit_eq_div unat_div_distrib less_mult_imp_div_less)
  with True limit_decode [of "drop_bit 12 (seg_limit s)" "0xC0"] base_bytes [of "seg_base s"] page_limit [of "seg_limit s"]
    flag_nibble [of "0xC0"]
  show ?thesis
    by (auto simp: encode_gdt_entry_def descriptor_base_def Let_def)
qed

end
