(* ===== verification/Elf.thy ===== *)
theory Elf
  imports Vfs
begin

unbundle bit_operations_syntax

section \<open>ELF images: elf.c and elfloader.c\<close>

text \<open>
  An executable is read whole into one heap block and its headers are used in place, at their
  addresses in physical memory. \<open>struct elf_header\<close>, \<open>struct elf32_phdr\<close> and \<open>struct elf32_shdr\<close> are decoded from the bytes at a pointer. The
  code does not compare offsets with the size of the file: a header outside the block is read from
  whatever memory is there, here as in the code.
\<close>

subsection \<open>Structures\<close>

record elf_header_t =
  e_ident :: "u8 list"
  e_type :: u16
  e_machine :: u16
  e_version :: u32
  e_entry :: u32
  e_phoff :: u32
  e_shoff :: u32
  e_flags :: u32
  e_ehsize :: u16
  e_phentsize :: u16
  e_phnum :: u16
  e_shentsize :: u16
  e_shnum :: u16
  e_shstrndx :: u16

record elf32_phdr =
  p_type :: u32
  p_offset :: u32
  p_vaddr :: u32
  p_paddr :: u32
  p_filesz :: u32
  p_memsz :: u32
  p_flags :: u32
  p_align :: u32

record elf32_shdr =
  sh_name :: u32
  sh_type :: u32
  sh_flags :: u32
  sh_addr :: u32
  sh_offset :: u32
  sh_size :: u32
  sh_link :: u32
  sh_info :: u32
  sh_addralign :: u32
  sh_entsize :: u32

definition decode_elf_header :: "u8 list \<Rightarrow> elf_header_t" where
  "decode_elf_header bs =
     \<lparr>e_ident = take 16 bs, e_type = le16 bs 16, e_machine = le16 bs 18, e_version = le32 bs 20, e_entry = le32 bs 24,
      e_phoff = le32 bs 28, e_shoff = le32 bs 32, e_flags = le32 bs 36, e_ehsize = le16 bs 40, e_phentsize = le16 bs 42,
      e_phnum = le16 bs 44, e_shentsize = le16 bs 46, e_shnum = le16 bs 48, e_shstrndx = le16 bs 50\<rparr>"

definition decode_phdr :: "u8 list \<Rightarrow> elf32_phdr" where
  "decode_phdr bs =
     \<lparr>p_type = le32 bs 0, p_offset = le32 bs 4, p_vaddr = le32 bs 8, p_paddr = le32 bs 12, p_filesz = le32 bs 16,
      p_memsz = le32 bs 20, p_flags = le32 bs 24, p_align = le32 bs 28\<rparr>"

definition decode_shdr :: "u8 list \<Rightarrow> elf32_shdr" where
  "decode_shdr bs =
     \<lparr>sh_name = le32 bs 0, sh_type = le32 bs 4, sh_flags = le32 bs 8, sh_addr = le32 bs 12, sh_offset = le32 bs 16,
      sh_size = le32 bs 20, sh_link = le32 bs 24, sh_info = le32 bs 28, sh_addralign = le32 bs 32, sh_entsize = le32 bs 36\<rparr>"

text \<open>The structure at an address.\<close>

definition header_at :: "mem \<Rightarrow> u32 \<Rightarrow> elf_header_t" where
  "header_at m a = decode_elf_header (mem_bytes m a 52)"

definition phdr_at :: "mem \<Rightarrow> u32 \<Rightarrow> elf32_phdr" where
  "phdr_at m a = decode_phdr (mem_bytes m a 32)"

definition shdr_at :: "mem \<Rightarrow> u32 \<Rightarrow> elf32_shdr" where
  "shdr_at m a = decode_shdr (mem_bytes m a 40)"

record elf_file =
  ef_addr :: u32
  ef_filename :: "u8 list"
  in_memory_size :: int
  ef_memory :: u32
  virtual_base_address :: u32
  virtual_end_address :: u32
  physical_base_address :: u32
  physical_end_address :: u32

definition PF_W :: u32 where [kconfig]: "PF_W = 0x02"
definition PT_LOAD :: u32 where [kconfig]: "PT_LOAD = 1"
definition ET_EXEC :: u16 where [kconfig]: "ET_EXEC = 2"
definition EI_CLASS :: nat where [kconfig]: "EI_CLASS = 4"
definition EI_DATA :: nat where [kconfig]: "EI_DATA = 5"
definition ELFCLASSNONE :: u8 where [kconfig]: "ELFCLASSNONE = 0"
definition ELFCLASS32 :: u8 where [kconfig]: "ELFCLASS32 = 1"
definition ELFDATANONE :: u8 where [kconfig]: "ELFDATANONE = 0"
definition ELFDATA2LSB :: u8 where [kconfig]: "ELFDATA2LSB = 1"

definition elf_signature :: "u8 list" where
  "elf_signature = [0x7f, 69, 76, 70]"

subsection \<open>Accessors\<close>

definition elf_get_entry :: "elf_header_t \<Rightarrow> u32" where
  "elf_get_entry h = e_entry h"

definition elf_get_entry_ptr :: "elf_header_t \<Rightarrow> u32" where
  "elf_get_entry_ptr h = e_entry h"

definition elf_memory :: "elf_file \<Rightarrow> u32" where
  "elf_memory f = ef_memory f"

definition elf_header :: "elf_file \<Rightarrow> u32" where
  "elf_header f = ef_memory f"

definition elf_sheader :: "mem \<Rightarrow> u32 \<Rightarrow> u32" where
  "elf_sheader m hdr = hdr + e_shoff (header_at m hdr)"

definition elf_pheader :: "mem \<Rightarrow> u32 \<Rightarrow> u32" where
  "elf_pheader m hdr = (if e_phoff (header_at m hdr) = 0 then 0 else hdr + e_phoff (header_at m hdr))"

definition elf_program_header :: "mem \<Rightarrow> u32 \<Rightarrow> nat \<Rightarrow> u32" where
  "elf_program_header m hdr index = elf_pheader m hdr + 32 * of_nat index"

definition elf_section :: "mem \<Rightarrow> u32 \<Rightarrow> nat \<Rightarrow> u32" where
  "elf_section m hdr index = elf_sheader m hdr + 40 * of_nat index"

definition elf_str_table :: "mem \<Rightarrow> u32 \<Rightarrow> u32" where
  "elf_str_table m hdr = hdr + sh_offset (shdr_at m (elf_section m hdr (unat (e_shstrndx (header_at m hdr)))))"

definition elf_virtual_base :: "elf_file \<Rightarrow> u32" where
  "elf_virtual_base f = virtual_base_address f"

definition elf_virtual_end :: "elf_file \<Rightarrow> u32" where
  "elf_virtual_end f = virtual_end_address f"

definition elf_phys_base :: "elf_file \<Rightarrow> u32" where
  "elf_phys_base f = physical_base_address f"

definition elf_phys_end :: "elf_file \<Rightarrow> u32" where
  "elf_phys_end f = physical_end_address f"

definition elf_phdr_phys_address :: "elf_file \<Rightarrow> elf32_phdr \<Rightarrow> u32" where
  "elf_phdr_phys_address f phdr = elf_memory f + p_offset phdr"

subsection \<open>Validation\<close>

definition elf_valid_signature :: "mem \<Rightarrow> u32 \<Rightarrow> bool" where
  "elf_valid_signature m buffer = (memcmp (mem_bytes m buffer 4) elf_signature 4 = Some 0)"

definition elf_valid_class :: "elf_header_t \<Rightarrow> bool" where
  "elf_valid_class h = (e_ident h ! EI_CLASS = ELFCLASSNONE \<or> e_ident h ! EI_CLASS = ELFCLASS32)"

definition elf_valid_encoding :: "elf_header_t \<Rightarrow> bool" where
  "elf_valid_encoding h = (e_ident h ! EI_DATA = ELFDATANONE \<or> e_ident h ! EI_DATA = ELFDATA2LSB)"

definition elf_is_executable :: "elf_header_t \<Rightarrow> bool" where
  "elf_is_executable h = (e_type h = ET_EXEC \<and> e_entry h \<ge> KERNEL_PROGRAM_VIRTUAL_ADDRESS)"

definition elf_has_program_header :: "elf_header_t \<Rightarrow> bool" where
  "elf_has_program_header h = (e_phoff h \<noteq> 0)"

definition elf_validate_loaded :: "mem \<Rightarrow> u32 \<Rightarrow> int" where
  "elf_validate_loaded m hdr =
     (let h = header_at m hdr in
      if elf_valid_signature m hdr \<and> elf_valid_class h \<and> elf_valid_encoding h \<and> elf_has_program_header h
         \<and> elf_is_executable h
      then KERNEL_ALL_OK else - EINFORMATS)"

subsection \<open>Program headers\<close>

definition elf_process_phdr_pt_load :: "elf_file \<Rightarrow> elf32_phdr \<Rightarrow> int \<times> elf_file" where
  "elf_process_phdr_pt_load f phdr =
     (let f1 = (if virtual_base_address f \<ge> p_vaddr phdr \<or> virtual_base_address f = 0
                then f\<lparr>virtual_base_address := p_vaddr phdr, physical_base_address := ef_memory f + p_offset phdr\<rparr>
                else f);
          end_virtual_address = p_vaddr phdr + p_filesz phdr;
          f2 = (if virtual_end_address f1 \<le> end_virtual_address \<or> virtual_end_address f1 = 0
                then f1\<lparr>virtual_end_address := end_virtual_address,
                        physical_end_address := ef_memory f1 + p_offset phdr + p_filesz phdr\<rparr>
                else f1)
      in (0, f2))"

definition elf_process_pheader :: "elf_file \<Rightarrow> elf32_phdr \<Rightarrow> int \<times> elf_file" where
  "elf_process_pheader f phdr =
     (if p_type phdr = PT_LOAD then elf_process_phdr_pt_load f phdr else (- EINVAGS, f))"

text \<open>The loop of \<open>elf_process_pheaders\<close> from index \<open>i\<close> on, \<open>n\<close> headers left.\<close>

primrec elf_process_pheaders_loop :: "mem \<Rightarrow> nat \<Rightarrow> nat \<Rightarrow> elf_file \<Rightarrow> int \<Rightarrow> int \<times> elf_file" where
  "elf_process_pheaders_loop m 0 i f res = (res, f)"
| "elf_process_pheaders_loop m (Suc n) i f res =
     (let (res', f') = elf_process_pheader f (phdr_at m (elf_program_header m (elf_header f) i)) in
      if res' < 0 then (res', f') else elf_process_pheaders_loop m n (Suc i) f' res')"

definition elf_process_pheaders :: "mem \<Rightarrow> elf_file \<Rightarrow> int \<times> elf_file" where
  "elf_process_pheaders m f = elf_process_pheaders_loop m (unat (e_phnum (header_at m (elf_header f)))) 0 f 0"

definition elf_process_load :: "mem \<Rightarrow> elf_file \<Rightarrow> int \<times> elf_file" where
  "elf_process_load m f =
     (let res = elf_validate_loaded m (elf_header f) in
      if res < 0 then (res, f) else elf_process_pheaders m f)"

subsection \<open>Loading and closing\<close>

definition elf_file_free :: "'a kstate_scheme \<Rightarrow> elf_file option \<Rightarrow> 'a kstate_scheme" where
  "elf_file_free ks f = (case f of None \<Rightarrow> kfree ks 0 | Some e \<Rightarrow> kfree (kfree ks (ef_memory e)) (ef_addr e))"

definition elf_close :: "'a kstate_scheme \<Rightarrow> elf_file option \<Rightarrow> 'a kstate_scheme" where
  "elf_close ks f = (case f of None \<Rightarrow> ks | Some e \<Rightarrow> kfree (kfree ks (ef_memory e)) (ef_addr e))"

definition elf_file_new :: "'a kstate_scheme \<Rightarrow> elf_file option \<times> 'a kstate_scheme" where
  "elf_file_new ks =
     (let (p, ks1) = kzalloc ks 132 in
      (if p = 0 then None
       else Some \<lparr>ef_addr = p, ef_filename = replicate KERNEL_MAX_PATH 0, in_memory_size = 0, ef_memory = 0,
                  virtual_base_address = 0, virtual_end_address = 0, physical_base_address = 0,
                  physical_end_address = 0\<rparr>, ks1))"

text \<open>The exits \<open>close_out\<close> and \<open>free_out\<close> of \<open>elf_load\<close>. The result of \<open>fclose\<close> is ignored.\<close>

definition elf_load_failed ::
    "(fs_type \<Rightarrow> ('d, 'a) vfsst_scheme filesystem_ops) \<Rightarrow> ('d, 'a) vfsst_scheme \<Rightarrow> int \<Rightarrow> int \<Rightarrow> elf_file
      \<Rightarrow> (int \<times> elf_file option \<times> ('d, 'a) vfsst_scheme) kresult" where
  "elf_load_failed ops st fd res f =
     kbind (fclose ops st fd) (\<lambda>(r, st1). Inr (res, None, elf_file_free st1 (Some f)))"

definition elf_load ::
    "(fs_type \<Rightarrow> ('d, 'a) vfsst_scheme filesystem_ops) \<Rightarrow> ('d, 'a) vfsst_scheme \<Rightarrow> u8 list
      \<Rightarrow> (int \<times> elf_file option \<times> ('d, 'a) vfsst_scheme) kresult" where
  "elf_load ops st fname =
     (case elf_file_new st of
        (None, st1) \<Rightarrow> Inr (- ENOMEM, None, st1)
      | (Some f, st1) \<Rightarrow>
          kbind (fopen ops st1 fname [114, 0]) (\<lambda>(fd, st2).
          if fd \<le> 0 then Inr (- EIO, None, elf_file_free st2 (Some f))
          else kbind (fstat ops st2 fd (Some \<lparr>stat_flags = 0, stat_filesize = 0\<rparr>)) (\<lambda>(res, stat).
            if res < 0 then elf_load_failed ops st2 fd res f
            else let fsize = (case stat of None \<Rightarrow> 0 | Some s \<Rightarrow> stat_filesize s);
                     (mem, st3) = kzalloc st2 fsize in
              if mem = 0 then elf_load_failed ops st3 fd (- ENOMEM) f
              else kbind (fread ops st3 False fsize 1 fd) (\<lambda>(res, bs, st4).
                let st5 = st4\<lparr>kmem := mem_write (kmem st4) mem bs\<rparr> in
                if res < 0 then elf_load_failed ops st5 fd res f
                else let (res, f1) = elf_process_load (kmem st5) (f\<lparr>ef_memory := mem, in_memory_size := sint fsize\<rparr>) in
                  if res < 0 then elf_load_failed ops st5 fd res f1
                  else case memcpy (ef_filename f1) fname KERNEL_MAX_PATH of
                    None \<Rightarrow> Inl OutOfBounds
                  | Some name \<Rightarrow> Inr (res, Some (f1\<lparr>ef_filename := name\<rparr>), st5)))))"

subsection \<open>The image of an executable\<close>

definition segments :: "mem \<Rightarrow> u32 \<Rightarrow> elf32_phdr list" where
  "segments m hdr = map (\<lambda>i. phdr_at m (elf_program_header m hdr i)) [0 ..< unat (e_phnum (header_at m hdr))]"

text \<open>A segment whose file image does not wrap around the address space and does not start at 0.\<close>

definition segment_ok :: "elf32_phdr \<Rightarrow> bool" where
  "segment_ok ph \<longleftrightarrow> p_vaddr ph \<noteq> 0 \<and> unat (p_vaddr ph) + unat (p_filesz ph) < 2 ^ 32"

definition segment_end :: "elf32_phdr \<Rightarrow> u32" where
  "segment_end ph = p_vaddr ph + p_filesz ph"

text \<open>The bounds the loader computes cover exactly the segments seen so far.\<close>

definition covers_segments :: "elf_file \<Rightarrow> elf32_phdr list \<Rightarrow> bool" where
  "covers_segments f phs \<longleftrightarrow>
     (if phs = [] then virtual_base_address f = 0 \<and> virtual_end_address f = 0
      else (\<exists>ph \<in> set phs. virtual_base_address f = p_vaddr ph \<and> physical_base_address f = ef_memory f + p_offset ph) \<and>
        (\<exists>ph \<in> set phs. virtual_end_address f = segment_end ph \<and> physical_end_address f = ef_memory f + p_offset ph + p_filesz ph) \<and>
        (\<forall>ph \<in> set phs. virtual_base_address f \<le> p_vaddr ph \<and> segment_end ph \<le> virtual_end_address f))"

lemma segment_end_nonzero:
  assumes "segment_ok ph"
  shows "segment_end ph \<noteq> 0"
proof
  assume "segment_end ph = 0"
  then have "unat (p_vaddr ph + p_filesz ph) = 0" by (simp add: segment_end_def)
  then have "unat (p_vaddr ph) + unat (p_filesz ph) = 0"
    using assms by (subst (asm) unat_add_lem [THEN iffD1]) (simp_all add: segment_ok_def)
  with assms show False by (simp add: segment_ok_def unat_eq_0)
qed

lemma covers_segments_step:
  assumes "covers_segments f phs" "\<forall>p \<in> set (phs @ [ph]). segment_ok p"
  shows "covers_segments (snd (elf_process_phdr_pt_load f ph)) (phs @ [ph])"
proof (cases "phs = []")
  case True
  with assms show ?thesis
    by (simp add: covers_segments_def elf_process_phdr_pt_load_def segment_end_def)
next
  case False
  have nz: "virtual_base_address f \<noteq> 0" "virtual_end_address f \<noteq> 0"
    using assms False segment_end_nonzero by (auto simp: covers_segments_def segment_ok_def)
  show ?thesis
    using assms(1) False nz
    by (auto simp: covers_segments_def elf_process_phdr_pt_load_def Let_def segment_end_def not_le
        intro: order_trans less_imp_le)
qed

lemma pt_load_keeps [simp]:
  "ef_memory (snd (elf_process_phdr_pt_load f ph)) = ef_memory f" "ef_addr (snd (elf_process_phdr_pt_load f ph)) = ef_addr f"
  "fst (elf_process_phdr_pt_load f ph) = 0"
  by (simp_all add: elf_process_phdr_pt_load_def Let_def)

lemma elf_process_pheaders_loop_ok:
  assumes "covers_segments f seen" "rest = map (\<lambda>i. phdr_at m (elf_program_header m (ef_memory f) i)) [i ..< i + n]"
    and "\<forall>ph \<in> set rest. p_type ph = PT_LOAD" "\<forall>ph \<in> set (seen @ rest). segment_ok ph"
  shows "\<exists>f'. elf_process_pheaders_loop m n i f 0 = (0, f') \<and> covers_segments f' (seen @ rest) \<and>
    ef_memory f' = ef_memory f \<and> ef_addr f' = ef_addr f"
  using assms
proof (induction n arbitrary: i f seen rest)
  case (Suc n)
  let ?ph = "phdr_at m (elf_program_header m (ef_memory f) i)"
  let ?rest = "map (\<lambda>i. phdr_at m (elf_program_header m (ef_memory f) i)) [Suc i ..< Suc i + n]"
  let ?f = "snd (elf_process_phdr_pt_load f ?ph)"
  have rest: "rest = ?ph # ?rest" using Suc.prems(2) by (simp add: upt_conv_Cons del: upt_Suc)
  then have t: "p_type ?ph = PT_LOAD" using Suc.prems(3) by simp
  have c: "covers_segments ?f (seen @ [?ph])"
    by (rule covers_segments_step [OF Suc.prems(1)]) (use Suc.prems(4) rest in auto)
  have "\<exists>f'. elf_process_pheaders_loop m n (Suc i) ?f 0 = (0, f') \<and> covers_segments f' ((seen @ [?ph]) @ ?rest) \<and>
      ef_memory f' = ef_memory ?f \<and> ef_addr f' = ef_addr ?f"
    by (rule Suc.IH [OF c]) (use Suc.prems rest in auto)
  moreover have "elf_process_pheader f ?ph = (0, ?f)"
    using t by (simp add: elf_process_pheader_def prod_eq_iff)
  ultimately show ?case using rest by (simp add: elf_header_def)
qed simp

lemma elf_process_pheaders_loop_refuses:
  assumes "rest = map (\<lambda>i. phdr_at m (elf_program_header m (ef_memory f) i)) [i ..< i + n]" "\<exists>ph \<in> set rest. p_type ph \<noteq> PT_LOAD"
  shows "fst (elf_process_pheaders_loop m n i f res) = - EINVAGS"
  using assms
proof (induction n arbitrary: i f rest res)
  case (Suc n)
  let ?ph = "phdr_at m (elf_program_header m (ef_memory f) i)"
  have rest: "rest = ?ph # map (\<lambda>i. phdr_at m (elf_program_header m (ef_memory f) i)) [Suc i ..< Suc i + n]"
    using Suc.prems(1) by (simp add: upt_conv_Cons del: upt_Suc)
  show ?case
  proof (cases "p_type ?ph = PT_LOAD")
    case True
    let ?f = "snd (elf_process_phdr_pt_load f ?ph)"
    have "elf_process_pheader f ?ph = (0, ?f)" using True by (simp add: elf_process_pheader_def prod_eq_iff)
    moreover have "fst (elf_process_pheaders_loop m n (Suc i) ?f 0) = - EINVAGS"
      by (rule Suc.IH [OF refl]) (use Suc.prems(2) True rest in auto)
    ultimately show ?thesis by (simp add: elf_header_def)
  next
    case False
    then show ?thesis by (simp add: elf_process_pheader_def elf_header_def kconfig)
  qed
qed simp

subsection \<open>Loading and the descriptor table\<close>

lemma fds_kmem [simp]: "file_descriptors (st\<lparr>kmem := m\<rparr>) = file_descriptors st"
  by simp

lemma fds_kzalloc: "kzalloc st n = (p, st') \<Longrightarrow> file_descriptors st' = file_descriptors (st :: ('d, 'a) vfsst_scheme)"
  using vfs_part_more [OF more_kzalloc] by (auto simp: vfs_part_def)

lemma vfs_more_kzalloc: "kzalloc st n = (p, st') \<Longrightarrow> vfsst.more st' = vfsst.more (st :: ('d, 'a) vfsst_scheme)"
  using vfs_part_more [OF more_kzalloc] by (auto simp: vfs_part_def)

lemma fds_kfree [simp]: "file_descriptors (kfree st p) = file_descriptors (st :: ('d, 'a) vfsst_scheme)"
  using vfs_part_more [OF more_kfree] by (auto simp: vfs_part_def)

lemma fds_elf_file_free [simp]: "file_descriptors (elf_file_free st f) = file_descriptors (st :: ('d, 'a) vfsst_scheme)"
  by (simp add: elf_file_free_def split: option.splits)

lemma fds_elf_file_new: "elf_file_new st = (f, st') \<Longrightarrow> file_descriptors st' = file_descriptors (st :: ('d, 'a) vfsst_scheme)"
  by (auto simp: elf_file_new_def split: prod.splits dest: fds_kzalloc)

context filesystem_driver
begin

text \<open>Loading touches nothing above the file layer.\<close>

lemma elf_load_failed_more: "elf_load_failed ops st fd res f = Inr (r, e, st') \<Longrightarrow> vfsst.more st' = vfsst.more st"
  by (auto simp: elf_load_failed_def kbind_Inr_iff elf_file_free_def kfree_def dest: fclose_more)

lemma elf_load_more:
  assumes "elf_load ops st fname = Inr (r, e, st')"
  shows "vfsst.more st' = vfsst.more st"
proof -
  obtain fo st1 where n: "elf_file_new st = (fo, st1)" by fastforce
  have k1: "vfsst.more st1 = vfsst.more st" using n by (auto simp: elf_file_new_def split: prod.splits dest: vfs_more_kzalloc)
  show ?thesis
  proof (cases fo)
    case None
    with assms n k1 show ?thesis by (auto simp: elf_load_def)
  next
    case (Some f)
    note a1 = assms [unfolded elf_load_def n Some prod.case option.case]
    from a1 obtain fd st2 where o: "fopen ops st1 fname [114, 0] = Inr (fd, st2)" by (auto simp: kbind_Inr_iff)
    note k2 = fopen_effect [OF o, THEN conjunct1, unfolded k1] and a2 = a1 [unfolded o kbind_simps prod.case]
    show ?thesis
    proof (cases "fd \<le> 0")
      case True
      with a2 k2 show ?thesis by (auto simp: elf_file_free_def kfree_def)
    next
      case False
      note a3 = a2 [unfolded if_not_P [OF False]]
      from a3 obtain res stat where s: "fstat ops st2 fd (Some \<lparr>stat_flags = 0, stat_filesize = 0\<rparr>) = Inr (res, stat)"
        by (auto simp: kbind_Inr_iff)
      define fsize where "fsize = (case stat of None \<Rightarrow> 0 | Some s \<Rightarrow> stat_filesize s)"
      obtain mem st3 where m: "kzalloc st2 fsize = (mem, st3)" by fastforce
      note k3 = vfs_more_kzalloc [OF m, unfolded k2]
      note a4 = a3 [unfolded s kbind_simps prod.case, folded fsize_def, unfolded Let_def m prod.case]
      show ?thesis
      proof (cases "res < 0 \<or> mem = 0")
        case True
        with a4 k2 k3 show ?thesis by (auto split: if_splits dest!: elf_load_failed_more)
      next
        case False
        then have f: "\<not> res < 0" "mem \<noteq> 0" by auto
        from a4 [unfolded if_not_P [OF f(1)] if_not_P [OF f(2)]] obtain rr bs st4 where
          rd: "fread ops st3 False fsize 1 fd = Inr (rr, bs, st4)" by (auto simp: kbind_Inr_iff)
        define st5 where "st5 = st4\<lparr>kmem := mem_write (kmem st4) mem bs\<rparr>"
        have k5: "vfsst.more st5 = vfsst.more st" using fread_more [OF rd, unfolded k3] by (simp add: st5_def)
        note a5 = a4 [unfolded if_not_P [OF f(1)] if_not_P [OF f(2)] rd kbind_simps prod.case, folded st5_def]
        from a5 k5 show ?thesis
          by (auto split: if_splits prod.splits option.splits dest!: elf_load_failed_more)
      qed
    qed
  qed
qed

text \<open>Every way out of \<open>elf_load\<close> with an error closes what it opened; success leaves the descriptor open.\<close>

lemma elf_load_failed_fds:
  assumes "elf_load_failed ops st fd res f = Inr (r, e, st')" "table_ok (file_descriptors st)"
  shows "r = res \<and> e = None \<and>
    (file_descriptors st' = file_descriptors st \<or> file_descriptors st' = (file_descriptors st)[nat (fd - 1) := None])"
proof -
  from assms(1) obtain c st1 where c: "fclose ops st fd = Inr (c, st1)" "r = res" "e = None"
    "st' = elf_file_free st1 (Some f)" by (auto simp: elf_load_failed_def kbind_Inr_iff)
  with fclose_entry [OF c(1) assms(2)] show ?thesis by auto
qed

end

lemma fat16_fclose_frees:
  assumes "fclose (\<lambda>_. fat16_fs io) st fd = Inr (r, st')" "table_ok (file_descriptors st)" "0 < fd" "fd \<le> 512"
    and "file_descriptors st ! nat (fd - 1) \<noteq> None"
  shows "file_descriptors st' = (file_descriptors st)[nat (fd - 1) := None]"
proof -
  from assms(5) obtain desc where d: "file_descriptors st ! nat (fd - 1) = Some desc" by auto
  with assms(2-4) have "entry_ok (nat (fd - 1)) desc" by (auto simp: table_ok_def kconfig)
  then obtain fs priv where p: "fd_filesystem desc = Some fs" "fd_private desc = Some priv" by (auto simp: entry_ok_def)
  have "file_descriptors (snd (fat16_close st priv)) = file_descriptors st"
    using fat16_driver.close_keeps [of io st priv "fst (fat16_close st priv)" "snd (fat16_close st priv)"]
    by (simp add: fat16_fs_def vfs_part_def)
  with assms d p show ?thesis
    by (auto simp: fclose_def file_get_descriptor_def fat16_fs_def fat16_close_def file_free_descriptor_def kbind_Inr_iff kfree_def
        kconfig table_ok_def split: if_splits)
qed

text \<open>The states after the descriptor was opened: only its own entry differs from the table before.\<close>

definition opened_at :: "file_descriptor option list \<Rightarrow> nat \<Rightarrow> ('d, 'a) vfsst_scheme \<Rightarrow> bool" where
  "opened_at fds i st \<longleftrightarrow> (\<exists>d. entry_ok i d \<and> file_descriptors st = fds[i := Some d])"

lemma opened_at_cong: "file_descriptors st' = file_descriptors st \<Longrightarrow> opened_at fds i st \<Longrightarrow> opened_at fds i st'"
  by (simp add: opened_at_def)

lemma opened_at_fread:
  assumes "fread (\<lambda>_. fat16_fs io) st b sz n (int i + 1) = Inr (r, bs, st')" "opened_at fds i st" "table_ok fds"
  shows "opened_at fds i st'"
proof -
  from assms(2) obtain d where d: "entry_ok i d" "file_descriptors st = fds[i := Some d]" by (auto simp: opened_at_def)
  then have "table_ok (file_descriptors st)" using assms(3) by (auto intro: table_ok_upd)
  from fat16_driver.fread_entry [OF assms(1) this] d show ?thesis by (auto simp: opened_at_def)
qed

lemma opened_at_failed:
  assumes "elf_load_failed (\<lambda>_. fat16_fs io) st (int i + 1) res f = Inr (r, e, st')" "opened_at fds i st" "table_ok fds"
    and "i < length fds" "fds ! i = None"
  shows "r = res \<and> e = None \<and> file_descriptors st' = fds"
proof -
  from assms(1) obtain c st1 where c: "fclose (\<lambda>_. fat16_fs io) st (int i + 1) = Inr (c, st1)" "r = res" "e = None"
    "st' = elf_file_free st1 (Some f)" by (auto simp: elf_load_failed_def kbind_Inr_iff)
  from assms(2) obtain d where d: "entry_ok i d" "file_descriptors st = fds[i := Some d]" by (auto simp: opened_at_def)
  then have t: "table_ok (file_descriptors st)" using assms(3) by (auto intro: table_ok_upd)
  have "int i + 1 \<le> 512" using assms(3,4) by (simp add: table_ok_def kconfig)
  from fat16_fclose_frees [OF c(1) t _ this] d(2) assms(4,5) have "file_descriptors st1 = fds"
    by (simp add: list_update_same_conv)
  with c show ?thesis by simp
qed

lemma elf_load_descriptors:
  fixes st :: "('d, 'a) vfsst_scheme"
  assumes l: "elf_load (\<lambda>_. fat16_fs io) st fname = Inr (r, e, st')" and t: "table_ok (file_descriptors st)"
  shows "e = None \<and> r < 0 \<and> file_descriptors st' = file_descriptors st \<or>
    (\<exists>i. e \<noteq> None \<and> 0 \<le> r \<and> first_free (file_descriptors st) = Some i \<and> opened_at (file_descriptors st) i st')"
proof (cases "elf_file_new st")
  case (Pair fo st1)
  note k1 = fds_elf_file_new [OF Pair]
  show ?thesis
  proof (cases fo)
    case None
    with l Pair k1 show ?thesis by (auto simp: elf_load_def kconfig)
  next
    case (Some f)
    note l1 = l [unfolded elf_load_def Pair Some prod.case option.case]
    from l1 obtain fd st2 where o: "fopen (\<lambda>_. fat16_fs io) st1 fname [114, 0] = Inr (fd, st2)" by (auto simp: kbind_Inr_iff)
    note l2 = l1 [unfolded o kbind_simps prod.case]
    show ?thesis
    proof (cases "fd \<le> 0")
      case True
      with fat16_driver.fopen_entry [OF o] l2 k1 show ?thesis by (auto simp: kconfig)
    next
      case False
      with fat16_driver.fopen_entry [OF o] k1 obtain i where i: "first_free (file_descriptors st) = Some i" "fd = int i + 1"
        "opened_at (file_descriptors st) i st2" by (auto simp: opened_at_def)
      note i' = first_free_Some [OF i(1), THEN conjunct1] first_free_Some [OF i(1), THEN conjunct2, THEN conjunct1]
      have failed: "r < 0 \<and> e = None \<and> file_descriptors st' = file_descriptors st"
        if "elf_load_failed (\<lambda>_. fat16_fs io) sta fd res f = Inr (r, e, st')" "opened_at (file_descriptors st) i sta" "res < 0"
        for sta res f using opened_at_failed [OF that(1) [unfolded i(2)] that(2) t i'] that(3) by simp
      from l2 False obtain res stat where s: "fstat (\<lambda>_. fat16_fs io) st2 fd (Some \<lparr>stat_flags = 0, stat_filesize = 0\<rparr>) = Inr (res, stat)"
        by (auto simp: kbind_Inr_iff)
      note l3 = l2 [unfolded if_not_P [OF False] s kbind_simps prod.case]
      show ?thesis
      proof (cases "res < 0")
        case True
        then show ?thesis using failed [OF _ i(3)] l3 by simp
      next
        case False
        note l4 = l3 [unfolded if_not_P [OF False]]
        define fsize where "fsize = (case stat of None \<Rightarrow> 0 | Some s \<Rightarrow> stat_filesize s)"
        obtain mem st3 where m: "kzalloc st2 fsize = (mem, st3)" by fastforce
        have o3: "opened_at (file_descriptors st) i st3" by (rule opened_at_cong [OF fds_kzalloc [OF m] i(3)])
        note l5 = l4 [folded fsize_def, unfolded Let_def m prod.case]
        show ?thesis
        proof (cases "mem = 0")
          case True
          then show ?thesis using failed [OF _ o3] l5 by (simp add: kconfig)
        next
          case False
          from l5 [unfolded if_not_P [OF False]] obtain rr bs st4 where
            rd: "fread (\<lambda>_. fat16_fs io) st3 False fsize 1 fd = Inr (rr, bs, st4)" by (auto simp: kbind_Inr_iff)
          define st5 where "st5 = st4\<lparr>kmem := mem_write (kmem st4) mem bs\<rparr>"
          note l6 = l5 [unfolded if_not_P [OF False] rd kbind_simps prod.case, folded st5_def]
          have "opened_at (file_descriptors st) i st4" by (rule opened_at_fread [OF rd [unfolded i(2)] o3 t])
          then have o5: "opened_at (file_descriptors st) i st5" by (simp add: st5_def opened_at_def)
          show ?thesis
          proof (cases "rr < 0")
            case True
            then show ?thesis using failed [OF _ o5] l6 by simp
          next
            case False
            note l7 = l6 [unfolded if_not_P [OF False]]
            obtain r2 f1 where p: "elf_process_load (kmem st5) (f\<lparr>ef_memory := mem, in_memory_size := sint fsize\<rparr>) = (r2, f1)" by fastforce
            show ?thesis
            proof (cases "r2 < 0")
              case True
              then show ?thesis using failed [OF _ o5] l7 p by simp
            next
              case False
              with l7 p o5 i(1) show ?thesis by (auto split: option.splits)
            qed
          qed
        qed
      qed
    qed
  qed
qed

subsection \<open>Properties\<close>

text \<open>C29: The bounds of an executable. When the image in memory passes the header checks and no segment starts
  at 0 or wraps around, \<open>elf_process_load\<close> accepts it exactly if every program header is
  \<open>PT_LOAD\<close>: the virtual base is then the least start of a segment, the virtual end the greatest
  end of file data (bss is not counted), and the physical bounds are where the file's bytes of those two segments
  lie in the loaded image. Any other kind of header makes it answer \<open>-EINVAGS\<close>.\<close>

theorem elf_process_load_bounds:
  assumes "elf_validate_loaded m (ef_memory f) = 0" "virtual_base_address f = 0" "virtual_end_address f = 0"
    and "\<forall>ph \<in> set (segments m (ef_memory f)). segment_ok ph"
  shows "if \<forall>ph \<in> set (segments m (ef_memory f)). p_type ph = PT_LOAD
    then \<exists>f'. elf_process_load m f = (0, f') \<and> ef_memory f' = ef_memory f \<and> covers_segments f' (segments m (ef_memory f))
    else fst (elf_process_load m f) = - EINVAGS"
proof -
  let ?n = "unat (e_phnum (header_at m (ef_memory f)))"
  have seg: "segments m (ef_memory f) = map (\<lambda>i. phdr_at m (elf_program_header m (ef_memory f) i)) [0 ..< 0 + ?n]"
    by (simp add: segments_def)
  have run: "elf_process_load m f = elf_process_pheaders_loop m ?n 0 f 0"
    using assms(1) by (simp add: elf_process_load_def elf_process_pheaders_def elf_header_def)
  have c: "covers_segments f []" using assms(2,3) by (simp add: covers_segments_def)
  show ?thesis
    using elf_process_pheaders_loop_ok [OF c seg] elf_process_pheaders_loop_refuses [OF seg, of 0] assms(4)
    by (auto simp: run)
qed

text \<open>A small executable: a header and one segment at 0x400000.\<close>

definition sample_elf :: "u8 list" where
  "sample_elf = elf_signature @ [1, 1, 1, 0, 0, 0, 0, 0, 0, 0, 0, 0] @ [2, 0, 3, 0, 1, 0, 0, 0, 0, 0, 0x40, 0]
    @ [52, 0, 0, 0, 0, 0, 0, 0, 0, 0, 0, 0, 52, 0, 32, 0, 1, 0, 40, 0, 0, 0, 0, 0]
    @ [1, 0, 0, 0, 0, 0, 0, 0, 0, 0, 0x40, 0, 0, 0, 0x40, 0, 84, 0, 0, 0, 84, 0, 0, 0, 5, 0, 0, 0, 0, 0x10, 0, 0]"

definition sample_elf_file :: elf_file where
  "sample_elf_file = \<lparr>ef_addr = 0x1001000, ef_filename = [], in_memory_size = 84, ef_memory = 0x1000000,
     virtual_base_address = 0, virtual_end_address = 0, physical_base_address = 0, physical_end_address = 0\<rparr>"

definition sample_elf_mem :: mem where
  "sample_elf_mem = mem_write (\<lambda>_. 0) 0x1000000 sample_elf"

lemma sample_elf_valid: "elf_validate_loaded sample_elf_mem 0x1000000 = 0"
  by code_simp

definition sample_segment :: elf32_phdr where
  "sample_segment = \<lparr>p_type = PT_LOAD, p_offset = 0, p_vaddr = 0x400000, p_paddr = 0x400000, p_filesz = 84, p_memsz = 84,
     p_flags = 5, p_align = 0x1000\<rparr>"

lemma sample_elf_segments: "segments sample_elf_mem 0x1000000 = [sample_segment]"
  by code_simp

theorem elf_process_load_bounds_witness:
  "\<exists>f'. elf_process_load sample_elf_mem sample_elf_file = (0, f') \<and> virtual_base_address f' = 0x400000 \<and>
    virtual_end_address f' = 0x400054 \<and> physical_base_address f' = 0x1000000 \<and> physical_end_address f' = 0x1000054"
  using elf_process_load_bounds [of sample_elf_mem sample_elf_file]
  by (auto simp: sample_elf_file_def sample_elf_valid sample_elf_segments sample_segment_def segment_ok_def covers_segments_def
      segment_end_def)

text \<open>C30: The descriptor behind a loaded executable. When \<open>elf_load\<close> fails, at any of its steps, the descriptor table
  is as before; when it succeeds, the descriptor it opened (the lowest free entry) is still open: the
  loader has no \<open>fclose\<close> on that way out, so that every program started uses up one of the 512
  entries.\<close>

theorem elf_load_keeps_descriptor_open:
  assumes "elf_load (\<lambda>_. fat16_fs io) st fname = Inr (r, e, st')" "table_ok (file_descriptors st)"
  shows "if e = None then r < 0 \<and> file_descriptors st' = file_descriptors st
    else 0 \<le> r \<and> (\<exists>i d. first_free (file_descriptors st) = Some i \<and> file_descriptors st' = (file_descriptors st)[i := Some d])"
  using elf_load_descriptors [OF assms] by (auto simp: opened_at_def)

lemma blocks_elf_file: "heap_blocks 132 = 1"
  by (simp add: heap_blocks_def heap_align_value_upper_def kconfig)

lemma elf_load_bad_path:
  fixes st :: "('d, 'a) vfsst_scheme"
  assumes "kheap_ok st" "heap_used (kernel_heap st) + 10 \<le> 25600"
  shows "\<exists>st'. elf_load (\<lambda>_. fat16_fs io) st [0] = Inr (- EIO, None, st')"
proof -
  obtain p st1 where a: "kzalloc st 132 = (p, st1)" by fastforce
  note s = kzalloc_small [OF assms(1) blocks_elf_file a]
  have p: "p \<noteq> 0" using s assms(2) by auto
  then have u: "kheap_ok st1" "heap_used (kernel_heap st1) + 9 \<le> 25600" using s assms(2) by auto
  have d: "path_meaning (cstr [0]) = None" by (simp add: path_meaning_def path_format_ok_def)
  with pathparser_parse_cases [OF u(1), of "[0]"] obtain root st2 where
    "pathparser_parse st1 [0] = Inr (ERROR (- EINVAGS), root, st2)"
    using u(2) by (auto simp: parse_failed_def parse_done_def path_parts_def split_path.simps)
  then have "fopen (\<lambda>_. fat16_fs io) st1 [0] [114, 0] = Inr (0, st2)"
    using ERROR_EINVAGS(1) by (simp add: fopen_def fopen_failed_def)
  then show ?thesis using a p by (simp add: elf_load_def elf_file_new_def)
qed

theorem elf_load_keeps_descriptor_open_witness:
  "\<exists>st'. elf_load (\<lambda>_. fat16_fs (sim_io sample_img)) boot_vfsst [0] = Inr (- EIO, None, st') \<and>
    file_descriptors st' = replicate 512 None"
proof -
  obtain st' where l: "elf_load (\<lambda>_. fat16_fs (sim_io sample_img)) boot_vfsst [0] = Inr (- EIO, None, st')"
    using elf_load_bad_path [OF boot_vfsst_ok(1), of "sim_io sample_img"] boot_vfsst_ok(2) by auto
  with elf_load_keeps_descriptor_open [OF l boot_table_ok] show ?thesis by (simp add: boot_vfsst_ok kconfig)
qed

end
