(* ===== verification/Task.thy ===== *)
theory Task
  imports Elf Keyboard
begin

unbundle bit_operations_syntax

section \<open>Tasks: kernel/task.c\<close>

text \<open>
  A process (\<open>struct task_struct\<close>) has one task (\<open>struct thread_info\<close>) with its saved registers and its page
  directory. The structures are allocated on the kernel heap and reached through pointers:
  \<open>task_store\<close>, \<open>proc_store\<close> and \<open>elf_store\<close> map the address of a live object to its contents. Following NULL is
  \<open>NullDeref\<close>, following the address of an object that was released is \<open>OutOfBounds\<close>.

  User memory is reached through the page directory in force. \<open>mmu\<close> is the processor's walk of the
  two table levels for an access of the kernel (which may read and write every present page, the
  write-protect bit of \<open>cr0\<close> being clear); a page that is not present gives \<open>PageFault\<close>. Kernel
  objects are identity mapped in every directory and are accessed by their physical address.
\<close>

subsection \<open>Structures\<close>

definition KERNEL_DATA_SELECTOR :: u16 where [kconfig]: "KERNEL_DATA_SELECTOR = 0x10"
definition KERNEL_USER_PROGRAM_STACK_SIZE :: u32 where [kconfig]: "KERNEL_USER_PROGRAM_STACK_SIZE = 1024 * 16"
definition KERNEL_PROGRAM_VIRTUAL_STACK_ADDRESS_START :: u32 where [kconfig]: "KERNEL_PROGRAM_VIRTUAL_STACK_ADDRESS_START = 0x3FF000"
definition KERNEL_PROGRAM_VIRTUAL_STACK_ADDRESS_END :: u32 where
  [kconfig]: "KERNEL_PROGRAM_VIRTUAL_STACK_ADDRESS_END = KERNEL_PROGRAM_VIRTUAL_STACK_ADDRESS_START - KERNEL_USER_PROGRAM_STACK_SIZE"
definition USER_DATA_SEGMENT :: u32 where [kconfig]: "USER_DATA_SEGMENT = 0x23"
definition USER_CODE_SEGMENT :: u32 where [kconfig]: "USER_CODE_SEGMENT = 0x1b"
definition KERNEL_MAX_PROGRAM_ALLOCATIONS :: nat where [kconfig]: "KERNEL_MAX_PROGRAM_ALLOCATIONS = 1024"

record registers =
  r_edi :: u32
  r_esi :: u32
  r_ebp :: u32
  r_ebx :: u32
  r_edx :: u32
  r_ecx :: u32
  r_eax :: u32
  r_ip :: u32
  r_cs :: u32
  r_flags :: u32
  r_esp :: u32
  r_ss :: u32

record interrupt_frame =
  fr_edi :: u32
  fr_esi :: u32
  fr_ebp :: u32
  fr_reserved :: u32
  fr_ebx :: u32
  fr_edx :: u32
  fr_ecx :: u32
  fr_eax :: u32
  fr_ip :: u32
  fr_cs :: u32
  fr_flags :: u32
  fr_esp :: u32
  fr_ss :: u32

record thread_info =
  page_directory :: u32
  registers :: registers
  ti_process :: u32
  ti_next :: u32
  ti_prev :: u32

datatype PROCESS_FILETYPE = PROCESS_FILETYPE_ELF | PROCESS_FILETYPE_BINARY

record process_allocation =
  pa_ptr :: u32
  pa_size :: u32

text \<open>\<open>ts_ptr\<close> is the union of \<open>ptr\<close> and \<open>elf_file\<close>; \<open>argc\<close> and \<open>argv\<close> are the members of \<open>argument\<close>.\<close>

record task_struct =
  ts_id :: u16
  ts_filename :: "u8 list"
  ts_task :: u32
  allocations :: "process_allocation list"
  filetype :: PROCESS_FILETYPE
  ts_ptr :: u32
  ts_stack :: u32
  ts_size :: u32
  ts_keyboard :: keyboard_buffer
  ts_argc :: int
  ts_argv :: u32
  ts_res :: int

definition registers_zero :: registers where
  "registers_zero = \<lparr>r_edi = 0, r_esi = 0, r_ebp = 0, r_ebx = 0, r_edx = 0, r_ecx = 0, r_eax = 0, r_ip = 0, r_cs = 0,
     r_flags = 0, r_esp = 0, r_ss = 0\<rparr>"

definition thread_info_zero :: thread_info where
  "thread_info_zero = \<lparr>page_directory = 0, registers = registers_zero, ti_process = 0, ti_next = 0, ti_prev = 0\<rparr>"

definition task_struct_zero :: task_struct where
  "task_struct_zero = \<lparr>ts_id = 0, ts_filename = replicate KERNEL_MAX_PATH 0, ts_task = 0,
     allocations = replicate KERNEL_MAX_PROGRAM_ALLOCATIONS \<lparr>pa_ptr = 0, pa_size = 0\<rparr>, filetype = PROCESS_FILETYPE_ELF,
     ts_ptr = 0, ts_stack = 0, ts_size = 0, ts_keyboard = keyboard_buffer_zero, ts_argc = 0, ts_argv = 0, ts_res = 0\<rparr>"

text \<open>The state of the scheduler on top of the files: the task list, the process table, the live objects and
  the kernel's own page directory. \<open>residue\<close> is what an uninitialised local array holds.\<close>

record 'd schedst = "'d vfsst" +
  task_head :: u32
  task_tail :: u32
  current_task :: u32
  processes :: "u32 list"
  current_process :: u32
  kernel_chunk :: u32
  task_store :: "u32 \<rightharpoonup> thread_info"
  proc_store :: "u32 \<rightharpoonup> task_struct"
  elf_store :: "u32 \<rightharpoonup> elf_file"
  residue :: "nat \<Rightarrow> u8"

definition deref :: "(u32 \<rightharpoonup> 'x) \<Rightarrow> u32 \<Rightarrow> 'x kresult" where
  "deref s p = (if p = 0 then Inl NullDeref else case s p of None \<Rightarrow> Inl OutOfBounds | Some x \<Rightarrow> Inr x)"

definition upd_task :: "('d, 'a) schedst_scheme \<Rightarrow> u32 \<Rightarrow> (thread_info \<Rightarrow> thread_info) \<Rightarrow> ('d, 'a) schedst_scheme kresult" where
  "upd_task st p f = kbind (deref (task_store st) p) (\<lambda>t. Inr (st\<lparr>task_store := (task_store st)(p \<mapsto> f t)\<rparr>))"

definition upd_proc :: "('d, 'a) schedst_scheme \<Rightarrow> u32 \<Rightarrow> (task_struct \<Rightarrow> task_struct) \<Rightarrow> ('d, 'a) schedst_scheme kresult" where
  "upd_proc st p f = kbind (deref (proc_store st) p) (\<lambda>t. Inr (st\<lparr>proc_store := (proc_store st)(p \<mapsto> f t)\<rparr>))"

definition uninit :: "('d, 'a) schedst_scheme \<Rightarrow> nat \<Rightarrow> u8 list" where
  "uninit st n = map (residue st) [0 ..< n]"

text \<open>The image an \<open>elf_file\<close> pointer leads to. A pointer to anything else is read as if it were one: its
  member \<open>elf_memory\<close> lies 112 bytes in.\<close>

definition elf_memory_at :: "('d, 'a) schedst_scheme \<Rightarrow> u32 \<Rightarrow> u32 kresult" where
  "elf_memory_at st p =
     (if p = 0 then Inl NullDeref
      else case elf_store st p of Some f \<Rightarrow> Inr (elf_header f) | None \<Rightarrow> Inr (load32 (kmem st) (p + 112)))"

subsection \<open>The task list\<close>

definition task_insert :: "('d, 'a) schedst_scheme \<Rightarrow> u32 \<Rightarrow> ('d, 'a) schedst_scheme kresult" where
  "task_insert st task =
     (if task_head st = 0 then Inr (st\<lparr>task_head := task, task_tail := task, current_task := task\<rparr>)
      else kbind (upd_task st (task_tail st) (\<lambda>t. t\<lparr>ti_next := task\<rparr>)) (\<lambda>st1.
        kbind (upd_task st1 task (\<lambda>t. t\<lparr>ti_prev := task_tail st1, ti_next := 0\<rparr>)) (\<lambda>st2.
        Inr (st2\<lparr>task_tail := task\<rparr>))))"

definition task_current :: "('d, 'a) schedst_scheme \<Rightarrow> u32" where
  "task_current st = current_task st"

definition task_get_next :: "('d, 'a) schedst_scheme \<Rightarrow> u32 kresult" where
  "task_get_next st =
     (if current_task st = 0 then Inr (task_head st)
      else kbind (deref (task_store st) (current_task st)) (\<lambda>t.
        Inr (if ti_next t = 0 then task_head st else ti_next t)))"

definition task_list_remove :: "('d, 'a) schedst_scheme \<Rightarrow> u32 \<Rightarrow> ('d, 'a) schedst_scheme kresult" where
  "task_list_remove st task =
     kbind (deref (task_store st) task) (\<lambda>t.
     let st1 = (if task_head st = task then st\<lparr>task_head := ti_next t\<rparr> else st);
         st2 = (if task_tail st1 = task then st1\<lparr>task_tail := ti_prev t\<rparr> else st1) in
     kbind (if current_task st2 = task then kbind (task_get_next st2) (\<lambda>n. Inr (st2\<lparr>current_task := n\<rparr>)) else Inr st2) (\<lambda>st3.
     kbind (if ti_prev t \<noteq> 0 then upd_task st3 (ti_prev t) (\<lambda>u. u\<lparr>ti_next := ti_next t\<rparr>) else Inr st3) (\<lambda>st4.
     kbind (deref (task_store st4) task) (\<lambda>t.
     if ti_next t \<noteq> 0 then upd_task st4 (ti_next t) (\<lambda>u. u\<lparr>ti_prev := ti_prev t\<rparr>) else Inr st4))))"

subsection \<open>Creating and releasing a task\<close>

definition task_init :: "('d, 'a) schedst_scheme \<Rightarrow> u32 \<Rightarrow> u32 \<Rightarrow> (int \<times> ('d, 'a) schedst_scheme) kresult" where
  "task_init st task process =
     kbind (paging_new_4gb_chunk st (ucast (PAGING_IS_PRESENT OR PAGING_ACCESS_FROM_ALL))) (\<lambda>(chunk, st1).
     kbind (upd_task st1 task (\<lambda>t. t\<lparr>page_directory := chunk\<rparr>)) (\<lambda>st2.
     if chunk = 0 then Inr (- EIO, st2)
     else kbind (deref (proc_store st2) process) (\<lambda>p.
       kbind (if filetype p \<noteq> PROCESS_FILETYPE_ELF
              then kbind (elf_memory_at st2 (ts_ptr p)) (\<lambda>h. Inr (load32 (kmem st2) (h + 24)))
              else Inr KERNEL_PROGRAM_VIRTUAL_ADDRESS) (\<lambda>ip.
       kbind (upd_task st2 task (\<lambda>t. t\<lparr>registers := (registers t)\<lparr>r_ip := ip, r_ss := USER_DATA_SEGMENT, r_cs := USER_CODE_SEGMENT,
           r_esp := KERNEL_PROGRAM_VIRTUAL_STACK_ADDRESS_START\<rparr>, ti_process := process\<rparr>)) (\<lambda>st3.
       Inr (0, st3))))))"

definition task_free :: "('d, 'a) schedst_scheme \<Rightarrow> u32 \<Rightarrow> (int \<times> ('d, 'a) schedst_scheme) kresult" where
  "task_free st task =
     (if task = 0 then Inr (0, st)
      else kbind (deref (task_store st) task) (\<lambda>t.
        if page_directory t = 0 then Inl NullDeref
        else kbind (task_list_remove (paging_free_4gb st (page_directory t)) task) (\<lambda>st1.
          Inr (0, (kfree st1 task)\<lparr>task_store := (task_store st1)(task := None)\<rparr>))))"

text \<open>When \<open>task_init\<close> fails, \<open>task_new\<close> returns the released pointer, not the error code.\<close>

definition task_new :: "('d, 'a) schedst_scheme \<Rightarrow> u32 \<Rightarrow> (u32 \<times> ('d, 'a) schedst_scheme) kresult" where
  "task_new st process =
     (let (task, st1) = kzalloc st 64 in
      if task = 0 then kbind (task_free st1 0) (\<lambda>(r, st2). Inr (0, st2))
      else kbind (task_init (st1\<lparr>task_store := (task_store st1)(task \<mapsto> thread_info_zero)\<rparr>) task process) (\<lambda>(res, st2).
        if res \<noteq> KERNEL_ALL_OK
        then if res < 0 then kbind (task_free st2 task) (\<lambda>(r, st3). Inr (task, st3)) else Inr (task, st2)
        else kbind (task_insert st2 task) (\<lambda>st3. Inr (task, st3))))"

subsection \<open>Switching\<close>

definition kernel_page :: "('d, 'a) schedst_scheme \<Rightarrow> ('d, 'a) schedst_scheme" where
  "kernel_page st = paging_switch st (kernel_chunk st)"

definition task_switch :: "('d, 'a) schedst_scheme \<Rightarrow> u32 \<Rightarrow> (int \<times> ('d, 'a) schedst_scheme) kresult" where
  "task_switch st task =
     kbind (deref (task_store st) task) (\<lambda>t. Inr (0, paging_switch (st\<lparr>current_task := task\<rparr>) (page_directory t)))"

definition task_page :: "('d, 'a) schedst_scheme \<Rightarrow> (int \<times> ('d, 'a) schedst_scheme) kresult" where
  "task_page st = kbind (task_switch st (current_task st)) (\<lambda>(r, st1). Inr (0, st1))"

definition task_page_task :: "('d, 'a) schedst_scheme \<Rightarrow> u32 \<Rightarrow> (int \<times> ('d, 'a) schedst_scheme) kresult" where
  "task_page_task st task = kbind (task_switch st task) (\<lambda>(r, st1). Inr (0, st1))"

text \<open>\<open>task_return\<close> leaves the kernel: its result is the register set the processor continues with.\<close>

definition task_run_first_ever_task :: "('d, 'a) schedst_scheme \<Rightarrow> (registers \<times> ('d, 'a) schedst_scheme) kresult" where
  "task_run_first_ever_task st =
     (if current_task st = 0 then Inl (Panic ''task_run_first_ever_task: No current task exists!'')
      else kbind (task_switch st (task_head st)) (\<lambda>(r, st1).
        kbind (deref (task_store st1) (task_head st1)) (\<lambda>t. Inr (registers t, st1))))"

definition task_save_state :: "('d, 'a) schedst_scheme \<Rightarrow> u32 \<Rightarrow> interrupt_frame \<Rightarrow> ('d, 'a) schedst_scheme kresult" where
  "task_save_state st task frame =
     upd_task st task (\<lambda>t. t\<lparr>registers := (registers t)\<lparr>r_ip := fr_ip frame, r_cs := fr_cs frame, r_flags := fr_flags frame,
       r_esp := fr_esp frame, r_ss := fr_ss frame, r_eax := fr_eax frame, r_ebp := fr_ebp frame, r_ebx := fr_ebx frame,
       r_ecx := fr_ecx frame, r_edi := fr_edi frame, r_edx := fr_edx frame, r_esi := fr_esi frame\<rparr>\<rparr>)"

definition task_current_save_state :: "('d, 'a) schedst_scheme \<Rightarrow> interrupt_frame \<Rightarrow> ('d, 'a) schedst_scheme kresult" where
  "task_current_save_state st frame =
     (if task_current st = 0 then Inl (Panic ''No current task to save'')
      else task_save_state st (task_current st) frame)"

subsection \<open>User memory\<close>

definition mmu :: "mem \<Rightarrow> u32 \<Rightarrow> u32 \<Rightarrow> u32 option" where
  "mmu m dir va =
     (let pde = load32 m (word_at dir (unat va div 4096 div 1024));
          pte = load32 m (word_at (pde AND 0xFFFFF000) (unat va div 4096 mod 1024))
      in if bit pde 0 \<and> bit pte 0 then Some ((pte AND 0xFFFFF000) + va mod 4096) else None)"

definition vread :: "'a pgstate_scheme \<Rightarrow> u32 \<Rightarrow> u8 kresult" where
  "vread st va = (case mmu (kmem st) (current_directory st) va of None \<Rightarrow> Inl PageFault | Some pa \<Rightarrow> Inr (kmem st pa))"

definition vwrite :: "'a pgstate_scheme \<Rightarrow> u32 \<Rightarrow> u8 \<Rightarrow> 'a pgstate_scheme kresult" where
  "vwrite st va c =
     (case mmu (kmem st) (current_directory st) va of
        None \<Rightarrow> Inl PageFault | Some pa \<Rightarrow> Inr (st\<lparr>kmem := (kmem st)(pa := c)\<rparr>))"

definition vread32 :: "'a pgstate_scheme \<Rightarrow> u32 \<Rightarrow> u32 kresult" where
  "vread32 st va =
     kbind (vread st va) (\<lambda>a. kbind (vread st (va + 1)) (\<lambda>b. kbind (vread st (va + 2)) (\<lambda>c. kbind (vread st (va + 3)) (\<lambda>d.
       Inr (le32 [a, b, c, d] 0)))))"

text \<open>\<open>strncpy\<close> between virtual addresses: \<open>k\<close> iterations left, \<open>i\<close> the index.\<close>

primrec vm_strncpy_loop :: "'a pgstate_scheme \<Rightarrow> u32 \<Rightarrow> u32 \<Rightarrow> nat \<Rightarrow> nat \<Rightarrow> (nat \<times> 'a pgstate_scheme) kresult" where
  "vm_strncpy_loop st dst str i 0 = Inr (i, st)"
| "vm_strncpy_loop st dst str i (Suc k) =
     kbind (vread st (str + of_nat i)) (\<lambda>c.
     if c = 0 then Inr (i, st)
     else kbind (vwrite st (dst + of_nat i) c) (\<lambda>st1. vm_strncpy_loop st1 dst str (Suc i) k))"

definition vm_strncpy :: "'a pgstate_scheme \<Rightarrow> u32 \<Rightarrow> u32 \<Rightarrow> nat \<Rightarrow> 'a pgstate_scheme kresult" where
  "vm_strncpy st dst str n =
     kbind (vm_strncpy_loop st dst str 0 n) (\<lambda>(i, st1). if 0 < i then vwrite st1 (dst + of_nat i) 0 else Inr st1)"

text \<open>\<open>phys\<close> is a local array of the caller, \<open>None\<close> for NULL. As in the code, the entry saved is that of
  \<open>virtual\<close> and the entry restored that of \<open>tmp\<close>.\<close>

definition copy_string_from_task ::
    "('d, 'a) schedst_scheme \<Rightarrow> u32 \<Rightarrow> u32 \<Rightarrow> u8 list option \<Rightarrow> int \<Rightarrow> (int \<times> u8 list option \<times> ('d, 'a) schedst_scheme) kresult" where
  "copy_string_from_task st task virt phys max_len =
     (if task = 0 \<or> virt = 0 \<or> phys = None then Inr (- EINVAGS, phys, st)
      else if max_len < 0 \<or> max_len > uint PAGING_PAGE_SIZE then Inr (- EINVAGS, phys, st)
      else let (tmp, st1) = kzalloc st (word_of_int max_len) in
        if tmp = 0 then Inr (- ENOMEM, phys, st1)
        else kbind (deref (task_store st1) task) (\<lambda>t.
          let old_entry = paging_get st1 (page_directory t) virt;
              (res, st2) = paging_map st1 (page_directory t) tmp tmp (PAGING_IS_WRITEABLE OR PAGING_IS_PRESENT OR PAGING_ACCESS_FROM_ALL)
          in if res \<noteq> KERNEL_ALL_OK then Inr (res, phys, kfree st2 tmp)
          else kbind (vm_strncpy (paging_switch st2 (page_directory t)) tmp virt (nat max_len)) (\<lambda>st3.
            let st4 = kernel_page st3;
                (res, st5) = paging_set st4 (load32 (kmem st4) (page_directory t)) tmp old_entry
            in if res \<noteq> KERNEL_ALL_OK then Inr (res, phys, kfree st5 tmp)
            else case strncpy (the phys) (mem_bytes (kmem st5) tmp (nat max_len)) (nat max_len) of
              None \<Rightarrow> Inl OutOfBounds
            | Some buf \<Rightarrow> Inr (res, Some buf, kfree st5 tmp))))"

definition task_get_stack_item :: "('d, 'a) schedst_scheme \<Rightarrow> u32 \<Rightarrow> int \<Rightarrow> (u32 \<times> ('d, 'a) schedst_scheme) kresult" where
  "task_get_stack_item st task index =
     kbind (deref (task_store st) task) (\<lambda>t.
     kbind (task_page_task st task) (\<lambda>(r, st1).
     kbind (vread32 st1 (r_esp (registers t) + 4 * word_of_int index)) (\<lambda>result.
     Inr (result, kernel_page st1))))"

definition task_virtual_addr_to_physical :: "('d, 'a) schedst_scheme \<Rightarrow> u32 \<Rightarrow> u32 \<Rightarrow> u32 kresult" where
  "task_virtual_addr_to_physical st task virtual_addr =
     kbind (deref (task_store st) task) (\<lambda>t. Inr (paging_get_physical_address st (page_directory t) virtual_addr))"

subsection \<open>The task list as a list\<close>

text \<open>\<open>dseg s p ts n\<close>: the tasks \<open>ts\<close> are linked one after the other in both directions, the first one back to \<open>p\<close>
  and the last one on to \<open>n\<close>.\<close>

fun dseg :: "(u32 \<rightharpoonup> thread_info) \<Rightarrow> u32 \<Rightarrow> u32 list \<Rightarrow> u32 \<Rightarrow> bool" where
  "dseg s p [] n \<longleftrightarrow> True"
| "dseg s p (t # ts) n \<longleftrightarrow>
     (\<exists>x. s t = Some x \<and> ti_prev x = p \<and> ti_next x = (if ts = [] then n else hd ts)) \<and> dseg s t ts n"

definition task_list :: "('d, 'a) schedst_scheme \<Rightarrow> u32 list \<Rightarrow> bool" where
  "task_list st ts \<longleftrightarrow> distinct ts \<and> 0 \<notin> set ts \<and> dseg (task_store st) 0 ts 0 \<and>
     task_head st = (if ts = [] then 0 else hd ts) \<and> task_tail st = (if ts = [] then 0 else last ts) \<and>
     (if ts = [] then current_task st = 0 else current_task st \<in> set ts)"

lemma dseg_append:
  "dseg s p (as @ bs) n \<longleftrightarrow>
     dseg s p as (if bs = [] then n else hd bs) \<and> dseg s (if as = [] then p else last as) bs n"
  by (induction as arbitrary: p) (auto simp: hd_append)

lemma dseg_cong: "(\<And>t. t \<in> set ts \<Longrightarrow> s' t = s t) \<Longrightarrow> dseg s' p ts n = dseg s p ts n"
  by (induction ts arbitrary: p) auto

lemma dseg_live: "dseg s p ts n \<Longrightarrow> t \<in> set ts \<Longrightarrow> \<exists>x. s t = Some x"
  by (induction ts arbitrary: p) auto

lemma dseg_upd [simp]: "t \<notin> set ts \<Longrightarrow> dseg (s(t := v)) p ts n = dseg s p ts n"
  by (rule dseg_cong) auto

text \<open>Redirecting the last task of a segment, and the first.\<close>

lemma dseg_set_next:
  assumes "dseg s p (ts @ [t]) n" "s t = Some x" "t \<notin> set ts"
  shows "dseg (s(t \<mapsto> x\<lparr>ti_next := m\<rparr>)) p (ts @ [t]) m"
  using assms by (auto simp: dseg_append)

lemma dseg_set_prev:
  assumes "dseg s p (t # ts) n" "s t = Some x" "t \<notin> set ts"
  shows "dseg (s(t \<mapsto> x\<lparr>ti_prev := q\<rparr>)) q (t # ts) n"
  using assms by auto

lemma deref_live: "p \<noteq> 0 \<Longrightarrow> s p = Some x \<Longrightarrow> deref s p = Inr x"
  by (simp add: deref_def)

lemma upd_task_live:
  "p \<noteq> 0 \<Longrightarrow> task_store st p = Some t \<Longrightarrow> upd_task st p f = Inr (st\<lparr>task_store := (task_store st)(p \<mapsto> f t)\<rparr>)"
  by (simp add: upd_task_def deref_live)

lemma task_insert_list:
  assumes l: "task_list st ts" and new: "task \<noteq> 0" "task \<notin> set ts" "task_store st task = Some x" "ti_next x = 0" "ti_prev x = 0"
  shows "\<exists>st'. task_insert st task = Inr st' \<and> task_list st' (ts @ [task]) \<and>
    current_task st' = (if ts = [] then task else current_task st) \<and>
    (\<forall>u. u \<notin> insert task (set ts) \<longrightarrow> task_store st' u = task_store st u)"
proof (cases "ts = []")
  case True
  with l new show ?thesis by (auto simp: task_list_def task_insert_def)
next
  case False
  then obtain as a where ts: "ts = as @ [a]" by (metis rev_exhaust)
  have la: "task_head st \<noteq> 0" "task_tail st = a" "a \<noteq> 0" "a \<noteq> task" "a \<notin> set as" "dseg (task_store st) 0 (as @ [a]) 0"
    using l new(2) ts by (cases as; auto simp: task_list_def)+
  then obtain xa where xa: "task_store st a = Some xa" using dseg_live by fastforce
  let ?s = "(task_store st)(a \<mapsto> xa\<lparr>ti_next := task\<rparr>, task \<mapsto> x\<lparr>ti_prev := a, ti_next := 0\<rparr>)"
  let ?st = "st\<lparr>task_store := ?s, task_tail := task\<rparr>"
  have "task_insert st task = Inr ?st"
    using la xa new by (simp add: task_insert_def upd_task_live fun_upd_twist)
  moreover have "dseg ((task_store st)(a \<mapsto> xa\<lparr>ti_next := task\<rparr>)) 0 (as @ [a]) task"
    by (rule dseg_set_next [OF la(6) xa la(5)])
  then have "dseg ?s 0 (as @ [a]) task" using new(2) ts by (subst dseg_upd) auto
  then have "dseg ?s 0 ((as @ [a]) @ [task]) 0" by (intro dseg_append [THEN iffD2]) simp
  then have "task_list ?st (ts @ [task])"
    using l new ts by (auto simp: task_list_def hd_append)
  moreover have "\<forall>u. u \<notin> insert task (set ts) \<longrightarrow> task_store ?st u = task_store st u" using ts by simp
  ultimately show ?thesis using False by auto
qed

text \<open>The task that follows in the ring once \<open>task\<close> has gone.\<close>

definition ring_next :: "u32 list \<Rightarrow> u32 \<Rightarrow> u32" where
  "ring_next ts task =
     (case dropWhile (\<lambda>t. t \<noteq> task) ts of _ # n # _ \<Rightarrow> n
      | _ \<Rightarrow> (case remove1 task ts of [] \<Rightarrow> 0 | h # _ \<Rightarrow> h))"

lemma ring_next_split:
  assumes "task \<notin> set as"
  shows "ring_next (as @ task # bs) task = (if bs \<noteq> [] then hd bs else if as \<noteq> [] then hd as else 0)"
proof -
  have "dropWhile (\<lambda>t. t \<noteq> task) (as @ task # bs) = task # bs"
    using assms by (subst dropWhile_append2) auto
  moreover have "remove1 task (as @ task # bs) = as @ bs" using assms by (simp add: remove1_append)
  ultimately show ?thesis by (cases bs; cases as) (simp_all add: ring_next_def)
qed

text \<open>The two halves of unlinking \<open>task\<close> between \<open>as\<close> and \<open>bs\<close>: its neighbours are made to skip it.\<close>

lemma relink_prev:
  assumes d: "distinct (as @ task # bs)" "0 \<notin> set (as @ task # bs)"
    and seg: "dseg (task_store st) 0 as task" "dseg (task_store st) task bs 0"
    and x: "task_store st task = Some x" "ti_prev x = (if as = [] then 0 else last as)"
  shows "\<exists>s'. (if ti_prev x \<noteq> 0 then upd_task st (ti_prev x) (\<lambda>u. u\<lparr>ti_next := ti_next x\<rparr>) else Inr st) =
      Inr (st\<lparr>task_store := s'\<rparr>) \<and> s' task = Some x \<and> dseg s' 0 as (ti_next x) \<and> dseg s' task bs 0 \<and>
    (\<forall>u. u \<notin> set (as @ task # bs) \<longrightarrow> s' u = task_store st u)"
proof (cases as rule: rev_cases)
  case Nil
  with x seg show ?thesis by (intro exI [of _ "task_store st"]) simp
next
  case (snoc as' a)
  obtain y where y: "task_store st a = Some y" using seg(1) snoc dseg_live by fastforce
  have "dseg ((task_store st)(a \<mapsto> y\<lparr>ti_next := ti_next x\<rparr>)) 0 as (ti_next x)"
    unfolding snoc by (rule dseg_set_next [OF seg(1) [unfolded snoc] y]) (use d snoc in auto)
  with snoc y x seg d show ?thesis
    by (intro exI [of _ "(task_store st)(a \<mapsto> y\<lparr>ti_next := ti_next x\<rparr>)"]) (auto simp: upd_task_live)
qed

lemma relink_next:
  assumes d: "distinct (as @ task # bs)" "0 \<notin> set (as @ task # bs)"
    and seg: "dseg s 0 as (ti_next x)" "dseg s task bs 0" and x: "ti_next x = (if bs = [] then 0 else hd bs)"
  shows "\<exists>s'. (if ti_next x \<noteq> 0 then upd_task (st\<lparr>task_store := s\<rparr>) (ti_next x) (\<lambda>u. u\<lparr>ti_prev := ti_prev x\<rparr>)
      else Inr (st\<lparr>task_store := s\<rparr>)) = Inr (st\<lparr>task_store := s'\<rparr>) \<and> dseg s' 0 as (ti_next x) \<and> dseg s' (ti_prev x) bs 0 \<and>
    (\<forall>u. u \<notin> set (as @ task # bs) \<longrightarrow> s' u = s u)"
proof (cases bs)
  case Nil
  with x seg show ?thesis by (intro exI [of _ s]) simp
next
  case (Cons b bs')
  obtain y where y: "s b = Some y" using seg(2) Cons dseg_live by fastforce
  have "dseg (s(b \<mapsto> y\<lparr>ti_prev := ti_prev x\<rparr>)) (ti_prev x) bs 0"
    unfolding Cons by (rule dseg_set_prev [OF seg(2) [unfolded Cons] y]) (use d Cons in auto)
  with Cons y x seg d show ?thesis
    by (intro exI [of _ "s(b \<mapsto> y\<lparr>ti_prev := ti_prev x\<rparr>)"]) (auto simp: upd_task_live)
qed

lemma task_list_remove_list:
  assumes l: "task_list st ts" and t: "task \<in> set ts"
  shows "\<exists>st'. task_list_remove st task = Inr st' \<and> task_list st' (remove1 task ts) \<and>
    current_task st' = (if current_task st = task then ring_next ts task else current_task st) \<and>
    (\<forall>u. u \<notin> set ts \<longrightarrow> task_store st' u = task_store st u)"
proof -
  from t obtain as bs where ts: "ts = as @ task # bs" "task \<notin> set as" by (metis split_list_first)
  have d: "distinct (as @ task # bs)" "0 \<notin> set (as @ task # bs)" using l ts by (auto simp: task_list_def)
  have seg: "dseg (task_store st) 0 as task" "dseg (task_store st) (if as = [] then 0 else last as) (task # bs) 0"
    using l ts by (auto simp: task_list_def dseg_append)
  then obtain x where x: "task_store st task = Some x" "ti_prev x = (if as = [] then 0 else last as)"
    "ti_next x = (if bs = [] then 0 else hd bs)" and segb: "dseg (task_store st) task bs 0" by auto
  have ht: "task_head st = (if as = [] then task else hd as)" "task_tail st = (if bs = [] then task else last bs)"
    using l ts by (auto simp: task_list_def hd_append)
  have cur: "current_task st = task \<or> current_task st \<in> set as \<or> current_task st \<in> set bs"
    using l ts by (auto simp: task_list_def)
  define st2 where "st2 = st\<lparr>task_head := (if as = [] then ti_next x else task_head st),
    task_tail := (if bs = [] then ti_prev x else task_tail st)\<rparr>"
  have h2: "task_head st2 = (if as \<noteq> [] then hd as else if bs \<noteq> [] then hd bs else 0)"
    "task_tail st2 = (if bs \<noteq> [] then last bs else if as \<noteq> [] then last as else 0)"
    using ht x(2,3) by (auto simp: st2_def)
  define c where "c = (if current_task st = task then ring_next ts task else current_task st)"
  define st3 where "st3 = st2\<lparr>current_task := c\<rparr>"
  have ends: "task_head st = task \<longleftrightarrow> as = []" using ht(1) d(1) by (cases as) auto
  have ends': "task_tail st = task \<longleftrightarrow> bs = []" using ht(2) d(1) by (cases bs rule: rev_cases) auto
  have s2: "(if task_tail (if task_head st = task then st\<lparr>task_head := ti_next x\<rparr> else st) = task
      then (if task_head st = task then st\<lparr>task_head := ti_next x\<rparr> else st)\<lparr>task_tail := ti_prev x\<rparr>
      else (if task_head st = task then st\<lparr>task_head := ti_next x\<rparr> else st)) = st2"
    by (cases "as = []"; cases "bs = []") (simp_all add: ends ends' st2_def)
  have nz: "task \<noteq> 0" "bs \<noteq> [] \<longrightarrow> hd bs \<noteq> 0" using d(2) by (cases bs; simp)+
  have s3: "(if current_task st2 = task then kbind (task_get_next st2) (\<lambda>n. Inr (st2\<lparr>current_task := n\<rparr>)) else Inr st2) = Inr st3"
    using h2 x(1,3) nz ring_next_split [OF ts(2), of bs] unfolding ts(1) [symmetric]
    by (auto simp: st3_def c_def task_get_next_def deref_live st2_def)
  have cin: "if as @ bs = [] then c = 0 else c \<in> set (as @ bs)"
    using cur ring_next_split [OF ts(2), of bs] d unfolding ts(1) [symmetric] by (auto simp: c_def)
  have t3: "task_store st3 = task_store st" by (simp add: st3_def st2_def)
  obtain s4 where s4: "(if ti_prev x \<noteq> 0 then upd_task st3 (ti_prev x) (\<lambda>u. u\<lparr>ti_next := ti_next x\<rparr>) else Inr st3) =
      Inr (st3\<lparr>task_store := s4\<rparr>)" "s4 task = Some x" "dseg s4 0 as (ti_next x)" "dseg s4 task bs 0"
    "\<forall>u. u \<notin> set ts \<longrightarrow> s4 u = task_store st u"
    using relink_prev [of as task bs st3 x] d seg(1) segb x(1,2) ts(1) unfolding t3 by (metis (no_types, lifting))
  obtain s5 where s5: "(if ti_next x \<noteq> 0 then upd_task (st3\<lparr>task_store := s4\<rparr>) (ti_next x) (\<lambda>u. u\<lparr>ti_prev := ti_prev x\<rparr>)
      else Inr (st3\<lparr>task_store := s4\<rparr>)) = Inr (st3\<lparr>task_store := s5\<rparr>)" "dseg s5 0 as (ti_next x)" "dseg s5 (ti_prev x) bs 0"
    "\<forall>u. u \<notin> set ts \<longrightarrow> s5 u = task_store st u"
    using relink_next [of as task bs s4 x st3] d s4(3,4,5) x(3) ts(1) by (metis (no_types, lifting))
  have "deref (task_store st) task = Inr x" "deref (task_store (st3\<lparr>task_store := s4\<rparr>)) task = Inr x"
    using nz(1) x(1) s4(2) by (simp_all add: deref_live)
  then have run: "task_list_remove st task = Inr (st3\<lparr>task_store := s5\<rparr>)"
    by (simp only: task_list_remove_def kbind_simps Let_def s2 s3 s4(1) s5(1))
  have "dseg s5 0 (as @ bs) 0" using s5(2,3) x(2,3) by (simp add: dseg_append)
  then have "task_list (st3\<lparr>task_store := s5\<rparr>) (as @ bs)"
    using d h2 cin by (auto simp: task_list_def st3_def hd_append split: if_splits)
  moreover have "remove1 task ts = as @ bs" using ts by (simp add: remove1_append)
  ultimately show ?thesis using run s5(4) by (auto simp: st3_def c_def)
qed

lemma task_get_next_ring:
  assumes l: "task_list st ts" and ne: "ts \<noteq> []"
  shows "\<exists>as bs. ts = as @ current_task st # bs \<and> task_get_next st = Inr (hd (bs @ ts))"
proof -
  have "current_task st \<in> set ts" using l ne by (simp add: task_list_def)
  then obtain as bs where ts: "ts = as @ current_task st # bs" by (metis split_list)
  moreover have "0 \<notin> set ts" "dseg (task_store st) 0 ts 0" "task_head st = hd ts" using l ne by (simp_all add: task_list_def)
  moreover obtain x where "task_store st (current_task st) = Some x" "ti_next x = (if bs = [] then 0 else hd bs)"
    using calculation(3) unfolding ts by (auto simp: dseg_append)
  ultimately have "task_get_next st = Inr (hd (bs @ ts))"
    by (cases bs) (auto simp: task_get_next_def deref_def)
  with ts show ?thesis by blast
qed

subsection \<open>Properties\<close>

definition boot_schedst :: "sim_disk schedst" where
  "boot_schedst = vfsst.extend boot_vfsst \<lparr>task_head = 0, task_tail = 0, current_task = 0,
     processes = replicate KERNEL_MAX_PROCESSES 0, current_process = 0, kernel_chunk = 0, task_store = Map.empty,
     proc_store = Map.empty, elf_store = Map.empty, residue = (\<lambda>_. 0)\<rparr>"

lemma boot_schedst_ok:
  "kheap_ok boot_schedst" "heap_used (kernel_heap boot_schedst) = 0" "task_list boot_schedst []"
  "processes boot_schedst = replicate 12 0" "file_descriptors boot_schedst = replicate 512 None"
  "task_store boot_schedst = Map.empty" "proc_store boot_schedst = Map.empty" "elf_store boot_schedst = Map.empty"
  "current_process boot_schedst = 0" "current_task boot_schedst = 0"
  using boot_vfsst_ok
  by (simp_all add: boot_schedst_def vfsst.defs kheap_ok_def kconfig task_list_def)

text \<open>C31: The doubly linked task list implements a sequence. Where the pointers represent the tasks \<open>ts\<close>,
  \<open>task_insert\<close> of a new task represents \<open>ts @ [task]\<close> and leaves the running task alone (the first task inserted
  becomes it); \<open>task_list_remove\<close> of any member represents \<open>ts\<close> without it, and if the running task is the one
  removed, the next in the ring takes its place, the first one when it was the last. Neither
  follows a NULL or stale pointer, and neither touches a task that is not in the list or being inserted.\<close>

theorem task_list_refines_sequence:
  assumes "task_list st ts"
  shows "(\<forall>task x. task \<noteq> 0 \<and> task \<notin> set ts \<and> task_store st task = Some x \<and> ti_next x = 0 \<and> ti_prev x = 0 \<longrightarrow>
      (\<exists>st'. task_insert st task = Inr st' \<and> task_list st' (ts @ [task]) \<and>
        current_task st' = (if ts = [] then task else current_task st) \<and>
        (\<forall>u. u \<notin> insert task (set ts) \<longrightarrow> task_store st' u = task_store st u))) \<and>
    (\<forall>task \<in> set ts. \<exists>st'. task_list_remove st task = Inr st' \<and> task_list st' (remove1 task ts) \<and>
        current_task st' = (if current_task st = task then ring_next ts task else current_task st) \<and>
        (\<forall>u. u \<notin> set ts \<longrightarrow> task_store st' u = task_store st u))"
  using task_insert_list [OF assms] task_list_remove_list [OF assms] by blast

definition two_tasks :: "sim_disk schedst" where
  "two_tasks = boot_schedst\<lparr>task_head := 0x2000, task_tail := 0x3000, current_task := 0x3000,
     task_store := [0x2000 \<mapsto> thread_info_zero\<lparr>ti_next := 0x3000\<rparr>, 0x3000 \<mapsto> thread_info_zero\<lparr>ti_prev := 0x2000\<rparr>]\<rparr>"

lemma two_tasks_list: "task_list two_tasks [0x2000, 0x3000]"
  by (simp add: two_tasks_def task_list_def thread_info_zero_def)

theorem task_list_refines_sequence_witness:
  "\<exists>st'. task_list_remove two_tasks 0x3000 = Inr st' \<and> task_list st' [0x2000] \<and> current_task st' = 0x2000"
  using task_list_refines_sequence [OF two_tasks_list]
  by (auto simp: ring_next_def) (simp add: two_tasks_def)

end
