(* ===== verification/Sched.thy ===== *)
theory Sched
  imports Task
begin

unbundle bit_operations_syntax

section \<open>Processes: kernel/sched.c\<close>

text \<open>
  Loading a program (ELF, or a flat binary when the file is not ELF), mapping it, its allocations and
  arguments, termination, and the step to the next task. A process table of twelve pointers gives
  a process its identity; \<open>current_process\<close> follows the running task.

  The names given to a load are byte buffers, \<open>None\<close> for NULL; \<open>out\<close> tells whether the caller passed a
  place for the result.
\<close>

subsection \<open>Messages\<close>

definition ascii :: "string \<Rightarrow> u8 list" where
  "ascii s = map of_char s @ [0]"

definition pr_err :: "('d, 'a) schedst_scheme \<Rightarrow> string \<Rightarrow> string \<Rightarrow> nat \<Rightarrow> string \<Rightarrow> ('d, 'a) schedst_scheme kresult" where
  "pr_err st file func line msg =
     kbind (terminal_print st (ascii file)) (\<lambda>st1. kbind (terminal_print st1 (ascii '' '')) (\<lambda>st2.
     kbind (terminal_print st2 (ascii func)) (\<lambda>st3. kbind (terminal_print st3 (ascii '':'')) (\<lambda>st4.
     kbind (terminal_print_num_without_endl st4 (uninit st4 DEFAULT_STRING_SIZE) (of_nat line)) (\<lambda>st5.
     kbind (terminal_print st5 (ascii '' [E] '')) (\<lambda>st6. terminal_print st6 (ascii msg)))))))"

definition sched_err :: "('d, 'a) schedst_scheme \<Rightarrow> string \<Rightarrow> nat \<Rightarrow> string \<Rightarrow> ('d, 'a) schedst_scheme kresult" where
  "sched_err st func line msg = pr_err st ''./kernel/sched.c'' func line (msg @ [CHR 0x0A])"

subsection \<open>The process table\<close>

definition process_get :: "('d, 'a) schedst_scheme \<Rightarrow> int \<Rightarrow> u32" where
  "process_get st process_id =
     (if process_id < 0 \<or> process_id \<ge> int KERNEL_MAX_PROCESSES then 0 else processes st ! nat process_id)"

definition process_current :: "('d, 'a) schedst_scheme \<Rightarrow> u32" where
  "process_current st = current_process st"

definition process_init :: "('d, 'a) schedst_scheme \<Rightarrow> u32 \<Rightarrow> ('d, 'a) schedst_scheme" where
  "process_init st process = st\<lparr>proc_store := (proc_store st)(process \<mapsto> task_struct_zero)\<rparr>"

fun first_null :: "u32 list \<Rightarrow> nat option" where
  "first_null [] = None"
| "first_null (p # ps) = (if p = 0 then Some 0 else map_option Suc (first_null ps))"

definition process_get_free_slot :: "('d, 'a) schedst_scheme \<Rightarrow> int" where
  "process_get_free_slot st = (case first_null (take KERNEL_MAX_PROCESSES (processes st)) of Some i \<Rightarrow> int i | None \<Rightarrow> - EISTKN)"

definition process_switch :: "('d, 'a) schedst_scheme \<Rightarrow> u32 \<Rightarrow> int \<times> ('d, 'a) schedst_scheme" where
  "process_switch st process = (0, st\<lparr>current_process := process\<rparr>)"

subsection \<open>Reading the program\<close>

text \<open>The exit of \<open>process_load_bin\<close>: on failure the data is released, and the descriptor is closed in every case.\<close>

definition process_load_bin_out :: "(fs_type \<Rightarrow> ('d, 'a) schedst_scheme filesystem_ops) \<Rightarrow> ('d, 'a) schedst_scheme \<Rightarrow> int \<Rightarrow> int \<Rightarrow> u32
      \<Rightarrow> (int \<times> ('d, 'a) schedst_scheme) kresult" where
  "process_load_bin_out ops st fd res program_data_ptr =
     kbind (fclose ops (if res < 0 then kfree st program_data_ptr else st) fd) (\<lambda>(r, st1). Inr (res, st1))"

definition process_load_bin :: "(fs_type \<Rightarrow> ('d, 'a) schedst_scheme filesystem_ops) \<Rightarrow> ('d, 'a) schedst_scheme \<Rightarrow> u8 list \<Rightarrow> u32
      \<Rightarrow> (int \<times> ('d, 'a) schedst_scheme) kresult" where
  "process_load_bin ops st fname process =
     kbind (fopen ops st fname [114, 0]) (\<lambda>(fd, st1).
     if fd = 0 then process_load_bin_out ops st1 fd (- EIO) 0
     else kbind (fstat ops st1 fd (Some \<lparr>stat_flags = 0, stat_filesize = 0\<rparr>)) (\<lambda>(res, stat).
       if res \<noteq> KERNEL_ALL_OK then process_load_bin_out ops st1 fd res 0
       else let fsize = (case stat of None \<Rightarrow> 0 | Some s \<Rightarrow> stat_filesize s);
                (data, st2) = kzalloc st1 fsize in
         if data = 0 then process_load_bin_out ops st2 fd (- ENOMEM) 0
         else kbind (fread ops st2 False fsize 1 fd) (\<lambda>(n, bs, st3).
           let st4 = st3\<lparr>kmem := mem_write (kmem st3) data bs\<rparr> in
           if n \<noteq> 1 then process_load_bin_out ops st4 fd (- EIO) data
           else kbind (upd_proc st4 process (\<lambda>p. p\<lparr>filetype := PROCESS_FILETYPE_BINARY, ts_ptr := data, ts_size := fsize\<rparr>)) (\<lambda>st5.
             process_load_bin_out ops st5 fd res data))))"

definition process_load_elf :: "(fs_type \<Rightarrow> ('d, 'a) schedst_scheme filesystem_ops) \<Rightarrow> ('d, 'a) schedst_scheme \<Rightarrow> u8 list \<Rightarrow> u32
      \<Rightarrow> (int \<times> ('d, 'a) schedst_scheme) kresult" where
  "process_load_elf ops st fname process =
     kbind (elf_load ops st fname) (\<lambda>(res, elf, st1).
     if res < 0 then Inr (res, st1)
     else let st2 = (case elf of None \<Rightarrow> st1 | Some f \<Rightarrow> st1\<lparr>elf_store := (elf_store st1)(ef_addr f \<mapsto> f)\<rparr>);
              ptr = (case elf of None \<Rightarrow> 0 | Some f \<Rightarrow> ef_addr f)
          in kbind (upd_proc st2 process (\<lambda>p. p\<lparr>ts_ptr := ptr, filetype := PROCESS_FILETYPE_ELF\<rparr>)) (\<lambda>st3. Inr (res, st3)))"

definition process_load_data :: "(fs_type \<Rightarrow> ('d, 'a) schedst_scheme filesystem_ops) \<Rightarrow> ('d, 'a) schedst_scheme \<Rightarrow> u8 list \<Rightarrow> u32
      \<Rightarrow> (int \<times> ('d, 'a) schedst_scheme) kresult" where
  "process_load_data ops st fname process =
     kbind (process_load_elf ops st fname process) (\<lambda>(res, st1).
     if res = - EINFORMATS then process_load_bin ops st1 fname process else Inr (res, st1))"

subsection \<open>Mapping it\<close>

definition process_page_directory :: "('d, 'a) schedst_scheme \<Rightarrow> task_struct \<Rightarrow> u32 kresult" where
  "process_page_directory st p = kbind (deref (task_store st) (ts_task p)) (\<lambda>t. Inr (page_directory t))"

definition segment_flags :: "elf32_phdr \<Rightarrow> u32" where
  "segment_flags phdr = (PAGING_IS_PRESENT OR PAGING_ACCESS_FROM_ALL) OR (if p_flags phdr AND PF_W \<noteq> 0 then PAGING_IS_WRITEABLE else 0)"

text \<open>The loop of \<open>process_map_elf\<close> from header \<open>i\<close> on; the number of headers is read again in every round.\<close>

function process_map_elf_loop :: "('d, 'a) schedst_scheme \<Rightarrow> elf_file \<Rightarrow> u32 \<Rightarrow> nat \<Rightarrow> int \<Rightarrow> int \<times> ('d, 'a) schedst_scheme" where
  "process_map_elf_loop st f chunk i res =
     (if i < unat (e_phnum (header_at (kmem st) (elf_header f))) then
        let phdr = phdr_at (kmem st) (elf_program_header (kmem st) (elf_header f) i);
            phys = elf_phdr_phys_address f phdr;
            (res', st1) = paging_map_to st chunk (paging_align_lower_address (p_vaddr phdr)) phys
              (paging_align_address (phys + p_memsz phdr)) (segment_flags phdr)
        in if res' < 0 then (res', st1) else process_map_elf_loop st1 f chunk (Suc i) res'
      else (res, st))"
  by pat_completeness auto
termination
proof (relation "measure (\<lambda>(st, f, chunk, i, res). 65536 - i)", goal_cases)
  case (2 st f chunk i res)
  have "unat (e_phnum (header_at (kmem st) (elf_header f))) < 2 ^ LENGTH(16)" by (rule unsigned_less)
  with 2(1) have "i < 65536" by simp
  then show ?case by simp
qed simp

declare process_map_elf_loop.simps [simp del]

definition process_map_elf :: "('d, 'a) schedst_scheme \<Rightarrow> u32 \<Rightarrow> (int \<times> ('d, 'a) schedst_scheme) kresult" where
  "process_map_elf st process =
     kbind (deref (proc_store st) process) (\<lambda>p.
     kbind (deref (elf_store st) (ts_ptr p)) (\<lambda>f.
     kbind (process_page_directory st p) (\<lambda>chunk. Inr (process_map_elf_loop st f chunk 0 0))))"

definition process_map_binary :: "('d, 'a) schedst_scheme \<Rightarrow> u32 \<Rightarrow> (int \<times> ('d, 'a) schedst_scheme) kresult" where
  "process_map_binary st process =
     kbind (deref (proc_store st) process) (\<lambda>p.
     kbind (process_page_directory st p) (\<lambda>chunk.
     Inr (paging_map_to st chunk KERNEL_PROGRAM_VIRTUAL_ADDRESS (ts_ptr p) (paging_align_address (ts_ptr p + ts_size p))
       (PAGING_IS_PRESENT OR PAGING_ACCESS_FROM_ALL OR PAGING_IS_WRITEABLE))))"

text \<open>The result of mapping the stack is not looked at.\<close>

definition process_map_memory :: "('d, 'a) schedst_scheme \<Rightarrow> u32 \<Rightarrow> (int \<times> ('d, 'a) schedst_scheme) kresult" where
  "process_map_memory st process =
     kbind (deref (proc_store st) process) (\<lambda>p.
     kbind (case filetype p of PROCESS_FILETYPE_ELF \<Rightarrow> process_map_elf st process
            | PROCESS_FILETYPE_BINARY \<Rightarrow> process_map_binary st process) (\<lambda>(res, st1).
     if res < 0 then Inr (res, st1)
     else kbind (process_page_directory st1 p) (\<lambda>chunk.
       Inr (res, snd (paging_map_to st1 chunk KERNEL_PROGRAM_VIRTUAL_STACK_ADDRESS_END (ts_stack p)
         (paging_align_address (ts_stack p + KERNEL_USER_PROGRAM_STACK_SIZE))
         (PAGING_IS_PRESENT OR PAGING_ACCESS_FROM_ALL OR PAGING_IS_WRITEABLE))))))"

subsection \<open>Allocations of a process\<close>

fun find_ptr :: "process_allocation list \<Rightarrow> u32 \<Rightarrow> nat option" where
  "find_ptr [] p = None"
| "find_ptr (a # as) p = (if pa_ptr a = p then Some 0 else map_option Suc (find_ptr as p))"

definition process_find_free_allocations_index :: "task_struct \<Rightarrow> int" where
  "process_find_free_allocations_index p = (case find_ptr (allocations p) 0 of Some i \<Rightarrow> int i | None \<Rightarrow> - ENOMEM)"

definition process_get_allocation_index_by_addr :: "task_struct \<Rightarrow> u32 \<Rightarrow> int" where
  "process_get_allocation_index_by_addr p ptr = (case find_ptr (allocations p) ptr of Some i \<Rightarrow> int i | None \<Rightarrow> - 1)"

definition process_malloc :: "('d, 'a) schedst_scheme \<Rightarrow> u32 \<Rightarrow> u32 \<Rightarrow> (u32 \<times> ('d, 'a) schedst_scheme) kresult" where
  "process_malloc st process sz =
     (let (ptr, st1) = kzalloc st sz in
      if ptr = 0 then kbind (sched_err st1 ''process_malloc'' 269 ''kzalloc fail'') (\<lambda>st2. Inr (0, kfree st2 ptr))
      else kbind (deref (proc_store st1) process) (\<lambda>p.
        let index = process_find_free_allocations_index p in
        if index < 0 then kbind (sched_err st1 ''process_malloc'' 276 ''process_find_free_allocations_index fail'') (\<lambda>st2. Inr (0, kfree st2 ptr))
        else kbind (process_page_directory st1 p) (\<lambda>chunk.
          let (ret, st2) = paging_map_to st1 chunk ptr ptr (paging_align_address (ptr + sz))
                (PAGING_IS_PRESENT OR PAGING_IS_WRITEABLE OR PAGING_ACCESS_FROM_ALL) in
          if ret < 0 then kbind (sched_err st2 ''process_malloc'' 284 ''paging_map_to fail'') (\<lambda>st3. Inr (0, kfree st3 ptr))
          else kbind (upd_proc st2 process (\<lambda>p. p\<lparr>allocations := (allocations p)[nat index := \<lparr>pa_ptr = ptr, pa_size = sz\<rparr>]\<rparr>)) (\<lambda>st3.
            Inr (ptr, st3)))))"

definition process_free :: "('d, 'a) schedst_scheme \<Rightarrow> u32 \<Rightarrow> u32 \<Rightarrow> ('d, 'a) schedst_scheme kresult" where
  "process_free st process ptr =
     (if process = 0 \<or> ptr = 0 then Inr st
      else kbind (deref (proc_store st) process) (\<lambda>p.
        let index = process_get_allocation_index_by_addr p ptr in
        if index < 0 then Inr st
        else kbind (process_page_directory st p) (\<lambda>chunk.
          let allocation = allocations p ! nat index;
              (r, st1) = paging_map_to st chunk ptr (pa_ptr allocation) (paging_align_address (pa_ptr allocation + pa_size allocation)) 0
          in kbind (upd_proc st1 process (\<lambda>p. p\<lparr>allocations := (allocations p)[nat index := \<lparr>pa_ptr = 0, pa_size = 0\<rparr>]\<rparr>)) (\<lambda>st2.
            Inr (kfree st2 ptr)))))"

subsection \<open>Termination\<close>

text \<open>The loop of \<open>process_terminate_allocations\<close>, \<open>n\<close> entries left from \<open>i\<close> on.\<close>

primrec process_terminate_allocations_loop :: "('d, 'a) schedst_scheme \<Rightarrow> u32 \<Rightarrow> nat \<Rightarrow> nat \<Rightarrow> ('d, 'a) schedst_scheme kresult" where
  "process_terminate_allocations_loop st process i 0 = Inr st"
| "process_terminate_allocations_loop st process i (Suc n) =
     kbind (deref (proc_store st) process) (\<lambda>p.
     kbind (process_free st process (pa_ptr (allocations p ! i))) (\<lambda>st1.
     process_terminate_allocations_loop st1 process (Suc i) n))"

definition process_terminate_allocations :: "('d, 'a) schedst_scheme \<Rightarrow> u32 \<Rightarrow> ('d, 'a) schedst_scheme kresult" where
  "process_terminate_allocations st process = process_terminate_allocations_loop st process 0 KERNEL_MAX_PROGRAM_ALLOCATIONS"

definition process_terminate_elf_data :: "('d, 'a) schedst_scheme \<Rightarrow> task_struct \<Rightarrow> ('d, 'a) schedst_scheme kresult" where
  "process_terminate_elf_data st p =
     (if ts_ptr p = 0 then Inr (elf_close st None)
      else kbind (deref (elf_store st) (ts_ptr p)) (\<lambda>f.
        Inr ((elf_close st (Some f))\<lparr>elf_store := (elf_store st)(ts_ptr p := None)\<rparr>)))"

definition process_terminate_binary_data :: "('d, 'a) schedst_scheme \<Rightarrow> task_struct \<Rightarrow> ('d, 'a) schedst_scheme" where
  "process_terminate_binary_data st p = kfree st (ts_ptr p)"

definition process_terminate_program_data :: "('d, 'a) schedst_scheme \<Rightarrow> u32 \<Rightarrow> (int \<times> ('d, 'a) schedst_scheme) kresult" where
  "process_terminate_program_data st process =
     kbind (deref (proc_store st) process) (\<lambda>p.
     case filetype p of
       PROCESS_FILETYPE_ELF \<Rightarrow> kbind (process_terminate_elf_data st p) (\<lambda>st1. Inr (0, st1))
     | PROCESS_FILETYPE_BINARY \<Rightarrow> Inr (0, process_terminate_binary_data st p))"

primrec process_terminate_argument_loop :: "('d, 'a) schedst_scheme \<Rightarrow> u32 \<Rightarrow> nat \<Rightarrow> nat \<Rightarrow> ('d, 'a) schedst_scheme" where
  "process_terminate_argument_loop st argv i 0 = st"
| "process_terminate_argument_loop st argv i (Suc n) =
     process_terminate_argument_loop (kfree st (load32 (kmem st) (word_at argv i))) argv (Suc i) n"

definition process_terminate_command_argument :: "('d, 'a) schedst_scheme \<Rightarrow> u32 \<Rightarrow> ('d, 'a) schedst_scheme kresult" where
  "process_terminate_command_argument st process =
     kbind (deref (proc_store st) process) (\<lambda>p.
     if 0 < ts_argc p \<and> ts_argv p = 0 then Inl NullDeref
     else Inr (process_terminate_argument_loop st (ts_argv p) 0 (nat (ts_argc p))))"

definition process_switch_to_any :: "('d, 'a) schedst_scheme \<Rightarrow> ('d, 'a) schedst_scheme kresult" where
  "process_switch_to_any st =
     (case filter (\<lambda>p. p \<noteq> 0) (take KERNEL_MAX_PROCESSES (processes st)) of
        [] \<Rightarrow> Inl (Panic ''No processes to switch to'')
      | p # ps \<Rightarrow> Inr (st\<lparr>current_process := p\<rparr>))"

definition process_unlink :: "('d, 'a) schedst_scheme \<Rightarrow> u32 \<Rightarrow> ('d, 'a) schedst_scheme kresult" where
  "process_unlink st process =
     kbind (deref (proc_store st) process) (\<lambda>p.
     if unat (ts_id p) \<ge> length (processes st) then Inl OutOfBounds
     else let st1 = st\<lparr>processes := (processes st)[unat (ts_id p) := 0]\<rparr> in
       if current_process st1 = process then process_switch_to_any st1 else Inr st1)"

definition process_terminate :: "('d, 'a) schedst_scheme \<Rightarrow> u32 \<Rightarrow> (int \<times> ('d, 'a) schedst_scheme) kresult" where
  "process_terminate st process =
     (if process = 0 then Inr (0, st)
      else kbind (process_terminate_allocations st process) (\<lambda>st1.
        kbind (process_terminate_program_data st1 process) (\<lambda>(ret, st2).
        if ret < 0 then Inr (ret, st2)
        else kbind (process_terminate_command_argument st2 process) (\<lambda>st3.
          kbind (deref (proc_store st3) process) (\<lambda>p.
          kbind (task_free (kfree st3 (ts_stack p)) (ts_task p)) (\<lambda>(r, st4).
          kbind (process_unlink st4 process) (\<lambda>st5. Inr (ret, st5))))))))"

subsection \<open>Loading\<close>

text \<open>The exit of \<open>process_load_for_slot\<close> with an error: what was built is terminated and released. The process
  has no number yet, so the entry its termination clears is entry 0.\<close>

definition process_load_failed :: "('d, 'a) schedst_scheme \<Rightarrow> bool \<Rightarrow> int \<Rightarrow> u32 \<Rightarrow> (int \<times> u32 \<times> ('d, 'a) schedst_scheme) kresult" where
  "process_load_failed st out res process =
     kbind (process_terminate st process) (\<lambda>(r, st1).
     let st2 = (kfree st1 process)\<lparr>proc_store := (proc_store st1)(process := None)\<rparr> in
     if out then Inr (res, 0, st2) else Inl NullDeref)"

definition task_struct_size :: u32 where
  "task_struct_size = 9372"

definition process_load_for_slot :: "(fs_type \<Rightarrow> ('d, 'a) schedst_scheme filesystem_ops) \<Rightarrow> ('d, 'a) schedst_scheme \<Rightarrow> u8 list option
      \<Rightarrow> bool \<Rightarrow> int \<Rightarrow> (int \<times> u32 \<times> ('d, 'a) schedst_scheme) kresult" where
  "process_load_for_slot ops st path out process_slot =
     (case path of
        None \<Rightarrow> process_load_failed st out (- EINVAGS) 0
      | Some fname \<Rightarrow>
        if \<not> out \<or> process_get st process_slot \<noteq> 0 then process_load_failed st out (- EINVAGS) 0
        else let (process, st1) = kzalloc st task_struct_size in
          if process = 0 then process_load_failed st1 out (- ENOMEM) 0
          else kbind (process_load_data ops (process_init st1 process) fname process) (\<lambda>(res, st2).
            if res \<noteq> KERNEL_ALL_OK
            then if res < 0 then process_load_failed st2 out res process else Inr (res, 0, st2)
            else let (stack, st3) = kzalloc st2 KERNEL_USER_PROGRAM_STACK_SIZE in
              kbind (upd_proc st3 process (\<lambda>p. p\<lparr>ts_stack := stack\<rparr>)) (\<lambda>st4.
              if stack = 0 then process_load_failed st4 out (- ENOMEM) process
              else kbind (task_new st4 process) (\<lambda>(task, st5).
                kbind (upd_proc st5 process (\<lambda>p. p\<lparr>ts_task := task\<rparr>)) (\<lambda>st6.
                if task = 0 then process_load_failed st6 out (- ENOMEM) process
                else kbind (process_map_memory st6 process) (\<lambda>(res, st7).
                  if res < 0 then process_load_failed st7 out res process
                  else kbind (deref (proc_store st7) process) (\<lambda>p.
                    case strncpy (ts_filename p) fname KERNEL_MAX_PATH of
                      None \<Rightarrow> Inl OutOfBounds
                    | Some name \<Rightarrow>
                        if process_slot < 0 \<or> nat process_slot \<ge> length (processes st7) then Inl OutOfBounds
                        else kbind (upd_proc st7 process (\<lambda>p. p\<lparr>ts_id := word_of_int process_slot, ts_filename := name\<rparr>)) (\<lambda>st8.
                          Inr (res, process, st8\<lparr>processes := (processes st8)[nat process_slot := process]\<rparr>)))))))))"

definition process_load :: "(fs_type \<Rightarrow> ('d, 'a) schedst_scheme filesystem_ops) \<Rightarrow> ('d, 'a) schedst_scheme \<Rightarrow> u8 list option
      \<Rightarrow> bool \<Rightarrow> (int \<times> u32 \<times> ('d, 'a) schedst_scheme) kresult" where
  "process_load ops st path out =
     (let process_slot = process_get_free_slot st in
      if process_slot < 0 then Inr (- EISTKN, 0, st) else process_load_for_slot ops st path out process_slot)"

definition process_load_switch :: "(fs_type \<Rightarrow> ('d, 'a) schedst_scheme filesystem_ops) \<Rightarrow> ('d, 'a) schedst_scheme \<Rightarrow> u8 list option
      \<Rightarrow> bool \<Rightarrow> (int \<times> u32 \<times> ('d, 'a) schedst_scheme) kresult" where
  "process_load_switch ops st path out =
     kbind (process_load ops st path out) (\<lambda>(res, process, st1).
     if res < 0 then Inr (res, process, st1)
     else let (r, st2) = process_switch st1 process in Inr (r, process, st2))"

subsection \<open>Arguments\<close>

definition process_get_argument :: "('d, 'a) schedst_scheme \<Rightarrow> u32 \<Rightarrow> (int \<times> u32) kresult" where
  "process_get_argument st process = kbind (deref (proc_store st) process) (\<lambda>p. Inr (ts_argc p, ts_argv p))"

text \<open>\<open>struct command_argument\<close> lies in memory: 512 characters, then the virtual address of the next.\<close>

definition process_get_next_command_argument :: "('d, 'a) schedst_scheme \<Rightarrow> u32 \<Rightarrow> u32 kresult" where
  "process_get_next_command_argument st command_argument =
     kbind (deref (proc_store st) (process_current st)) (\<lambda>p.
     task_virtual_addr_to_physical st (ts_task p) (load32 (kmem st) (command_argument + 512)))"

partial_function (option) process_count_loop :: "('d, 'a) schedst_scheme \<Rightarrow> u32 \<Rightarrow> int \<Rightarrow> int kresult option" where
  "process_count_loop st current res =
     (if current = 0 then Some (Inr res)
      else case process_get_next_command_argument st current of
        Inl e \<Rightarrow> Some (Inl e)
      | Inr current' \<Rightarrow> process_count_loop st current' (res + 1))"

definition process_count_command_argument :: "('d, 'a) schedst_scheme \<Rightarrow> u32 \<Rightarrow> int kresult" where
  "process_count_command_argument st root_argument = or_diverge (process_count_loop st root_argument 0)"

partial_function (option) process_inject_loop ::
    "('d, 'a) schedst_scheme \<Rightarrow> u32 \<Rightarrow> u32 \<Rightarrow> u32 \<Rightarrow> nat \<Rightarrow> (int \<times> ('d, 'a) schedst_scheme) kresult option" where
  "process_inject_loop st process argv current i =
     (if current = 0 then Some (Inr (0, st))
      else case process_malloc st process 513 of
        Inl e \<Rightarrow> Some (Inl e)
      | Inr (argument_str, st1) \<Rightarrow>
          if argument_str = 0
          then Some (kbind (sched_err st1 ''process_inject_argument'' 375 ''process_malloc fail'') (\<lambda>st2. Inr (- ENOMEM, st2)))
          else (case strncpy (mem_bytes (kmem st1) argument_str 513) (mem_bytes (kmem st1) current 512) 512 of
              None \<Rightarrow> Some (Inl OutOfBounds)
            | Some bs \<Rightarrow>
                (let st2 = st1\<lparr>kmem := store32 (mem_write (kmem st1) argument_str bs) (word_at argv i) argument_str\<rparr> in
                 case process_get_next_command_argument st2 current of
                   Inl e \<Rightarrow> Some (Inl e)
                 | Inr current' \<Rightarrow> process_inject_loop st2 process argv current' (Suc i))))"

primrec process_free_arguments :: "('d, 'a) schedst_scheme \<Rightarrow> u32 \<Rightarrow> u32 \<Rightarrow> nat \<Rightarrow> nat \<Rightarrow> ('d, 'a) schedst_scheme kresult" where
  "process_free_arguments st process argv i 0 = Inr st"
| "process_free_arguments st process argv i (Suc n) =
     kbind (process_free st process (load32 (kmem st) (word_at argv i))) (\<lambda>st1. process_free_arguments st1 process argv (Suc i) n)"

text \<open>The exit of \<open>process_inject_argument\<close> with an error.\<close>

definition process_inject_failed :: "('d, 'a) schedst_scheme \<Rightarrow> u32 \<Rightarrow> int \<Rightarrow> u32 \<Rightarrow> int \<Rightarrow> (int \<times> ('d, 'a) schedst_scheme) kresult" where
  "process_inject_failed st process argc argv res =
     (if 0 < argc \<and> argv = 0 then Inl NullDeref
      else kbind (process_free_arguments st process argv 0 (nat argc)) (\<lambda>st1.
        kbind (process_free st1 process argv) (\<lambda>st2. Inr (res, st2))))"

definition process_inject_argument :: "('d, 'a) schedst_scheme \<Rightarrow> u32 \<Rightarrow> u32 \<Rightarrow> (int \<times> ('d, 'a) schedst_scheme) kresult" where
  "process_inject_argument st process root_argument =
     kbind (process_count_command_argument st root_argument) (\<lambda>argc.
     if argc = 0
     then kbind (sched_err st ''process_inject_argument'' 360 ''process_count_command_argument fail'') (\<lambda>st1.
       process_inject_failed st1 process argc (le32 (uninit st1 4) 0) (- EIO))
     else kbind (process_malloc st process (4 * word_of_int argc)) (\<lambda>(argv, st1).
       if argv = 0
       then kbind (sched_err st1 ''process_inject_argument'' 367 ''process_malloc fail'') (\<lambda>st2.
         process_inject_failed st2 process argc argv (- ENOMEM))
       else kbind (or_diverge (process_inject_loop st1 process argv root_argument 0)) (\<lambda>(res, st2).
         if res < 0 then process_inject_failed st2 process argc argv res
         else kbind (upd_proc st2 process (\<lambda>p. p\<lparr>ts_argc := argc, ts_argv := argv\<rparr>)) (\<lambda>st3. Inr (res, st3)))))"

subsection \<open>The next task\<close>

text \<open>\<open>task_next\<close> of task.c: the current task becomes the running one, with its process.\<close>

definition task_next :: "('d, 'a) schedst_scheme \<Rightarrow> (registers \<times> ('d, 'a) schedst_scheme) kresult" where
  "task_next st =
     (if current_task st = 0 then Inl (Panic ''No more tasks!'')
      else kbind (deref (task_store st) (current_task st)) (\<lambda>t.
        let (r, st1) = process_switch st (ti_process t) in
        kbind (task_switch st1 (current_task st)) (\<lambda>(r, st2).
        kbind (deref (task_store st2) (current_task st)) (\<lambda>t. Inr (registers t, st2)))))"

subsection \<open>Address spaces that live on the heap\<close>

text \<open>A well-formed chunk all of whose pages are live one-block allocations.\<close>

definition chunk_live :: "'a kstate_scheme \<Rightarrow> u32 \<Rightarrow> bool" where
  "chunk_live ks c \<longleftrightarrow> chunk_wf (kmem ks) c \<and> (\<forall>f \<in> set (chunk_frames (kmem ks) c). heap_owned (kernel_heap ks) f = Some 1)"

lemma chunk_live_keep:
  assumes c: "chunk_live ks c"
    and keep: "\<And>f x. heap_owned (kernel_heap ks) f = Some 1 \<Longrightarrow> f \<in> set (chunk_frames (kmem ks) c) \<Longrightarrow> in_page f x \<Longrightarrow> kmem ks' x = kmem ks x"
    and own: "\<And>f. heap_owned (kernel_heap ks) f = Some 1 \<Longrightarrow> f \<in> set (chunk_frames (kmem ks) c) \<Longrightarrow> heap_owned (kernel_heap ks') f = Some 1"
  shows "chunk_live ks' c" "chunk_frames (kmem ks') c = chunk_frames (kmem ks) c"
    "n < 2 ^ 20 \<Longrightarrow> page_entry (kmem ks') c n = page_entry (kmem ks) c n"
proof -
  have wf: "chunk_wf (kmem ks) c" and o: "\<And>f. f \<in> set (chunk_frames (kmem ks) c) \<Longrightarrow> heap_owned (kernel_heap ks) f = Some 1"
    using c by (auto simp: chunk_live_def)
  have "c \<in> set (chunk_frames (kmem ks) c)" "load32 (kmem ks) c \<in> set (chunk_frames (kmem ks) c)"
    by (simp_all add: chunk_frames_def)
  then show f: "chunk_frames (kmem ks') c = chunk_frames (kmem ks) c"
    using keep o by (intro chunk_frames_keep [OF wf]) blast
  show "chunk_live ks' c" using chunk_wf_frames [OF f wf] o own by (auto simp: chunk_live_def f)
  show "n < 2 ^ 20 \<Longrightarrow> page_entry (kmem ks') c n = page_entry (kmem ks) c n"
    by (rule page_entry_outside [OF wf]) (use keep o in blast)
qed

lemma chunk_live_kzalloc:
  assumes ok: "kheap_ok ks" and c: "chunk_live ks c" and a: "kzalloc ks sz = (p, ks')"
  shows "chunk_live ks' c" "chunk_frames (kmem ks') c = chunk_frames (kmem ks) c"
    "n < 2 ^ 20 \<Longrightarrow> page_entry (kmem ks') c n = page_entry (kmem ks) c n"
proof -
  have k: "kmem ks' x = kmem ks x" if "heap_owned (kernel_heap ks) f = Some 1" "in_page f x" for f x
    using kzalloc_frame [OF ok a that(1)] that(2) by (simp add: in_page_def)
  have o: "heap_owned (kernel_heap ks') f = Some 1" if "heap_owned (kernel_heap ks) f = Some 1" for f
    using kernel_alloc.alloc_keeps [OF kheap_ok_wf [OF ok] kzalloc_heap [OF a] that] .
  show "chunk_live ks' c" "chunk_frames (kmem ks') c = chunk_frames (kmem ks) c"
    "n < 2 ^ 20 \<Longrightarrow> page_entry (kmem ks') c n = page_entry (kmem ks) c n"
    using chunk_live_keep [OF c, of ks'] k o by blast+
qed

lemma chunk_live_remaps:
  assumes "chunk_live ks c" "remaps (kmem ks) m' c vp n phys flags"
  shows "chunk_live (ks\<lparr>kmem := m'\<rparr>) c"
  using assms chunk_wf_frames [of m' c "kmem ks"] by (simp add: chunk_live_def remaps_def)

text \<open>Changing the tables of an address space leaves a block that was allocated after them as it is.\<close>

lemma remaps_other_block:
  assumes ok: "kheap_ok ks" and c: "chunk_live ks c" and a: "kzalloc ks sz = (p, ks')" "p \<noteq> 0"
    and r: "remaps (kmem ks') m' c vp n phys flags" and x: "unat p \<le> unat x" "unat x < unat p + heap_blocks sz * 4096"
  shows "m' x = kmem ks' x"
proof -
  note s = kernel_alloc.alloc_some [OF kheap_ok_wf [OF ok] kzalloc_heap [OF a(1)] a(2)]
  have "\<not> in_page f x" if f: "f \<in> set (chunk_frames (kmem ks') c)" for f
  proof -
    have o: "heap_owned (kernel_heap ks) f = Some 1" using f c chunk_live_kzalloc(2) [OF ok c a(1)] by (simp add: chunk_live_def)
    then have "f \<noteq> p" using s by auto
    with o s have "heap_owned (kernel_heap ks') f = Some 1" "heap_owned (kernel_heap ks') p = Some (heap_blocks sz)" by simp_all
    from kernel_alloc.owned_apart [OF _ this \<open>f \<noteq> p\<close>] s x show ?thesis by (auto simp: in_page_def)
  qed
  then show ?thesis using r by (simp add: remaps_def)
qed

subsection \<open>Sizes\<close>

lemma unat_paging_align:
  assumes "unat x + 4096 < 4294967296"
  shows "unat (paging_align_address x) = (unat x + 4095) div 4096 * 4096"
proof (cases "unat x mod 4096 = 0")
  case True
  then obtain q where "unat x = 4096 * q" by (metis mod_0_imp_dvd dvdE)
  then show ?thesis using True by (simp add: paging_align_address_def kconfig mod_page_0_iff)
next
  case False
  have e: "unat (x + 4096) = unat x + 4096" by (rule unat_next_page [OF assms])
  have "unat (x mod 4096) \<le> unat (x + 4096)" unfolding e by (simp add: unat_mod_page)
  from unat_sub_le [OF this] have "unat (x + 4096 - x mod 4096) = unat x + 4096 - unat x mod 4096"
    unfolding e by (simp add: unat_mod_page)
  also have "\<dots> = (unat x div 4096 + 1) * 4096"
    using minus_mod_eq_div_mult [of "unat x" 4096] mod_less_eq_dividend [of "unat x" 4096] by (simp add: algebra_simps)
  also have "unat x div 4096 + 1 = (unat x + 4095) div 4096"
  proof (rule sym, rule div_nat_eqI)
    obtain q r where qr: "unat x = q * 4096 + r" "r < 4096" "0 < r" "unat x div 4096 = q"
      using False by (metis div_mult_mod_eq mod_less_divisor neq0_conv zero_less_numeral)
    show "4096 * (unat x div 4096 + 1) \<le> unat x + 4095" unfolding qr(4) using qr(1,3) by simp
    show "unat x + 4095 < 4096 * Suc (unat x div 4096 + 1)" unfolding qr(4) using qr(1,2) by simp
  qed
  finally show ?thesis using False by (simp add: paging_align_address_def kconfig mod_page_0_iff)
qed

lemma kzalloc_block_end:
  assumes ok: "kheap_ok ks" and a: "kzalloc ks sz = (p, ks')" "p \<noteq> 0" and sz: "sz \<noteq> 0"
  shows "unat (paging_align_address (p + sz)) = unat p + heap_blocks sz * 4096" "page_aligned p" "0 < heap_blocks sz"
    "0x1000000 \<le> unat p" "unat p + heap_blocks sz * 4096 \<le> 0x7400000"
proof -
  note wf = kheap_ok_wf [OF ok]
  have o: "heap_owned (kernel_heap ks') p = Some (heap_blocks sz)"
    using kernel_alloc.alloc_some [OF wf kzalloc_heap [OF a(1)] a(2)] by simp
  note r = kheap_owned_range [OF kheap_ok_alloc(1) [OF ok a(1)] o]
  then show "0 < heap_blocks sz" "0x1000000 \<le> unat p" "unat p + heap_blocks sz * 4096 \<le> 0x7400000" "page_aligned p"
    by (simp_all add: page_aligned_def)
  have fit: "unat sz \<le> heap_blocks sz * 4096" by (rule heap_blocks_fit [OF wf kzalloc_heap [OF a(1)] a(2)])
  have low: "heap_blocks sz * 4096 < unat sz + 4096"
    unfolding heap_blocks_size by (auto simp: unat_align_upper)
  have nz: "0 < unat sz" using sz by (simp add: unat_gt_0)
  have u: "unat (p + sz) = unat p + unat sz"
    using r fit unat_of_nat_u32 [of "unat p + unat sz"] by simp
  obtain q where q: "unat p = 4096 * q" using r page_multiple by metis
  have "unat (paging_align_address (p + sz)) = (unat (p + sz) + 4095) div 4096 * 4096"
    using r fit u by (intro unat_paging_align) simp
  also have "\<dots> = unat p + heap_blocks sz * 4096"
  proof -
    have "(4096 * q + unat sz + 4095) div 4096 = q + (unat sz + 4095) div 4096" by (simp add: add.assoc)
    moreover have "(unat sz + 4095) div 4096 = heap_blocks sz" using fit low nz by (simp add: div_nat_eqI)
    ultimately show ?thesis by (simp add: u q algebra_simps)
  qed
  finally show "unat (paging_align_address (p + sz)) = unat p + heap_blocks sz * 4096" .
qed

subsection \<open>Allocating and releasing memory of a process\<close>

text \<open>A process with its task and address space \<open>c\<close>.\<close>

definition process_space :: "('d, 'a) schedst_scheme \<Rightarrow> u32 \<Rightarrow> task_struct \<Rightarrow> u32 \<Rightarrow> bool" where
  "process_space st process p c \<longleftrightarrow> process \<noteq> 0 \<and> proc_store st process = Some p \<and> ts_task p \<noteq> 0 \<and>
     (\<exists>t. task_store st (ts_task p) = Some t \<and> page_directory t = c) \<and> chunk_live st c"

lemma process_space_dir: "process_space st process p c \<Longrightarrow> process_page_directory st p = Inr c"
  by (auto simp: process_space_def process_page_directory_def deref_live)

lemma upd_proc_live:
  "q \<noteq> 0 \<Longrightarrow> proc_store st q = Some p \<Longrightarrow> upd_proc st q f = Inr (st\<lparr>proc_store := (proc_store st)(q \<mapsto> f p)\<rparr>)"
  by (simp add: upd_proc_def deref_live)

lemma process_space_kzalloc:
  assumes "kheap_ok st" "process_space st process p c" "kzalloc st sz = (ptr, st')"
  shows "process_space st' process p c"
proof -
  from kzalloc_fields [OF assms(3)] obtain h m where "st' = st\<lparr>kernel_heap := h, kmem := m\<rparr>" by blast
  with assms(2) chunk_live_kzalloc(1) [OF assms(1) _ assms(3)] show ?thesis by (auto simp: process_space_def)
qed

lemma find_ptr_Some: "find_ptr as p = Some i \<Longrightarrow> i < length as \<and> pa_ptr (as ! i) = p \<and> (\<forall>j < i. pa_ptr (as ! j) \<noteq> p)"
proof (induction as arbitrary: i)
  case (Cons a as)
  then show ?case by (cases i) (auto simp: less_Suc_eq_0_disj split: if_splits)
qed simp

abbreviation user_page :: u32 where
  "user_page \<equiv> PAGING_IS_PRESENT OR PAGING_IS_WRITEABLE OR PAGING_ACCESS_FROM_ALL"

lemma process_malloc_ok:
  assumes ok: "kheap_ok st" and sp: "process_space st process p c" and slot: "find_ptr (allocations p) 0 = Some i"
    and a: "kzalloc st sz = (ptr, st1)" "ptr \<noteq> 0" and sz: "sz \<noteq> 0"
  shows "\<exists>m'. process_malloc st process sz = Inr (ptr, st1\<lparr>kmem := m', proc_store := (proc_store st)(process \<mapsto>
      p\<lparr>allocations := (allocations p)[i := \<lparr>pa_ptr = ptr, pa_size = sz\<rparr>]\<rparr>)\<rparr>) \<and>
    remaps (kmem st1) m' c (unat ptr div 4096) (heap_blocks sz) ptr user_page"
proof -
  note e = kzalloc_block_end [OF ok a sz]
  have sp1: "process_space st1 process p c" by (rule process_space_kzalloc [OF ok sp a(1)])
  then have wf: "chunk_wf (kmem st1) c" by (simp add: process_space_def chunk_live_def)
  have al: "page_aligned (paging_align_address (ptr + sz))" unfolding page_aligned_def mod_page_0_iff e(1)
    using e(2) by (simp add: page_aligned_def mod_page_0_iff)
  obtain m' where m': "paging_map_to st1 c ptr ptr (paging_align_address (ptr + sz)) user_page = (0, st1\<lparr>kmem := m'\<rparr>)"
    "remaps (kmem st1) m' c (unat ptr div 4096) (heap_blocks sz) ptr user_page"
    using paging_map_to_ok [OF wf e(2) e(2) al, of user_page] e(1,5) a(2) by (auto simp: word_le_nat_alt)
  from kzalloc_fields [OF a(1)] obtain h m where "st1 = st\<lparr>kernel_heap := h, kmem := m\<rparr>" by blast
  then have same: "proc_store st1 = proc_store st" by simp
  have "deref (proc_store st1) process = Inr p" using sp1 by (simp add: process_space_def deref_live)
  moreover have "process_find_free_allocations_index p = int i" using slot by (simp add: process_find_free_allocations_index_def)
  moreover have "upd_proc (st1\<lparr>kmem := m'\<rparr>) process f = Inr (st1\<lparr>kmem := m', proc_store := (proc_store st)(process \<mapsto> f p)\<rparr>)" for f
    using sp1 same by (subst upd_proc_live) (auto simp: process_space_def)
  ultimately show ?thesis
    using m' a process_space_dir [OF sp1] by (auto simp: process_malloc_def)
qed

lemma process_free_ok:
  assumes sp: "process_space st process p c" and slot: "find_ptr (allocations p) ptr = Some i" "pa_size (allocations p ! i) = sz"
    and ptr: "page_aligned ptr" "ptr \<noteq> 0" and e: "unat (paging_align_address (ptr + sz)) = unat ptr + n * 4096"
  shows "\<exists>m'. process_free st process ptr = Inr (kfree (st\<lparr>kmem := m', proc_store := (proc_store st)(process \<mapsto>
      p\<lparr>allocations := (allocations p)[i := \<lparr>pa_ptr = 0, pa_size = 0\<rparr>]\<rparr>)\<rparr>) ptr) \<and>
    remaps (kmem st) m' c (unat ptr div 4096) n ptr 0"
proof -
  have wf: "chunk_wf (kmem st) c" using sp by (simp add: process_space_def chunk_live_def)
  have al: "page_aligned (paging_align_address (ptr + sz))" unfolding page_aligned_def mod_page_0_iff e
    using ptr by (simp add: page_aligned_def mod_page_0_iff)
  have "unat ptr + n * 4096 < 4294967296" using e unat_u32_less by metis
  then obtain m' where m': "paging_map_to st c ptr ptr (paging_align_address (ptr + sz)) 0 = (0, st\<lparr>kmem := m'\<rparr>)"
    "remaps (kmem st) m' c (unat ptr div 4096) n ptr 0"
    using paging_map_to_ok [OF wf ptr(1) ptr(1) al, of 0] e ptr(2) by (auto simp: word_le_nat_alt)
  have f: "pa_ptr (allocations p ! i) = ptr" using find_ptr_Some [OF slot(1)] by simp
  have "process \<noteq> 0" "deref (proc_store st) process = Inr p" using sp by (simp_all add: process_space_def deref_live)
  moreover have "process_get_allocation_index_by_addr p ptr = int i" using slot by (simp add: process_get_allocation_index_by_addr_def)
  moreover have "upd_proc (st\<lparr>kmem := m'\<rparr>) process g = Inr (st\<lparr>kmem := m', proc_store := (proc_store st)(process \<mapsto> g p)\<rparr>)" for g
    using sp by (subst upd_proc_live) (auto simp: process_space_def)
  ultimately show ?thesis
    using m' ptr(2) slot(2) f process_space_dir [OF sp] by (auto simp: process_free_def)
qed

lemma find_ptr_update:
  assumes "i < length as" "\<forall>a \<in> set as. pa_ptr a \<noteq> ptr"
  shows "find_ptr (as[i := \<lparr>pa_ptr = ptr, pa_size = sz\<rparr>]) ptr = Some i"
  using assms
proof (induction as arbitrary: i)
  case (Cons a as)
  then show ?case by (cases i) auto
qed simp

lemma mmu_page_entry:
  "mmu m (load32 m c) va =
     (if bit (load32 m (word_at (load32 m c) (unat va div 4096 div 1024))) 0 \<and> bit (page_entry m c (unat va div 4096)) 0
      then Some ((page_entry m c (unat va div 4096) AND 0xFFFFF000) + va mod 4096) else None)"
  by (simp add: mmu_def page_entry_def page_table_def Let_def)

lemma page_start:
  "unat (v - v mod 4096 :: u32) = unat v div 4096 * 4096" "page_aligned (v - v mod 4096)"
  "unat (v - v mod 4096) div 4096 = unat v div 4096"
proof -
  have "unat (v - v mod 4096) = unat v - unat v mod 4096"
    using unat_sub_le [of "v mod 4096" v] by (simp add: unat_mod_page)
  also have "\<dots> = unat v div 4096 * 4096" by (rule minus_mod_eq_div_mult)
  finally show u: "unat (v - v mod 4096) = unat v div 4096 * 4096" .
  show "page_aligned (v - v mod 4096)" unfolding page_aligned_def mod_page_0_iff u by simp
  show "unat (v - v mod 4096) div 4096 = unat v div 4096" unfolding u by simp
qed

lemma page_aligned_bit:
  assumes "page_aligned p" "k < 12"
  shows "\<not> bit p k"
  using assms bit_take_bit_iff [of 12 p k] by (simp add: page_aligned_take_bit)

text \<open>The mapping of a range in terms of single addresses.\<close>

lemma remaps_address:
  assumes r: "remaps m m' c (unat ptr div 4096) n ptr flags" and al: "page_aligned ptr"
    and v: "unat ptr \<le> unat v" "unat v < unat ptr + n * 4096"
  shows "page_entry m' c (unat v div 4096) = (v - v mod 4096) OR flags"
proof -
  obtain q where q: "unat ptr = 4096 * q" using al page_multiple page_aligned_def by metis
  have k: "unat v div 4096 < 2 ^ 20" using unat_u32_less [of v] by simp
  have in_range: "q \<le> unat v div 4096" "unat v div 4096 < q + n" using v unfolding q by auto
  have "ptr + of_nat (unat v div 4096 - q) * 4096 = v - v mod 4096"
  proof -
    have "unat v div 4096 * 4096 = 4096 * q + (unat v div 4096 - q) * 4096"
      using in_range by (simp add: diff_mult_distrib)
    then have "of_nat (unat v div 4096 * 4096) = (of_nat (unat ptr) + of_nat (unat v div 4096 - q) * 4096 :: u32)"
      using q by (simp only: of_nat_add of_nat_mult of_nat_numeral)
    moreover have "of_nat (unat v div 4096 * 4096) = v - v mod 4096"
      by (metis of_nat_unat_u32 page_start(1))
    ultimately show ?thesis by (simp only: of_nat_unat_u32)
  qed
  then show ?thesis using r k in_range by (simp add: remaps_def q del: of_nat_diff)
qed

lemma user_page_flags: "unat user_page < 4096" "user_page = 7"
  by (simp_all add: kconfig)

text \<open>C32: Memory for a process. When \<open>process_malloc\<close> gets a block from the kernel heap and the process has a free
  allocation slot, it returns the block's address; every byte of the block is 0; every address of the block translates to itself in
  the process's own address space, on a page that is present, writable and open to user mode;
  the block is recorded in the lowest free slot, and no other address of the process changes its
  translation.\<close>

theorem process_malloc_maps:
  assumes "kheap_ok st" "process_space st process p c" "find_ptr (allocations p) 0 = Some i" "sz \<noteq> 0"
    and "fst (kzalloc st sz) \<noteq> 0"
  shows "\<exists>ptr st'. process_malloc st process sz = Inr (ptr, st') \<and> ptr = fst (kzalloc st sz) \<and>
    heap_owned (kernel_heap st') = (heap_owned (kernel_heap st))(ptr \<mapsto> heap_blocks sz) \<and>
    (\<forall>x. unat ptr \<le> unat x \<and> unat x < unat ptr + heap_blocks sz * 4096 \<longrightarrow> kmem st' x = 0) \<and>
    (\<forall>v. unat ptr \<le> unat v \<and> unat v < unat ptr + heap_blocks sz * 4096 \<longrightarrow>
       paging_get_physical_address st' c v = v \<and> paging_get st' c (v - v mod 4096) = (v - v mod 4096) OR user_page) \<and>
    (\<forall>v. \<not> (unat ptr \<le> unat v \<and> unat v < unat ptr + heap_blocks sz * 4096) \<longrightarrow>
       paging_get_physical_address st' c v = paging_get_physical_address st c v) \<and>
    proc_store st' = (proc_store st)(process \<mapsto> p\<lparr>allocations := (allocations p)[i := \<lparr>pa_ptr = ptr, pa_size = sz\<rparr>]\<rparr>)"
proof -
  obtain ptr st1 where a: "kzalloc st sz = (ptr, st1)" by fastforce
  with assms(5) have nz: "ptr \<noteq> 0" by simp
  note e = kzalloc_block_end [OF assms(1) a nz assms(4)]
  obtain m' where m: "process_malloc st process sz = Inr (ptr, st1\<lparr>kmem := m', proc_store := (proc_store st)(process \<mapsto>
      p\<lparr>allocations := (allocations p)[i := \<lparr>pa_ptr = ptr, pa_size = sz\<rparr>]\<rparr>)\<rparr>)"
    "remaps (kmem st1) m' c (unat ptr div 4096) (heap_blocks sz) ptr user_page"
    using process_malloc_ok [OF assms(1-3) a nz assms(4)] by blast
  have o: "heap_owned (kernel_heap st1) = (heap_owned (kernel_heap st))(ptr \<mapsto> heap_blocks sz)"
    using kernel_alloc.alloc_some [OF kheap_ok_wf [OF assms(1)] kzalloc_heap [OF a] nz] by simp
  have c: "chunk_live st c" using assms(2) by (simp add: process_space_def)
  have old: "paging_get_physical_address st1 c v = paging_get_physical_address st c v" for v
    using chunk_live_kzalloc(3) [OF assms(1) c a] unat_u32_less [of v] by (simp add: paging_get_physical_address_eq)
  have len: "heap_blocks sz * 4096 mod 4096 = 0" by simp
  note t = remaps_translation [where ks = st1 and len = "heap_blocks sz * 4096", OF _ e(2) e(2) len user_page_flags(1), of m' c]
  let ?st = "st1\<lparr>kmem := m', proc_store := (proc_store st)(process \<mapsto>
      p\<lparr>allocations := (allocations p)[i := \<lparr>pa_ptr = ptr, pa_size = sz\<rparr>]\<rparr>)\<rparr>"
  have tr: "paging_get_physical_address ?st c v = (if unat ptr \<le> unat v \<and> unat v < unat ptr + heap_blocks sz * 4096 then v
      else paging_get_physical_address st c v)" for v
    using t [of v] m(2) old [of v] by (simp add: paging_get_physical_address_eq)
  have en: "paging_get ?st c (v - v mod 4096) = (v - v mod 4096) OR user_page"
    if "unat ptr \<le> unat v" "unat v < unat ptr + heap_blocks sz * 4096" for v
    unfolding paging_get_eq [OF page_start(2)] page_start(3) using remaps_address [OF m(2) e(2) that] by simp
  have z: "m' x = 0" if "unat ptr \<le> unat x" "unat x < unat ptr + heap_blocks sz * 4096" for x
    using remaps_other_block [OF assms(1) c a nz m(2) that] kzalloc_zero [OF assms(1) a nz that] by simp
  from m(1) a o z tr en show ?thesis by simp
qed

text \<open>C33: \<open>process_free\<close> undoes \<open>process_malloc\<close>: the kernel heap and the allocation table of the process are
  exactly as before, and every page of the block is gone from the process's address space, so that
  any later access through the stale pointer faults. Here the pointers recorded for the process are live blocks and
  empty slots are all zero.\<close>

theorem process_malloc_free_restores:
  assumes "kheap_ok st" "process_space st process p c" "find_ptr (allocations p) 0 = Some i"
    and "pa_size (allocations p ! i) = 0" "sz \<noteq> 0" "fst (kzalloc st sz) \<noteq> 0"
    and "\<forall>a \<in> set (allocations p). pa_ptr a = 0 \<or> heap_owned (kernel_heap st) (pa_ptr a) \<noteq> None"
  shows "\<exists>ptr st1 st2. process_malloc st process sz = Inr (ptr, st1) \<and> process_free st1 process ptr = Inr st2 \<and>
    kernel_heap st2 = kernel_heap st \<and> proc_store st2 = proc_store st \<and>
    (\<forall>v. unat ptr \<le> unat v \<and> unat v < unat ptr + heap_blocks sz * 4096 \<longrightarrow>
      mmu (kmem st2) (load32 (kmem st2) c) v = None)"
proof -
  obtain ptr st1 where a: "kzalloc st sz = (ptr, st1)" by fastforce
  with assms(6) have nz: "ptr \<noteq> 0" by simp
  note e = kzalloc_block_end [OF assms(1) a nz assms(5)]
  note al = kernel_alloc.alloc_some [OF kheap_ok_wf [OF assms(1)] kzalloc_heap [OF a] nz]
  have i: "i < length (allocations p)" "pa_ptr (allocations p ! i) = 0" using find_ptr_Some [OF assms(3)] by auto
  have sp1: "process_space st1 process p c" by (rule process_space_kzalloc [OF assms(1,2) a])
  let ?p = "p\<lparr>allocations := (allocations p)[i := \<lparr>pa_ptr = ptr, pa_size = sz\<rparr>]\<rparr>"
  obtain m' where m: "process_malloc st process sz = Inr (ptr, st1\<lparr>kmem := m', proc_store := (proc_store st)(process \<mapsto> ?p)\<rparr>)"
    "remaps (kmem st1) m' c (unat ptr div 4096) (heap_blocks sz) ptr user_page"
    using process_malloc_ok [OF assms(1-3) a nz assms(5)] by blast
  let ?st = "st1\<lparr>kmem := m', proc_store := (proc_store st)(process \<mapsto> ?p)\<rparr>"
  have "chunk_live (st1\<lparr>kmem := m'\<rparr>) c" by (rule chunk_live_remaps [OF _ m(2)]) (use sp1 in \<open>simp add: process_space_def\<close>)
  then have sp2: "process_space ?st process ?p c" using sp1 by (auto simp: process_space_def chunk_live_def)
  have f: "find_ptr (allocations ?p) ptr = Some i"
    using find_ptr_update [OF i(1)] al nz assms(7) by fastforce
  obtain m'' where fr: "process_free ?st process ptr = Inr (kfree (?st\<lparr>kmem := m'', proc_store := (proc_store ?st)(process \<mapsto>
      ?p\<lparr>allocations := (allocations ?p)[i := \<lparr>pa_ptr = 0, pa_size = 0\<rparr>]\<rparr>)\<rparr>) ptr)"
    "remaps (kmem ?st) m'' c (unat ptr div 4096) (heap_blocks sz) ptr 0"
    using process_free_ok [OF sp2 f _ e(2) nz e(1)] i(1) by auto
  have "allocations p ! i = \<lparr>pa_ptr = 0, pa_size = 0\<rparr>" using i(2) assms(4) by simp
  then have same: "p\<lparr>allocations := (allocations p)[i := \<lparr>pa_ptr = 0, pa_size = 0\<rparr>]\<rparr> = p"
    using i(1) list_update_id [of "allocations p" i] by (metis task_struct.surjective task_struct.update_convs(4))
  have "proc_store st process = Some p" using assms(2) by (simp add: process_space_def)
  then have ps: "(proc_store st)(process \<mapsto> p) = proc_store st" by auto
  have h: "heap_free (kernel_heap st1) ptr = kernel_heap st"
    using kernel_alloc.alloc_release [OF kheap_ok_wf [OF assms(1)] kzalloc_heap [OF a]] .
  have gone: "mmu m'' (load32 m'' c) v = None" if "unat ptr \<le> unat v" "unat v < unat ptr + heap_blocks sz * 4096" for v
  proof -
    have "page_entry m'' c (unat v div 4096) = v - v mod 4096"
      using remaps_address [OF fr(2) e(2) that] by simp
    moreover have "\<not> bit (v - v mod 4096) 0" by (rule page_aligned_bit [OF page_start(2)]) simp
    ultimately show ?thesis by (simp add: mmu_page_entry)
  qed
  from m(1) fr(1) h ps same gone show ?thesis by (auto simp: kfree_def)
qed


subsection \<open>A process on a fresh system\<close>

definition sample_proc :: task_struct where
  "sample_proc = task_struct_zero\<lparr>ts_task := 0x6000\<rparr>"

text \<open>A process with an address space built on the heap of a fresh system, the only task and the running one.\<close>

definition with_process :: "sim_disk schedst \<Rightarrow> u32 \<Rightarrow> sim_disk schedst" where
  "with_process st c = st\<lparr>proc_store := [0x5000 \<mapsto> sample_proc],
     task_store := [0x6000 \<mapsto> thread_info_zero\<lparr>page_directory := c, ti_process := 0x5000\<rparr>],
     task_head := 0x6000, task_tail := 0x6000, current_task := 0x6000, current_process := 0x5000,
     processes := 0x5000 # replicate 11 0\<rparr>"

lemma sample_process:
  "\<exists>c st0. paging_new_4gb_chunk boot_schedst 5 = Inr (c, st0) \<and> fresh_chunk boot_schedst st0 c 5 \<and>
     kheap_ok (with_process st0 c) \<and> heap_used (kernel_heap (with_process st0 c)) = 1026 \<and>
     process_space (with_process st0 c) 0x5000 sample_proc c"
proof -
  obtain c st0 where c: "paging_new_4gb_chunk boot_schedst 5 = Inr (c, st0)" "fresh_chunk boot_schedst st0 c 5"
    using paging_new_4gb_chunk_ok [OF boot_schedst_ok(1), of 5] boot_schedst_ok(2) by auto
  then have "heap_used (kernel_heap st0) = 1026" using fresh_chunk_used [OF c(2)] boot_schedst_ok(2) by simp
  moreover have "chunk_live st0 c" "kheap_ok st0" using c(2) by (simp_all add: fresh_chunk_def chunk_live_def)
  ultimately show ?thesis
    using c by (auto simp: with_process_def process_space_def sample_proc_def chunk_live_def kheap_ok_def intro!: exI)
qed

lemma sample_alloc: "find_ptr (allocations sample_proc) 0 = Some 0" "pa_size (allocations sample_proc ! 0) = 0"
  "\<forall>a \<in> set (allocations sample_proc). pa_ptr a = 0"
proof -
  have r: "allocations sample_proc = \<lparr>pa_ptr = 0, pa_size = 0\<rparr> # replicate 1023 \<lparr>pa_ptr = 0, pa_size = 0\<rparr>"
    by (simp add: sample_proc_def task_struct_zero_def kconfig flip: replicate_Suc)
  show "find_ptr (allocations sample_proc) 0 = Some 0" "pa_size (allocations sample_proc ! 0) = 0" unfolding r by simp_all
  show "\<forall>a \<in> set (allocations sample_proc). pa_ptr a = 0" unfolding r by simp
qed

lemma kzalloc_one_block: "kheap_ok ks \<Longrightarrow> heap_used (kernel_heap ks) < 25600 \<Longrightarrow> heap_blocks sz = 1 \<Longrightarrow> fst (kzalloc ks sz) \<noteq> 0"
  by (metis kzalloc_page fst_conv)

lemma blocks_100: "heap_blocks 100 = 1"
  by (simp add: heap_blocks_def heap_align_value_upper_def kconfig)

theorem process_malloc_maps_witness:
  "\<exists>c st0 ptr st'. paging_new_4gb_chunk boot_schedst 5 = Inr (c, st0) \<and>
     process_malloc (with_process st0 c) 0x5000 100 = Inr (ptr, st') \<and> ptr \<noteq> 0 \<and>
     paging_get_physical_address st' c ptr = ptr \<and> kmem st' ptr = 0"
proof -
  obtain c st0 where c: "paging_new_4gb_chunk boot_schedst 5 = Inr (c, st0)" "kheap_ok (with_process st0 c)"
    "heap_used (kernel_heap (with_process st0 c)) = 1026" "process_space (with_process st0 c) 0x5000 sample_proc c"
    using sample_process by blast
  have nz: "fst (kzalloc (with_process st0 c) 100) \<noteq> 0" using kzalloc_one_block [OF c(2) _ blocks_100] c(3) by simp
  from process_malloc_maps [OF c(2,4) sample_alloc(1) _ nz] nz c(1) show ?thesis by (auto simp: blocks_100)
qed

theorem process_malloc_free_restores_witness:
  "\<exists>c st0 ptr st1 st2. paging_new_4gb_chunk boot_schedst 5 = Inr (c, st0) \<and>
     process_malloc (with_process st0 c) 0x5000 100 = Inr (ptr, st1) \<and> process_free st1 0x5000 ptr = Inr st2 \<and>
     kernel_heap st2 = kernel_heap st0 \<and> mmu (kmem st2) (load32 (kmem st2) c) ptr = None"
proof -
  obtain c st0 where c: "paging_new_4gb_chunk boot_schedst 5 = Inr (c, st0)" "kheap_ok (with_process st0 c)"
    "heap_used (kernel_heap (with_process st0 c)) = 1026" "process_space (with_process st0 c) 0x5000 sample_proc c"
    using sample_process by blast
  have nz: "fst (kzalloc (with_process st0 c) 100) \<noteq> 0" using kzalloc_one_block [OF c(2) _ blocks_100] c(3) by simp
  from process_malloc_free_restores [OF c(2,4) sample_alloc(1,2) _ nz] sample_alloc(3) c(1) show ?thesis
    by (auto simp: blocks_100 with_process_def)
qed

subsection \<open>Failed loads\<close>

lemma sched_more:
  fixes st st' :: "('d, 'a) schedst_scheme"
  assumes "vfsst.more st' = vfsst.more st"
  shows "processes st' = processes st" "current_process st' = current_process st" "proc_store st' = proc_store st"
    "task_store st' = task_store st" "elf_store st' = elf_store st" "task_head st' = task_head st" "task_tail st' = task_tail st"
    "current_task st' = current_task st" "kernel_chunk st' = kernel_chunk st"
  using assms by (cases st, cases st', simp)+

lemma process_load_bin_out_more:
  assumes "process_load_bin_out (\<lambda>_. fat16_fs io) st fd res p = Inr (r, st')"
  shows "r = res \<and> vfsst.more st' = vfsst.more st"
  using assms by (auto simp: process_load_bin_out_def kbind_Inr_iff kfree_def split: if_splits dest!: fat16_driver.fclose_more)

lemma process_load_bin_fails:
  fixes st :: "('d, 'a) schedst_scheme"
  assumes "process_load_bin (\<lambda>_. fat16_fs io) st fname process = Inr (r, st')" "r < 0"
  shows "vfsst.more st' = vfsst.more st"
proof -
  from assms(1) obtain fd st1 where o: "fopen (\<lambda>_. fat16_fs io) st fname [114, 0] = Inr (fd, st1)"
    by (auto simp: process_load_bin_def kbind_Inr_iff)
  note k1 = fat16_driver.fopen_effect [OF o, THEN conjunct1]
  note a1 = assms(1) [unfolded process_load_bin_def o kbind_simps prod.case]
  show ?thesis
  proof (cases "fd = 0")
    case True
    with a1 k1 process_load_bin_out_more show ?thesis by fastforce
  next
    case False
    note a2 = a1 [unfolded if_not_P [OF False]]
    from a2 obtain res stat where s: "fstat (\<lambda>_. fat16_fs io) st1 fd (Some \<lparr>stat_flags = 0, stat_filesize = 0\<rparr>) = Inr (res, stat)"
      by (auto simp: kbind_Inr_iff)
    define fsize where "fsize = (case stat of None \<Rightarrow> 0 | Some s \<Rightarrow> stat_filesize s)"
    obtain data st2 where m: "kzalloc st1 fsize = (data, st2)" by fastforce
    note k2 = vfs_more_kzalloc [OF m, unfolded k1]
    note a3 = a2 [unfolded s kbind_simps prod.case, folded fsize_def, unfolded Let_def m prod.case]
    show ?thesis
    proof (cases "res \<noteq> KERNEL_ALL_OK \<or> data = 0")
      case True
      with a3 k1 k2 show ?thesis by (auto split: if_splits dest!: process_load_bin_out_more)
    next
      case False
      then have f: "\<not> res \<noteq> KERNEL_ALL_OK" "data \<noteq> 0" by auto
      from a3 [unfolded if_not_P [OF f(1)] if_not_P [OF f(2)]] obtain n bs st3 where
        rd: "fread (\<lambda>_. fat16_fs io) st2 False fsize 1 fd = Inr (n, bs, st3)" by (auto simp: kbind_Inr_iff)
      define st4 where "st4 = st3\<lparr>kmem := mem_write (kmem st3) data bs\<rparr>"
      have k4: "vfsst.more st4 = vfsst.more st" using fat16_driver.fread_more [OF rd, unfolded k2] by (simp add: st4_def)
      note a4 = a3 [unfolded if_not_P [OF f(1)] if_not_P [OF f(2)] rd kbind_simps prod.case, folded st4_def]
      show ?thesis
      proof (cases "n \<noteq> 1")
        case True
        with a4 k4 process_load_bin_out_more show ?thesis by fastforce
      next
        case False
        from a4 [unfolded if_not_P [OF False]] have "r = res"
          by (auto simp: kbind_Inr_iff dest!: process_load_bin_out_more)
        with assms(2) f(1) show ?thesis by (simp add: kconfig)
      qed
    qed
  qed
qed

lemma process_load_data_fails:
  fixes st :: "('d, 'a) schedst_scheme"
  assumes "process_load_data (\<lambda>_. fat16_fs io) st fname process = Inr (r, st')" "r < 0"
  shows "vfsst.more st' = vfsst.more st"
proof -
  from assms(1) obtain r1 st1 where e: "process_load_elf (\<lambda>_. fat16_fs io) st fname process = Inr (r1, st1)"
    by (auto simp: process_load_data_def kbind_Inr_iff)
  have k1: "vfsst.more st1 = vfsst.more st" if "r1 < 0"
    using e that by (auto simp: process_load_elf_def kbind_Inr_iff Let_def split: if_splits dest!: fat16_driver.elf_load_more)
  note a = assms(1) [unfolded process_load_data_def e kbind_simps prod.case]
  show ?thesis
  proof (cases "r1 = - EINFORMATS")
    case True
    with a have "process_load_bin (\<lambda>_. fat16_fs io) st1 fname process = Inr (r, st')" by simp
    from process_load_bin_fails [OF this assms(2)] k1 True show ?thesis by (simp add: kconfig)
  next
    case False
    with a k1 assms(2) show ?thesis by simp
  qed
qed

text \<open>A process that was cleared and never filled in: terminating it only clears entry 0.\<close>

lemma zero_allocations: "i < 1024 \<Longrightarrow> pa_ptr (allocations task_struct_zero ! i) = 0"
  by (simp add: task_struct_zero_def kconfig)

lemma terminate_zero_allocations:
  assumes "process \<noteq> 0" "proc_store st process = Some p" "\<forall>a \<in> set (allocations p). pa_ptr a = 0" "i + n \<le> length (allocations p)"
  shows "process_terminate_allocations_loop st process i n = Inr st"
  using assms(4)
proof (induction n arbitrary: i)
  case (Suc n)
  then show ?case using assms(1-3) by (simp add: deref_live process_free_def)
qed simp

lemma process_terminate_zero:
  assumes p: "process \<noteq> 0" "proc_store st process = Some task_struct_zero" and t: "processes st \<noteq> []" "current_process st \<noteq> process"
  shows "\<exists>st'. process_terminate st process = Inr (0, st') \<and> processes st' = (processes st)[0 := 0] \<and>
    proc_store st' = proc_store st \<and> task_store st' = task_store st \<and> current_process st' = current_process st \<and>
    kernel_heap st' = kernel_heap st"
proof -
  have "process_terminate_allocations st process = Inr st"
    unfolding process_terminate_allocations_def
    by (rule terminate_zero_allocations [OF p]) (simp_all add: task_struct_zero_def kconfig)
  moreover have "process_terminate_program_data st process = Inr (0, st)"
    using p by (simp add: process_terminate_program_data_def deref_live task_struct_zero_def process_terminate_elf_data_def elf_close_def)
  moreover have "process_terminate_command_argument st process = Inr st"
    using p by (simp add: process_terminate_command_argument_def deref_live task_struct_zero_def)
  moreover have "kernel_heap (kfree st 0) = kernel_heap st" by (simp add: kernel_alloc.release_null)
  moreover have "process_unlink (kfree st 0) process = Inr ((kfree st 0)\<lparr>processes := (processes st)[0 := 0]\<rparr>)"
    using p t by (simp add: process_unlink_def deref_live task_struct_zero_def kfree_def)
  ultimately show ?thesis
    using p by (auto simp: process_terminate_def deref_live task_free_def task_struct_zero_def kfree_def)
qed

text \<open>C34: What a failed load costs. When the program of a new process cannot be loaded (file not found, bad format, disk or
  memory error), \<open>process_load_for_slot\<close> reports the error, but in undoing its work it also clears entry 0 of
  the process table, whatever slot was asked for: the process has no number yet, and the number 0 that
  its cleared structure holds is that of the first process, the shell.\<close>

theorem process_load_failure_unlinks_first:
  fixes st :: "('d, 'a) schedst_scheme"
  assumes "process_get st slot = 0" "kzalloc st task_struct_size = (process, st1)" "process \<noteq> 0"
    and "process_load_data (\<lambda>_. fat16_fs io) (process_init st1 process) fname process = Inr (res, st2)" "res < 0"
    and "processes st \<noteq> []" "current_process st \<noteq> process"
  shows "\<exists>st'. process_load_for_slot (\<lambda>_. fat16_fs io) st (Some fname) True slot = Inr (res, 0, st') \<and>
    processes st' = (processes st)[0 := 0] \<and> current_process st' = current_process st \<and> task_store st' = task_store st"
proof -
  from kzalloc_fields [OF assms(2)] obtain h m where st1: "st1 = st\<lparr>kernel_heap := h, kmem := m\<rparr>" by blast
  note k = sched_more [OF process_load_data_fails [OF assms(4,5)]]
  have p2: "proc_store st2 process = Some task_struct_zero" using k(3) by (simp add: process_init_def)
  have t2: "processes st2 = processes st" "current_process st2 = current_process st" "task_store st2 = task_store st"
    using k st1 by (simp_all add: process_init_def)
  obtain st3 where st3: "process_terminate st2 process = Inr (0, st3)" "processes st3 = (processes st2)[0 := 0]"
    "task_store st3 = task_store st2" "current_process st3 = current_process st2"
    using process_terminate_zero [OF assms(3) p2] t2 assms(6,7) by auto
  have "process_load_for_slot (\<lambda>_. fat16_fs io) st (Some fname) True slot =
      Inr (res, 0, (kfree st3 process)\<lparr>proc_store := (proc_store st3)(process := None)\<rparr>)"
    using assms st3(1) by (simp add: process_load_for_slot_def process_load_failed_def kconfig)
  with st3 t2 show ?thesis by (simp add: kfree_def)
qed

lemma blocks_process: "heap_blocks task_struct_size = 3" "heap_blocks KERNEL_USER_PROGRAM_STACK_SIZE = 4" "heap_blocks 132 = 1"
  by (simp_all add: heap_blocks_def heap_align_value_upper_def kconfig task_struct_size_def)

definition shell_running :: "sim_disk schedst" where
  "shell_running = boot_schedst\<lparr>processes := 0x5000 # replicate 11 0, current_process := 0x5000\<rparr>"

theorem process_load_failure_unlinks_first_witness:
  "\<exists>st'. process_load_for_slot (\<lambda>_. fat16_fs (sim_io sample_img)) shell_running (Some [0]) True 3 = Inr (- EIO, 0, st') \<and>
     process_get shell_running 0 = 0x5000 \<and> process_get st' 0 = 0"
proof -
  have ok: "kheap_ok shell_running" "heap_used (kernel_heap shell_running) = 0"
    using boot_schedst_ok by (simp_all add: shell_running_def kheap_ok_def)
  have room: "heap_used (kernel_heap shell_running) < 25600 div 3" by (simp add: ok(2))
  obtain process st1 where p: "kzalloc shell_running task_struct_size = (process, st1)" "process \<noteq> 0" "kheap_ok st1"
    "heap_owned (kernel_heap shell_running) process = None"
    "heap_owned (kernel_heap st1) = (heap_owned (kernel_heap shell_running))(process \<mapsto> 3)"
    "heap_used (kernel_heap st1) = heap_used (kernel_heap shell_running) + 3"
    by (rule kzalloc_blocks [OF ok(1) room blocks_process(1)]) simp
  have k: "kheap_ok (process_init st1 process)" "heap_used (kernel_heap (process_init st1 process)) + 10 \<le> 25600"
    using p ok(2) by (simp_all add: process_init_def kheap_ok_def)
  obtain st2 where l: "process_load_data (\<lambda>_. fat16_fs (sim_io sample_img)) (process_init st1 process) [0] process = Inr (- EIO, st2)"
    using elf_load_bad_path [OF k, of "sim_io sample_img"]
    by (auto simp: process_load_data_def process_load_elf_def kconfig)
  have "0x1000000 \<le> unat process" using kheap_owned_range [OF p(3), of process 3] p(5) by simp
  then have ne: "current_process shell_running \<noteq> process" by (auto simp: shell_running_def)
  have g: "process_get shell_running 3 = 0" "process_get shell_running 0 = 0x5000" "processes shell_running \<noteq> []"
    by (simp_all add: shell_running_def process_get_def kconfig numeral_eq_Suc)
  from process_load_failure_unlinks_first [OF g(1) p(1,2) l _ g(3) ne] obtain st' where
    "process_load_for_slot (\<lambda>_. fat16_fs (sim_io sample_img)) shell_running (Some [0]) True 3 = Inr (- EIO, 0, st')"
    "processes st' = (processes shell_running)[0 := 0]" by (auto simp: kconfig)
  with g(2,3) show ?thesis by (auto simp: process_get_def kconfig)
qed

end
