(* ===== verification/Isr80h.thy ===== *)
theory Isr80h
  imports Sched Descriptor_Tables
begin

unbundle bit_operations_syntax

section \<open>Interrupts and system calls: idt.c and kernel/isr80h.c\<close>

text \<open>
  The processor enters the kernel through \<open>interrupt_handler\<close> (exceptions and devices) or
  \<open>isr80h_handler\<close> (system calls). Both load the kernel's page directory, save the registers of the
  current task, dispatch through a table of function pointers, and load the task's directory
  again. The tables hold names of handlers here, each with its own definition.

  A handler either returns to the assembly stub with a value (\<open>Returns\<close>) or leaves the kernel by
  \<open>task_return\<close> with the registers of a task (\<open>Resumes\<close>).
\<close>

subsection \<open>State\<close>

datatype SystemCommands =
  SYSTEM_COMMAND0_SUM | SYSTEM_COMMAND1_PRINT | SYSTEM_COMMAND2_GETKEY | SYSTEM_COMMAND3_PUTCHAR | SYSTEM_COMMAND4_MALLOC
| SYSTEM_COMMAND5_FREE | STSTEM_COMMAND6_PROCESS_LOAD_START | SYSTEM_COMMAND7_INVAKE_SYSTEM_COMMAND
| SYSTEM_COMMAND8_GET_PROGRAM_ARGUMENT | SYSTEM_COMMAND9_EXIT

datatype INTERRUPT_CALLBACK_FUNCTION = IDT_HANDLE_EXCEPTION | CLASSIC_KEYBOARD_HANDLE_INTERRUPT

datatype 's flow = Returns u32 's | Resumes registers 's

record 'd kernelst = "'d schedst" +
  idt_descriptors :: "idt_desc list"
  idtr_descriptor :: idtr_desc
  isr80h_commands :: "SystemCommands option list"
  interrupt_callbacks :: "INTERRUPT_CALLBACK_FUNCTION option list"
  classic :: "unit keyboard"
  ports_written :: "(u16 \<times> u8) list"

definition outb :: "('d, 'a) kernelst_scheme \<Rightarrow> u16 \<Rightarrow> u8 \<Rightarrow> ('d, 'a) kernelst_scheme" where
  "outb st port val = st\<lparr>ports_written := ports_written st @ [(port, val)]\<rparr>"

subsection \<open>System calls\<close>

text \<open>\<open>task_current ()->process\<close>\<close>

definition current_task_process :: "('d, 'a) schedst_scheme \<Rightarrow> u32 kresult" where
  "current_task_process st = kbind (deref (task_store st) (task_current st)) (\<lambda>t. Inr (ti_process t))"

definition isr80h_command0_sum :: "('d, 'a) schedst_scheme \<Rightarrow> ('d, 'a) schedst_scheme flow kresult" where
  "isr80h_command0_sum st =
     kbind (task_get_stack_item st (task_current st) 0) (\<lambda>(item_1, st1).
     kbind (task_get_stack_item st1 (task_current st1) 1) (\<lambda>(item_2, st2).
     Inr (Returns (item_1 + item_2) st2)))"

definition isr80h_command1_print :: "('d, 'a) schedst_scheme \<Rightarrow> ('d, 'a) schedst_scheme flow kresult" where
  "isr80h_command1_print st =
     kbind (task_get_stack_item st (task_current st) 0) (\<lambda>(user_string_virt_ptr, st1).
     kbind (copy_string_from_task st1 (task_current st1) user_string_virt_ptr (Some (uninit st1 1024)) 1024) (\<lambda>(res, buf, st2).
     kbind (terminal_print st2 (the buf)) (\<lambda>st3. Inr (Returns 0 st3))))"

text \<open>\<open>keyboard_pop\<close> acts on the buffer of the current process.\<close>

definition current_keyboard_pop :: "('d, 'a) schedst_scheme \<Rightarrow> (u8 \<times> ('d, 'a) schedst_scheme) kresult" where
  "current_keyboard_pop st =
     (if process_current st = 0 then Inr (fst (keyboard_pop None), st)
      else kbind (deref (proc_store st) (process_current st)) (\<lambda>p.
        let (c, kb) = keyboard_pop (Some (ts_keyboard p)) in
        kbind (upd_proc st (process_current st) (\<lambda>p. p\<lparr>ts_keyboard := the kb\<rparr>)) (\<lambda>st1. Inr (c, st1))))"

definition isr80h_command2_getkey :: "('d, 'a) schedst_scheme \<Rightarrow> ('d, 'a) schedst_scheme flow kresult" where
  "isr80h_command2_getkey st = kbind (current_keyboard_pop st) (\<lambda>(c, st1). Inr (Returns (scast c) st1))"

definition isr80h_command3_putchar :: "('d, 'a) schedst_scheme \<Rightarrow> ('d, 'a) schedst_scheme flow kresult" where
  "isr80h_command3_putchar st =
     kbind (task_get_stack_item st (task_current st) 0) (\<lambda>(item, st1).
     Inr (Returns 0 (terminal_print_char st1 (ucast item))))"

definition isr80h_command4_malloc :: "('d, 'a) schedst_scheme \<Rightarrow> ('d, 'a) schedst_scheme flow kresult" where
  "isr80h_command4_malloc st =
     kbind (task_get_stack_item st (task_current st) 0) (\<lambda>(item, st1).
     kbind (current_task_process st1) (\<lambda>process.
     kbind (process_malloc st1 process item) (\<lambda>(ptr, st2). Inr (Returns ptr st2))))"

definition isr80h_command5_free :: "('d, 'a) schedst_scheme \<Rightarrow> ('d, 'a) schedst_scheme flow kresult" where
  "isr80h_command5_free st =
     kbind (task_get_stack_item st (task_current st) 0) (\<lambda>(item, st1).
     kbind (current_task_process st1) (\<lambda>process.
     kbind (process_free st1 process item) (\<lambda>st2. Inr (Returns 0 st2))))"

definition filepath0 :: "u8 list" where
  "filepath0 = [48, 58, 47] @ replicate (KERNEL_MAX_PATH - 3) 0"

text \<open>The last steps of the two calls that start a program: switch to the task, return into it.\<close>

definition resume_process :: "('d, 'a) schedst_scheme \<Rightarrow> u32 \<Rightarrow> ('d, 'a) schedst_scheme flow kresult" where
  "resume_process st process =
     kbind (deref (proc_store st) process) (\<lambda>p.
     kbind (deref (task_store st) (ts_task p)) (\<lambda>t. Inr (Resumes (registers t) st)))"

definition isr80h_command6_process_load_start :: "(fs_type \<Rightarrow> ('d, 'a) schedst_scheme filesystem_ops) \<Rightarrow> ('d, 'a) schedst_scheme
      \<Rightarrow> ('d, 'a) schedst_scheme flow kresult" where
  "isr80h_command6_process_load_start ops st =
     kbind (task_get_stack_item st (task_current st) 0) (\<lambda>(user_data_ptr, st1).
     kbind (copy_string_from_task st1 (task_current st1) user_data_ptr (Some (drop 3 filepath0)) (int KERNEL_MAX_PATH - 3)) (\<lambda>(ret, buf, st2).
     if ret < 0 then Inr (Returns (word_of_int ret) st2)
     else kbind (process_load_switch ops st2 (Some (take 3 filepath0 @ the buf)) True) (\<lambda>(ret, process, st3).
       if ret < 0 then Inr (Returns (word_of_int ret) st3)
       else kbind (deref (proc_store st3) process) (\<lambda>p.
         kbind (task_switch st3 (ts_task p)) (\<lambda>(r, st4). resume_process st4 process)))))"

text \<open>\<open>strlen (...) == 0\<close> holds exactly when the first character is 0.\<close>

definition isr80h_command7_invake_system_command :: "(fs_type \<Rightarrow> ('d, 'a) schedst_scheme filesystem_ops) \<Rightarrow> ('d, 'a) schedst_scheme
      \<Rightarrow> ('d, 'a) schedst_scheme flow kresult" where
  "isr80h_command7_invake_system_command ops st =
     kbind (task_get_stack_item st (task_current st) 0) (\<lambda>(item, st1).
     kbind (task_virtual_addr_to_physical st1 (task_current st1) item) (\<lambda>root_command_argument.
     if root_command_argument = 0 \<or> kmem st1 root_command_argument = 0 then Inr (Returns (word_of_int (- EINVAGS)) st1)
     else case strncpy (drop 3 filepath0) (mem_bytes (kmem st1) root_command_argument (KERNEL_MAX_PATH - 3)) (KERNEL_MAX_PATH - 3) of
       None \<Rightarrow> Inl OutOfBounds
     | Some name \<Rightarrow>
         kbind (process_load_switch ops st1 (Some (take 3 filepath0 @ name)) True) (\<lambda>(ret, process, st2).
         if ret < 0 then Inr (Returns (word_of_int ret) st2)
         else kbind (deref (proc_store st2) process) (\<lambda>p.
           kbind (task_switch st2 (ts_task p)) (\<lambda>(r, st3).
           kbind (process_inject_argument st3 process root_command_argument) (\<lambda>(ret, st4).
           if ret < 0 then Inr (Returns (word_of_int ret) st4) else resume_process st4 process))))))"

definition isr80h_command8_get_program_argument :: "('d, 'a) schedst_scheme \<Rightarrow> ('d, 'a) schedst_scheme flow kresult" where
  "isr80h_command8_get_program_argument st =
     kbind (task_get_stack_item st (task_current st) 0) (\<lambda>(item, st1).
     kbind (task_virtual_addr_to_physical st1 (task_current st1) item) (\<lambda>argument.
     kbind (current_task_process st1) (\<lambda>process.
     kbind (process_get_argument st1 process) (\<lambda>(argc, argv).
     if argument = 0 then Inl NullDeref
     else Inr (Returns 0 (st1\<lparr>kmem := store32 (store32 (kmem st1) argument (word_of_int argc)) (argument + 4) argv\<rparr>))))))"

definition isr80h_command9_exit :: "('d, 'a) schedst_scheme \<Rightarrow> ('d, 'a) schedst_scheme flow kresult" where
  "isr80h_command9_exit st =
     kbind (task_get_stack_item st (task_current st) 0) (\<lambda>(item, st1).
     kbind (current_task_process st1) (\<lambda>process.
     kbind (process_terminate st1 process) (\<lambda>(r, st2).
     kbind (upd_proc st2 process (\<lambda>p. p\<lparr>ts_res := sint item\<rparr>)) (\<lambda>st3.
     kbind (task_next st3) (\<lambda>(regs, st4). Inr (Resumes regs st4))))))"

definition run_command :: "(fs_type \<Rightarrow> ('d, 'a) schedst_scheme filesystem_ops) \<Rightarrow> SystemCommands \<Rightarrow> ('d, 'a) schedst_scheme
      \<Rightarrow> ('d, 'a) schedst_scheme flow kresult" where
  "run_command ops c st =
     (case c of
        SYSTEM_COMMAND0_SUM \<Rightarrow> isr80h_command0_sum st
      | SYSTEM_COMMAND1_PRINT \<Rightarrow> isr80h_command1_print st
      | SYSTEM_COMMAND2_GETKEY \<Rightarrow> isr80h_command2_getkey st
      | SYSTEM_COMMAND3_PUTCHAR \<Rightarrow> isr80h_command3_putchar st
      | SYSTEM_COMMAND4_MALLOC \<Rightarrow> isr80h_command4_malloc st
      | SYSTEM_COMMAND5_FREE \<Rightarrow> isr80h_command5_free st
      | STSTEM_COMMAND6_PROCESS_LOAD_START \<Rightarrow> isr80h_command6_process_load_start ops st
      | SYSTEM_COMMAND7_INVAKE_SYSTEM_COMMAND \<Rightarrow> isr80h_command7_invake_system_command ops st
      | SYSTEM_COMMAND8_GET_PROGRAM_ARGUMENT \<Rightarrow> isr80h_command8_get_program_argument st
      | SYSTEM_COMMAND9_EXIT \<Rightarrow> isr80h_command9_exit st)"

subsection \<open>Tables and dispatch\<close>

definition isr80h_register_command :: "('d, 'a) kernelst_scheme \<Rightarrow> int \<Rightarrow> SystemCommands \<Rightarrow> ('d, 'a) kernelst_scheme kresult" where
  "isr80h_register_command st command command_func =
     (if command < 0 \<or> command \<ge> int KERNEL_MAX_ISR80H_COMMANDS then Inl (Panic ''The command is out of bounds'')
      else if isr80h_commands st ! nat command \<noteq> None then Inl (Panic ''Your attempting to overwrite an existing command'')
      else Inr (st\<lparr>isr80h_commands := (isr80h_commands st)[nat command := Some command_func]\<rparr>))"

fun register_all :: "('d, 'a) kernelst_scheme \<Rightarrow> int \<Rightarrow> SystemCommands list \<Rightarrow> ('d, 'a) kernelst_scheme kresult" where
  "register_all st i [] = Inr st"
| "register_all st i (c # cs) = kbind (isr80h_register_command st i c) (\<lambda>st1. register_all st1 (i + 1) cs)"

text \<open>The constants of \<open>enum SystemCommands\<close> count from 0.\<close>

definition isr80h_register_commands :: "('d, 'a) kernelst_scheme \<Rightarrow> ('d, 'a) kernelst_scheme kresult" where
  "isr80h_register_commands st =
     register_all st 0 [SYSTEM_COMMAND0_SUM, SYSTEM_COMMAND1_PRINT, SYSTEM_COMMAND2_GETKEY, SYSTEM_COMMAND3_PUTCHAR,
       SYSTEM_COMMAND4_MALLOC, SYSTEM_COMMAND5_FREE, STSTEM_COMMAND6_PROCESS_LOAD_START,
       SYSTEM_COMMAND7_INVAKE_SYSTEM_COMMAND, SYSTEM_COMMAND8_GET_PROGRAM_ARGUMENT, SYSTEM_COMMAND9_EXIT]"

definition isr80h_handle_command :: "(fs_type \<Rightarrow> ('d, 'a) kernelst_scheme filesystem_ops) \<Rightarrow> ('d, 'a) kernelst_scheme \<Rightarrow> int
      \<Rightarrow> ('d, 'a) kernelst_scheme flow kresult" where
  "isr80h_handle_command ops st command =
     (if command < 0 \<or> command \<ge> int KERNEL_MAX_ISR80H_COMMANDS then Inr (Returns 0 st)
      else case isr80h_commands st ! nat command of
        None \<Rightarrow> Inr (Returns 0 st)
      | Some command_func \<Rightarrow> run_command ops command_func st)"

definition isr80h_handler :: "(fs_type \<Rightarrow> ('d, 'a) kernelst_scheme filesystem_ops) \<Rightarrow> ('d, 'a) kernelst_scheme \<Rightarrow> int \<Rightarrow> interrupt_frame
      \<Rightarrow> ('d, 'a) kernelst_scheme flow kresult" where
  "isr80h_handler ops st command frame =
     kbind (task_current_save_state (kernel_page st) frame) (\<lambda>st1.
     kbind (isr80h_handle_command ops st1 command) (\<lambda>fl.
     case fl of
       Resumes regs st2 \<Rightarrow> Inr (Resumes regs st2)
     | Returns res st2 \<Rightarrow> kbind (task_page st2) (\<lambda>(r, st3). Inr (Returns res st3))))"

definition idt_register_interrupt_callback :: "('d, 'a) kernelst_scheme \<Rightarrow> int \<Rightarrow> INTERRUPT_CALLBACK_FUNCTION
      \<Rightarrow> int \<times> ('d, 'a) kernelst_scheme" where
  "idt_register_interrupt_callback st interrupt interrupt_callback =
     (if interrupt < 0 \<or> interrupt \<ge> int KERNEL_TOTAL_INTERRUPTS then (- EINVAGS, st)
      else (0, st\<lparr>interrupt_callbacks := (interrupt_callbacks st)[nat interrupt := Some interrupt_callback]\<rparr>))"

definition idt_handle_exception :: "('d, 'a) schedst_scheme \<Rightarrow> ('d, 'a) schedst_scheme flow kresult" where
  "idt_handle_exception st =
     kbind (process_terminate st (process_current st)) (\<lambda>(r, st1).
     kbind (task_next st1) (\<lambda>(regs, st2). Inr (Resumes regs st2)))"

text \<open>The keyboard callback on the whole state: the driver's own record and the buffer of the current
  process; \<open>scan\<close> are the two bytes the controller delivers.\<close>

definition keyboard_callback :: "('d, 'a) kernelst_scheme \<Rightarrow> u8 \<times> u8 \<Rightarrow> ('d, 'a) kernelst_scheme kresult" where
  "keyboard_callback st scan =
     kbind (if process_current st = 0 then Inr None
            else kbind (deref (proc_store st) (process_current st)) (\<lambda>p. Inr (Some (ts_keyboard p)))) (\<lambda>buf.
     kbind (classic_keyboard_handle_interrupt \<lparr>classic_keyboard = classic st, current_buffer = buf\<rparr> (fst scan) (snd scan)) (\<lambda>irq.
     let st1 = st\<lparr>classic := classic_keyboard irq\<rparr> in
     case current_buffer irq of
       None \<Rightarrow> Inr st1
     | Some kb \<Rightarrow> upd_proc st1 (process_current st1) (\<lambda>p. p\<lparr>ts_keyboard := kb\<rparr>)))"

definition interrupt_handler :: "('d, 'a) kernelst_scheme \<Rightarrow> int \<Rightarrow> interrupt_frame \<Rightarrow> u8 \<times> u8 \<Rightarrow> ('d, 'a) kernelst_scheme flow kresult" where
  "interrupt_handler st interrupt frame scan =
     (if interrupt < 0 \<or> int (length (interrupt_callbacks st)) \<le> interrupt then Inl OutOfBounds
      else case interrupt_callbacks st ! nat interrupt of
        None \<Rightarrow> Inr (Returns 0 (outb st 0x20 0x20))
      | Some callback \<Rightarrow>
          kbind (task_current_save_state (kernel_page st) frame) (\<lambda>st1.
          case callback of
            IDT_HANDLE_EXCEPTION \<Rightarrow> idt_handle_exception st1
          | CLASSIC_KEYBOARD_HANDLE_INTERRUPT \<Rightarrow>
              kbind (keyboard_callback st1 scan) (\<lambda>st2.
              kbind (task_page st2) (\<lambda>(r, st3). Inr (Returns 0 (outb st3 0x20 0x20))))))"

text \<open>\<open>idt_init\<close>: the stubs' addresses come from the assembly (\<open>interrupt_pointer_table\<close>, \<open>isr80h_wrapper\<close>),
  the table's own address from the linker.\<close>

primrec idt_set_all :: "idt_desc list \<Rightarrow> (nat \<Rightarrow> u32) \<Rightarrow> nat \<Rightarrow> nat \<Rightarrow> idt_desc list kresult" where
  "idt_set_all tbl ptrs i 0 = Inr tbl"
| "idt_set_all tbl ptrs i (Suc n) = kbind (idt_set tbl (int i) (ptrs i)) (\<lambda>tbl1. idt_set_all tbl1 ptrs (Suc i) n)"

primrec register_exceptions :: "('d, 'a) kernelst_scheme \<Rightarrow> nat \<Rightarrow> nat \<Rightarrow> ('d, 'a) kernelst_scheme" where
  "register_exceptions st i 0 = st"
| "register_exceptions st i (Suc n) =
     register_exceptions (snd (idt_register_interrupt_callback st (int i) IDT_HANDLE_EXCEPTION)) (Suc i) n"

definition idt_init :: "('d, 'a) kernelst_scheme \<Rightarrow> (nat \<Rightarrow> u32) \<Rightarrow> u32 \<Rightarrow> u32 \<Rightarrow> ('d, 'a) kernelst_scheme kresult" where
  "idt_init st interrupt_pointer_table isr80h_wrapper idt_address =
     (let zero = \<lparr>offset_1 = 0, idt_selector = 0, idt_zero = 0, type_attributes = 0, offset_2 = 0\<rparr> in
      kbind (idt_set_all (replicate KERNEL_TOTAL_INTERRUPTS zero) interrupt_pointer_table 0 KERNEL_TOTAL_INTERRUPTS) (\<lambda>tbl.
      kbind (idt_set tbl 0x80 isr80h_wrapper) (\<lambda>tbl1.
      Inr (register_exceptions (st\<lparr>idt_descriptors := tbl1, idtr_descriptor := \<lparr>idtr_limit = 8 * of_nat KERNEL_TOTAL_INTERRUPTS - 1,
        idtr_base = idt_address\<rparr>\<rparr>) 0 0x20))))"

subsection \<open>Entering and leaving the kernel\<close>

text \<open>The registers a trap leaves with the task it interrupted.\<close>

definition frame_registers :: "interrupt_frame \<Rightarrow> registers" where
  "frame_registers f = \<lparr>r_edi = fr_edi f, r_esi = fr_esi f, r_ebp = fr_ebp f, r_ebx = fr_ebx f, r_edx = fr_edx f, r_ecx = fr_ecx f,
     r_eax = fr_eax f, r_ip = fr_ip f, r_cs = fr_cs f, r_flags = fr_flags f, r_esp = fr_esp f, r_ss = fr_ss f\<rparr>"

text \<open>The state after a trap: kernel directory loaded, registers of the current task saved.\<close>

definition trap_state :: "('d, 'a) schedst_scheme \<Rightarrow> thread_info \<Rightarrow> interrupt_frame \<Rightarrow> ('d, 'a) schedst_scheme" where
  "trap_state st t frame = (kernel_page st)\<lparr>task_store := (task_store st)(current_task st \<mapsto> t\<lparr>registers := frame_registers frame\<rparr>)\<rparr>"

lemma trap_fields [simp]:
  "task_store (trap_state st t frame) = (task_store st)(current_task st \<mapsto> t\<lparr>registers := frame_registers frame\<rparr>)"
  "current_task (trap_state st t frame) = current_task st" "current_process (trap_state st t frame) = current_process st"
  "proc_store (trap_state st t frame) = proc_store st" "kernel_heap (trap_state st t frame) = kernel_heap st"
  "kmem (trap_state st t frame) = kmem st" "kernel_chunk (trap_state st t frame) = kernel_chunk st"
  by (simp_all add: trap_state_def kernel_page_def paging_switch_def)

lemma save_state_trap:
  assumes "current_task st \<noteq> 0" "task_store st (current_task st) = Some t"
  shows "task_current_save_state (kernel_page st) frame = Inr (trap_state st t frame)"
  using assms
  by (cases "registers t") (simp add: task_current_save_state_def task_current_def task_save_state_def upd_task_def kernel_page_def
      paging_switch_def deref_def trap_state_def frame_registers_def)

lemma task_page_live:
  assumes "current_task st \<noteq> 0" "task_store st (current_task st) = Some t"
  shows "task_page st = Inr (0, st\<lparr>current_directory := load32 (kmem st) (page_directory t)\<rparr>)"
  using assms by (simp add: task_page_def task_switch_def deref_def paging_switch_def)

text \<open>The kernel has been entered and left again with nothing else done: the registers of the task are saved, its own
  directory is loaded.\<close>

definition passed_through :: "('d, 'a) schedst_scheme \<Rightarrow> thread_info \<Rightarrow> interrupt_frame \<Rightarrow> ('d, 'a) schedst_scheme" where
  "passed_through st t frame = (trap_state st t frame)\<lparr>current_directory := load32 (kmem st) (page_directory t)\<rparr>"

subsection \<open>The table of system calls\<close>

definition system_call_order :: "SystemCommands list" where
  "system_call_order = [SYSTEM_COMMAND0_SUM, SYSTEM_COMMAND1_PRINT, SYSTEM_COMMAND2_GETKEY, SYSTEM_COMMAND3_PUTCHAR,
     SYSTEM_COMMAND4_MALLOC, SYSTEM_COMMAND5_FREE, STSTEM_COMMAND6_PROCESS_LOAD_START, SYSTEM_COMMAND7_INVAKE_SYSTEM_COMMAND,
     SYSTEM_COMMAND8_GET_PROGRAM_ARGUMENT, SYSTEM_COMMAND9_EXIT]"

lemma register_all_fresh:
  assumes "i + length cs \<le> length (isr80h_commands st)" "length (isr80h_commands st) = KERNEL_MAX_ISR80H_COMMANDS"
    and "\<forall>j. i \<le> j \<and> j < i + length cs \<longrightarrow> isr80h_commands st ! j = None"
  shows "register_all st (int i) cs =
    Inr (st\<lparr>isr80h_commands := take i (isr80h_commands st) @ map Some cs @ drop (i + length cs) (isr80h_commands st)\<rparr>)"
  using assms
proof (induction cs arbitrary: i st)
  case (Cons c cs)
  let ?st = "st\<lparr>isr80h_commands := (isr80h_commands st)[i := Some c]\<rparr>"
  have "isr80h_register_command st (int i) c = Inr ?st"
    using Cons.prems by (simp add: isr80h_register_command_def)
  moreover have "register_all ?st (int (Suc i)) cs = Inr (?st\<lparr>isr80h_commands :=
      take (Suc i) (isr80h_commands ?st) @ map Some cs @ drop (Suc i + length cs) (isr80h_commands ?st)\<rparr>)"
    by (rule Cons.IH) (use Cons.prems in auto)
  moreover have "take (Suc i) ((isr80h_commands st)[i := Some c]) = take i (isr80h_commands st) @ [Some c]"
    using Cons.prems(1) by (simp add: take_Suc_conv_app_nth)
  ultimately show ?case by (simp add: add.commute)
qed simp

lemma registered:
  assumes "isr80h_commands st = replicate KERNEL_MAX_ISR80H_COMMANDS None"
  shows "isr80h_register_commands st = Inr (st\<lparr>isr80h_commands := map Some system_call_order @ replicate 1014 None\<rparr>)"
  using register_all_fresh [of 0 system_call_order st] assms
  by (simp add: isr80h_register_commands_def system_call_order_def kconfig)

text \<open>C38: System calls are dispatched by number. With a current task, after \<open>isr80h_register_commands\<close> on the empty table, trap number \<open>n\<close> below
  10 runs the \<open>n\<close>-th call, in the order of \<open>enum SystemCommands\<close>, with the registers of the interrupted task saved
  and the kernel's directory loaded, and then loads the current task's directory again (unless the call resumes a task
  itself); every other number returns 0 to the task, changing only the saved registers and the directory loaded.
  Registering the calls a second time is a panic.\<close>

theorem system_call_dispatch:
  assumes "isr80h_commands st = replicate KERNEL_MAX_ISR80H_COMMANDS None"
    and "current_task st \<noteq> 0" "task_store st (current_task st) = Some t"
  shows "\<exists>st1. isr80h_register_commands st = Inr st1 \<and>
    isr80h_handler ops st1 command frame =
      (if 0 \<le> command \<and> command < 10
       then kbind (run_command ops (system_call_order ! nat command) (trap_state st1 t frame)) (\<lambda>fl.
         case fl of Resumes regs st2 \<Rightarrow> Inr (Resumes regs st2)
         | Returns res st2 \<Rightarrow> kbind (task_page st2) (\<lambda>(r, st3). Inr (Returns res st3)))
       else Inr (Returns 0 (passed_through st1 t frame))) \<and>
    (\<exists>msg. isr80h_register_commands st1 = Inl (Panic msg))"
proof -
  let ?st1 = "st\<lparr>isr80h_commands := map Some system_call_order @ replicate 1014 None\<rparr>"
  have live: "current_task ?st1 \<noteq> 0" "task_store ?st1 (current_task ?st1) = Some t" using assms(2,3) by simp_all
  have len: "length system_call_order = 10" by (simp add: system_call_order_def)
  have c: "isr80h_commands (trap_state ?st1 t frame) = map Some system_call_order @ replicate 1014 None"
    by (simp add: trap_state_def kernel_page_def paging_switch_def)
  have h: "isr80h_handle_command ops (trap_state ?st1 t frame) command =
      (if 0 \<le> command \<and> command < 10 then run_command ops (system_call_order ! nat command) (trap_state ?st1 t frame)
       else Inr (Returns 0 (trap_state ?st1 t frame)))"
    using len unfolding isr80h_handle_command_def c by (auto simp: nth_append kconfig)
  have p: "task_page (trap_state ?st1 t frame) = Inr (0, passed_through ?st1 t frame)"
    using task_page_live [of "trap_state ?st1 t frame"] assms(2) by (simp add: passed_through_def)
  have "isr80h_register_commands ?st1 = Inl (Panic ''Your attempting to overwrite an existing command'')"
    by (simp add: isr80h_register_commands_def isr80h_register_command_def system_call_order_def kconfig)
  with registered [OF assms(1)] h p save_state_trap [OF live] show ?thesis by (auto simp: isr80h_handler_def)
qed

definition blank_frame :: interrupt_frame where
  "blank_frame = \<lparr>fr_edi = 1, fr_esi = 2, fr_ebp = 3, fr_reserved = 0, fr_ebx = 4, fr_edx = 5, fr_ecx = 6, fr_eax = 7, fr_ip = 8, fr_cs = 0x1b,
     fr_flags = 0x200, fr_esp = 0x3FF000, fr_ss = 0x23\<rparr>"

text \<open>One process, running, on a fresh system with empty tables.\<close>

definition sample_kernelst :: "sim_disk kernelst" where
  "sample_kernelst = schedst.extend (with_process boot_schedst 0x7000)
     \<lparr>idt_descriptors = [], idtr_descriptor = \<lparr>idtr_limit = 0, idtr_base = 0\<rparr>,
      isr80h_commands = replicate KERNEL_MAX_ISR80H_COMMANDS None,
      interrupt_callbacks = (replicate KERNEL_TOTAL_INTERRUPTS None)[0x21 := Some CLASSIC_KEYBOARD_HANDLE_INTERRUPT],
      classic = \<lparr>kbd_init = None, kbd_name = ''Classic'', kbd_next = 0, kbd_state = KEYBOARD_CAPS_LOCK_OFF\<rparr>, ports_written = []\<rparr>"

lemma sample_kernelst_fields:
  "current_task sample_kernelst = 0x6000" "current_process sample_kernelst = 0x5000"
  "task_store sample_kernelst 0x6000 = Some (thread_info_zero\<lparr>page_directory := 0x7000, ti_process := 0x5000\<rparr>)"
  "proc_store sample_kernelst 0x5000 = Some sample_proc"
  "isr80h_commands sample_kernelst = replicate KERNEL_MAX_ISR80H_COMMANDS None"
  "length (interrupt_callbacks sample_kernelst) = 256"
  "interrupt_callbacks sample_kernelst ! 0x21 = Some CLASSIC_KEYBOARD_HANDLE_INTERRUPT"
  "kbd_state (classic sample_kernelst) = KEYBOARD_CAPS_LOCK_OFF" "ports_written sample_kernelst = []"
  by (simp_all add: sample_kernelst_def with_process_def schedst.defs kconfig)

theorem system_call_dispatch_witness:
  "\<exists>st1 t. isr80h_register_commands sample_kernelst = Inr st1 \<and>
     isr80h_handler (\<lambda>_. fat16_fs (sim_io sample_img)) st1 99 blank_frame = Inr (Returns 0 (passed_through st1 t blank_frame))"
  using system_call_dispatch [of sample_kernelst "thread_info_zero\<lparr>page_directory := 0x7000, ti_process := 0x5000\<rparr>"
      "\<lambda>_. fat16_fs (sim_io sample_img)" 99 blank_frame] sample_kernelst_fields(1,3,5)
  by auto

text \<open>C37: From the key to the process. With a current task and process and the driver registered, the keyboard interrupt, for the press of a key
  with a scan code below 82 other than caps lock, appends its character (upper case
  exactly when caps lock is on) to the queue of the current process, unless the key has none or the queue is
  full; it saves the registers of the interrupted task, leaves with that task's directory loaded, acknowledges the
  interrupt at port 0x20, and changes nothing else of the process.\<close>

theorem keyboard_interrupt_types_key:
  assumes "length (interrupt_callbacks st) = 256" "interrupt_callbacks st ! 0x21 = Some CLASSIC_KEYBOARD_HANDLE_INTERRUPT"
    and "current_task st \<noteq> 0" "task_store st (current_task st) = Some t"
    and "current_process st \<noteq> 0" "proc_store st (current_process st) = Some p" "buffer_ok (Some (ts_keyboard p))"
    and "scancode AND 0x80 = 0" "scancode \<noteq> 0x3A" "unat scancode < 82"
  shows "\<exists>st' kb. interrupt_handler st 0x21 frame (scancode, dropped) = Inr (Returns 0 st') \<and>
    proc_store st' = (proc_store st)(current_process st \<mapsto> p\<lparr>ts_keyboard := kb\<rparr>) \<and> buffer_ok (Some kb) \<and>
    (let ch = keyboard_scan_set_one ! unat scancode;
         c = (if kbd_state (classic st) = KEYBOARD_CAPS_LOCK_ON \<and> 0x61 \<le> ch \<and> ch \<le> 0x7A then ch - 32 else ch);
         q = buffer_contents (Some (ts_keyboard p))
     in buffer_contents (Some kb) = (if c = 0 \<or> length q = 1024 then q else q @ [c])) \<and>
    task_store st' = (task_store st)(current_task st \<mapsto> t\<lparr>registers := frame_registers frame\<rparr>) \<and>
    current_task st' = current_task st \<and> current_directory st' = load32 (kmem st) (page_directory t) \<and>
    ports_written st' = ports_written st @ [(0x20, 0x20)]"
proof -
  define ch where "ch = keyboard_scan_set_one ! unat scancode"
  define c where "c = (if kbd_state (classic st) = KEYBOARD_CAPS_LOCK_ON \<and> 0x61 \<le> ch \<and> ch \<le> 0x7A then ch - 32 else ch)"
  have len: "length keyboard_scan_set_one = 82" by (simp add: keyboard_scan_set_one_def)
  let ?b = "if c \<noteq> 0 then keyboard_push (Some (ts_keyboard p)) c else Some (ts_keyboard p)"
  have push: "buffer_ok ?b" "buffer_contents ?b = (let q = buffer_contents (Some (ts_keyboard p)) in
      if c = 0 \<or> length q = 1024 then q else q @ [c])"
    using keyboard_push_law [OF assms(7), of c] assms(7) by (auto simp: kconfig Let_def)
  then obtain kb where kb: "?b = Some kb" by (cases ?b) (auto simp: buffer_ok_def)
  let ?s = "trap_state st t frame"
  have fields: "classic ?s = classic st" "ports_written ?s = ports_written st"
    by (simp_all add: trap_state_def kernel_page_def paging_switch_def)
  have tc: "classic_keyboard_scancode_to_char (kbd_state (classic st)) scancode = Inr c"
    using assms(10) len by (simp add: classic_keyboard_scancode_to_char_def c_def ch_def Let_def)
  have irq: "classic_keyboard_handle_interrupt \<lparr>classic_keyboard = classic st, current_buffer = Some (ts_keyboard p)\<rparr> scancode dropped =
      Inr \<lparr>classic_keyboard = classic st, current_buffer = ?b\<rparr>"
    using assms(8,9) tc by (simp add: classic_keyboard_handle_interrupt_def kconfig Let_def)
  define s2 where "s2 = ?s\<lparr>classic := classic st, proc_store := (proc_store st)(current_process st \<mapsto> p\<lparr>ts_keyboard := kb\<rparr>)\<rparr>"
  have cb: "keyboard_callback ?s (scancode, dropped) = Inr s2"
    using assms(5,6) irq kb fields
    by (simp add: keyboard_callback_def process_current_def deref_def upd_proc_def s2_def split del: if_split)
  have "task_page s2 = Inr (0, s2\<lparr>current_directory := load32 (kmem s2) (page_directory t)\<rparr>)"
    using task_page_live [of s2] assms(3) by (simp add: s2_def)
  with cb save_state_trap [OF assms(3,4), of frame] assms(1,2)
  have h: "interrupt_handler st 0x21 frame (scancode, dropped) =
      Inr (Returns 0 (outb (s2\<lparr>current_directory := load32 (kmem s2) (page_directory t)\<rparr>) 0x20 0x20))"
    by (simp add: interrupt_handler_def)
  show ?thesis
    unfolding h ch_def [symmetric] Let_def
    using push kb by (auto simp: outb_def s2_def fields Let_def c_def)
qed

theorem keyboard_interrupt_types_key_witness:
  "\<exists>st' kb. interrupt_handler sample_kernelst 0x21 blank_frame (0x1E, 0) = Inr (Returns 0 st') \<and>
     proc_store st' 0x5000 = Some (sample_proc\<lparr>ts_keyboard := kb\<rparr>) \<and> buffer_contents (Some kb) = [0x61]"
proof -
  have k: "buffer_ok (Some (ts_keyboard sample_proc))" "buffer_contents (Some (ts_keyboard sample_proc)) = []"
    using empty_buffer_ok by (simp_all add: sample_proc_def task_struct_zero_def empty_buffer_def)
  have c: "keyboard_scan_set_one ! 30 = 0x61" by (simp add: keyboard_scan_set_one_def)
  show ?thesis
    using keyboard_interrupt_types_key [of sample_kernelst _ sample_proc "0x1E" blank_frame 0] sample_kernelst_fields k c
    by (auto simp: Let_def)
qed

subsection \<open>Setting up the interrupt table\<close>

lemma idt_set_all_ok:
  "i + n \<le> length tbl \<Longrightarrow> idt_set_all tbl ptrs i n = Inr (take i tbl @ map (\<lambda>j. idt_gate (ptrs j)) [i ..< i + n] @ drop (i + n) tbl)"
proof (induction n arbitrary: i tbl)
  case (Suc n)
  have "idt_set tbl (int i) (ptrs i) = Inr (tbl[i := idt_gate (ptrs i)])" using Suc.prems by (simp add: idt_set_def)
  moreover have "take (Suc i) (tbl[i := idt_gate (ptrs i)]) = take i tbl @ [idt_gate (ptrs i)]"
    using Suc.prems by (simp add: take_Suc_conv_app_nth)
  ultimately show ?case using Suc.IH [of "Suc i" "tbl[i := idt_gate (ptrs i)]"] Suc.prems by (simp add: upt_conv_Cons del: upt_Suc)
qed simp

lemma register_exceptions_ok:
  "i + n \<le> length (interrupt_callbacks st) \<Longrightarrow> length (interrupt_callbacks st) = 256 \<Longrightarrow>
   register_exceptions st i n = st\<lparr>interrupt_callbacks :=
     take i (interrupt_callbacks st) @ replicate n (Some IDT_HANDLE_EXCEPTION) @ drop (i + n) (interrupt_callbacks st)\<rparr>"
proof (induction n arbitrary: i st)
  case (Suc n)
  let ?st = "st\<lparr>interrupt_callbacks := (interrupt_callbacks st)[i := Some IDT_HANDLE_EXCEPTION]\<rparr>"
  have "snd (idt_register_interrupt_callback st (int i) IDT_HANDLE_EXCEPTION) = ?st"
    using Suc.prems by (simp add: idt_register_interrupt_callback_def kconfig)
  moreover have "take (Suc i) ((interrupt_callbacks st)[i := Some IDT_HANDLE_EXCEPTION]) = take i (interrupt_callbacks st) @ [Some IDT_HANDLE_EXCEPTION]"
    using Suc.prems by (simp add: take_Suc_conv_app_nth)
  ultimately show ?case using Suc.IH [of "Suc i" ?st] Suc.prems by simp
qed simp

text \<open>C39: \<open>idt_init\<close> builds the interrupt table: each of the 256 gates, as the processor decodes it, leads to its
  stub (number 0x80 to the system call entry), in the kernel's code segment, open to user mode; the table register
  describes exactly this table; exceptions 0 to 31 get the handler that ends the process, and no other callback changes.\<close>

theorem idt_init_gates:
  assumes "length (interrupt_callbacks st) = 256"
  shows "\<exists>st'. idt_init st ptrs wrapper addr = Inr st' \<and> length (idt_descriptors st') = 256 \<and>
    (\<forall>i < 256. gate_offset (idt_descriptors st' ! i) = (if i = 0x80 then wrapper else ptrs i) \<and>
       idt_selector (idt_descriptors st' ! i) = KERNEL_CODE_SELECTOR \<and> type_attributes (idt_descriptors st' ! i) = 0xEE) \<and>
    idtr_base (idtr_descriptor st') = addr \<and> unat (idtr_limit (idtr_descriptor st')) = 256 * 8 - 1 \<and>
    length (interrupt_callbacks st') = 256 \<and>
    (\<forall>i < 256. interrupt_callbacks st' ! i = (if i < 32 then Some IDT_HANDLE_EXCEPTION else interrupt_callbacks st ! i))"
proof -
  let ?z = "\<lparr>offset_1 = 0, idt_selector = 0, idt_zero = 0, type_attributes = 0, offset_2 = 0\<rparr> :: idt_desc"
  let ?t = "map (\<lambda>j. idt_gate (ptrs j)) [0 ..< 256]"
  have a: "idt_set_all (replicate KERNEL_TOTAL_INTERRUPTS ?z) ptrs 0 KERNEL_TOTAL_INTERRUPTS = Inr ?t"
    using idt_set_all_ok [of 0 256 "replicate 256 ?z" ptrs] by (simp add: kconfig)
  have b: "idt_set ?t 0x80 wrapper = Inr (?t[0x80 := idt_gate wrapper])" by (simp add: idt_set_def)
  define tbl where "tbl = ?t[0x80 := idt_gate wrapper]"
  define st1 where "st1 = st\<lparr>idt_descriptors := tbl, idtr_descriptor := \<lparr>idtr_limit = 8 * of_nat KERNEL_TOTAL_INTERRUPTS - 1, idtr_base = addr\<rparr>\<rparr>"
  have c: "register_exceptions st1 0 0x20 = st1\<lparr>interrupt_callbacks := replicate 32 (Some IDT_HANDLE_EXCEPTION) @ drop 32 (interrupt_callbacks st)\<rparr>"
    using register_exceptions_ok [of 0 32 st1] assms by (simp add: st1_def)
  have i: "idt_init st ptrs wrapper addr = Inr (st1\<lparr>interrupt_callbacks := replicate 32 (Some IDT_HANDLE_EXCEPTION) @ drop 32 (interrupt_callbacks st)\<rparr>)"
    unfolding idt_init_def Let_def a kbind_simps b tbl_def [symmetric] st1_def [symmetric] c ..
  have g: "idt_selector (idt_gate x) = KERNEL_CODE_SELECTOR" "type_attributes (idt_gate x) = 0xEE" for x
    by (simp_all add: idt_gate_def)
  have d: "tbl ! j = idt_gate (if j = 0x80 then wrapper else ptrs j)" if "j < 256" for j
    using that by (auto simp: nth_list_update tbl_def)
  have l: "length tbl = 256" by (simp add: tbl_def)
  have e: "(replicate 32 (Some IDT_HANDLE_EXCEPTION) @ drop 32 (interrupt_callbacks st)) ! j =
      (if j < 32 then Some IDT_HANDLE_EXCEPTION else interrupt_callbacks st ! j)" if "j < 256" for j
    using that assms by (auto simp: nth_append)
  show ?thesis
    unfolding i using d e g l assms by (intro exI conjI) (rule refl, simp_all add: st1_def gate_offset_gate kconfig)
qed

theorem idt_init_gates_witness:
  "\<exists>st'. idt_init sample_kernelst (\<lambda>i. of_nat (0x100000 + 16 * i)) 0x200000 0x300000 = Inr st' \<and>
     gate_offset (idt_descriptors st' ! 0x21) = 0x100210 \<and> gate_offset (idt_descriptors st' ! 0x80) = 0x200000 \<and>
     interrupt_callbacks st' ! 14 = Some IDT_HANDLE_EXCEPTION"
  using idt_init_gates [of sample_kernelst "\<lambda>i. of_nat (0x100000 + 16 * i)" "0x200000" "0x300000"] sample_kernelst_fields(6)
  by fastforce

end
