(* ===== verification/Kernel_Main.thy ===== *)
theory Kernel_Main
  imports Isr80h
begin

unbundle bit_operations_syntax

section \<open>Booting: init/kernel.c\<close>

text \<open>
  \<open>kernel_main\<close> initialises every part in turn, loads \<open>0:/shell.elf\<close> and enters it. Addresses that the
  linker and the assembly supply, the bytes the heap table holds before \<open>kheap_init\<close> and the bytes that
  follow the path literal in the kernel image are arguments. Loading \<open>gdtr\<close>, \<open>idtr\<close>, the task register and
  turning paging on are instructions of the processor with no effect on this state.
\<close>

definition KERNEL_TOTAL_GDT_SEGMENTS :: nat where [kconfig]: "KERNEL_TOTAL_GDT_SEGMENTS = 6"

record 'd bootst = "'d kernelst" +
  gdt_real :: "u8 list list"
  tss_esp0 :: u32
  tss_ss0 :: u32

record boot_params =
  heap_table_bytes :: "u8 list"
  interrupt_pointer_table :: "nat \<Rightarrow> u32"
  isr80h_wrapper :: u32
  idt_descriptors_address :: u32
  tss_address :: u32
  classic_keyboard_address :: u32
  after_literal :: "u8 list"

definition gdt_structured_table :: "u32 \<Rightarrow> gdt_structured list" where
  "gdt_structured_table tss =
     [\<lparr>seg_base = 0, seg_limit = 0, seg_type = 0\<rparr>,
      \<lparr>seg_base = 0, seg_limit = 0xFFFFFFFF, seg_type = 0x9a\<rparr>,
      \<lparr>seg_base = 0, seg_limit = 0xFFFFFFFF, seg_type = 0x92\<rparr>,
      \<lparr>seg_base = 0, seg_limit = 0xFFFFFFFF, seg_type = 0xF8\<rparr>,
      \<lparr>seg_base = 0, seg_limit = 0xFFFFFFFF, seg_type = 0xF2\<rparr>,
      \<lparr>seg_base = tss, seg_limit = 108, seg_type = 0xE9\<rparr>]"

text \<open>\<open>keyboard_init\<close> of keyboard.c on the whole state: the driver's record, the callback table and the ports are what
  \<open>classic_keyboard_init\<close> acts on.\<close>

definition classic_drivers :: "('d, 'a) kernelst_scheme \<Rightarrow> (unit keyboard \<times> ('d, 'a) kernelst_scheme) keyboard_drivers" where
  "classic_drivers st =
     \<lparr>keyboard_list_head = 0, keyboard_list_tail = 0,
      keyboards = (\<lambda>_. \<lparr>kbd_init = Some (classic_keyboard_init
          (\<lambda>i m. snd (idt_register_interrupt_callback m (int i) CLASSIC_KEYBOARD_HANDLE_INTERRUPT)) (\<lambda>p v m. outb m p v)),
        kbd_name = ''Classic'', kbd_next = 0, kbd_state = KEYBOARD_CAPS_LOCK_OFF\<rparr>),
      machine = (classic st, st)\<rparr>"

definition keyboard_init :: "('d, 'a) kernelst_scheme \<Rightarrow> u32 \<Rightarrow> ('d, 'a) kernelst_scheme" where
  "keyboard_init st classic_address =
     (let (res, ds) = keyboard_insert (classic_drivers st) classic_address;
          (kbd, st1) = machine ds
      in st1\<lparr>classic := kbd\<rparr>)"

definition shell_path :: "u8 list" where
  "shell_path = ascii ''0:/shell.elf''"

definition kernel_main :: "(fs_type \<Rightarrow> ('d, 'a) bootst_scheme filesystem_ops) \<Rightarrow> boot_params \<Rightarrow> ('d, 'a) bootst_scheme
      \<Rightarrow> (registers \<times> ('d, 'a) bootst_scheme) kresult" where
  "kernel_main ops params st =
     (let st1 = terminal_initialize st in
      kbind (gdt_structured_to_gdt (gdt_structured_table (tss_address params))) (\<lambda>gdt.
      let st2 = kheap_init (heap_table_bytes params) (st1\<lparr>gdt_real := gdt\<rparr>) in
      kbind (fs_init st2) (\<lambda>st3.
      kbind (disk_search_and_init ops st3) (\<lambda>st4.
      kbind (idt_init st4 (interrupt_pointer_table params) (isr80h_wrapper params) (idt_descriptors_address params)) (\<lambda>st5.
      let st6 = st5\<lparr>tss_esp0 := 0x600000, tss_ss0 := ucast KERNEL_DATA_SELECTOR\<rparr> in
      kbind (paging_new_4gb_chunk st6 (ucast (PAGING_IS_WRITEABLE OR PAGING_IS_PRESENT OR PAGING_ACCESS_FROM_ALL))) (\<lambda>(chunk, st7).
      let st8 = paging_switch (st7\<lparr>kernel_chunk := chunk\<rparr>) chunk;
          st9 = keyboard_init st8 (classic_keyboard_address params) in
      kbind (isr80h_register_commands st9) (\<lambda>st10.
      kbind (process_load_switch ops st10 (Some (shell_path @ after_literal params)) True) (\<lambda>(res, process, st11).
      if res < 0 then Inl (Panic ''Failed to load shell.elf'')
      else task_run_first_ever_task st11))))))))"

end
