(* ===== verification/User_Lib.thy ===== *)
theory User_Lib
  imports Kstring Print "HOL-Library.Signed_Division"
begin

section \<open>The user library: programs/stdlib/src/\{string, memory, stdlib\}.c\<close>

text \<open>
  The C library linked into every user program. Buffers are byte lists as in the kernel's string
  library, and an access outside one is \<open>None\<close>. The functions have the suffix \<open>_u\<close> where the kernel has
  one of the same name: the two libraries were written separately and do not always agree.
\<close>

subsection \<open>string.c\<close>

definition tolower_u :: "u8 \<Rightarrow> u8" where
  "tolower_u s1 = (if sint s1 \<ge> 65 \<and> sint s1 \<le> 90 then s1 + 32 else s1)"

text \<open>The loops run on an index into the buffer.\<close>

function strlen_u_loop :: "u8 list \<Rightarrow> nat \<Rightarrow> nat option" where
  "strlen_u_loop ptr i = (if i < length ptr then if ptr ! i \<noteq> 0 then strlen_u_loop ptr (Suc i) else Some i else None)"
  by pat_completeness auto
termination
  by (relation "measure (\<lambda>(ptr, i). length ptr - i)") auto

definition strlen_u :: "u8 list \<Rightarrow> nat option" where
  "strlen_u ptr = strlen_u_loop ptr 0"

function strnlen_u_loop :: "u8 list \<Rightarrow> nat \<Rightarrow> nat \<Rightarrow> nat option" where
  "strnlen_u_loop ptr n i =
     (if i < n then if i < length ptr then if ptr ! i = 0 then Some i else strnlen_u_loop ptr n (Suc i) else None else Some i)"
  by pat_completeness auto
termination
  by (relation "measure (\<lambda>(ptr, n, i). n - i)") auto

definition strnlen_u :: "u8 list \<Rightarrow> nat \<Rightarrow> nat option" where
  "strnlen_u ptr n = strnlen_u_loop ptr n 0"

function strnlen_terminator_u_loop :: "u8 list \<Rightarrow> nat \<Rightarrow> u8 \<Rightarrow> nat \<Rightarrow> nat option" where
  "strnlen_terminator_u_loop str n t i =
     (if i < n then
        if i < length str then if str ! i = 0 \<or> str ! i = t then Some i else strnlen_terminator_u_loop str n t (Suc i) else None
      else Some i)"
  by pat_completeness auto
termination
  by (relation "measure (\<lambda>(str, n, t, i). n - i)") auto

definition strnlen_terminator_u :: "u8 list \<Rightarrow> nat \<Rightarrow> u8 \<Rightarrow> nat option" where
  "strnlen_terminator_u str n t = strnlen_terminator_u_loop str n t 0"

fun istrncmp_u :: "u8 list \<Rightarrow> u8 list \<Rightarrow> nat \<Rightarrow> int option" where
  "istrncmp_u s1 s2 0 = Some 0"
| "istrncmp_u (u1 # s1) (u2 # s2) (Suc n) =
     (if u1 \<noteq> u2 \<and> tolower_u u1 \<noteq> tolower_u u2 then Some (uint u1 - uint u2)
      else if u1 = 0 then Some 0 else istrncmp_u s1 s2 n)"
| "istrncmp_u s1 s2 (Suc n) = None"

fun strncmp_u :: "u8 list \<Rightarrow> u8 list \<Rightarrow> nat \<Rightarrow> int option" where
  "strncmp_u s1 s2 0 = Some 0"
| "strncmp_u (u1 # s1) (u2 # s2) (Suc n) =
     (if u1 \<noteq> u2 then Some (uint u1 - uint u2) else if u1 = 0 then Some 0 else strncmp_u s1 s2 n)"
| "strncmp_u s1 s2 (Suc n) = None"

fun strcpy_u :: "u8 list \<Rightarrow> u8 list \<Rightarrow> u8 list option" where
  "strcpy_u dest [] = None"
| "strcpy_u [] (c # src) = None"
| "strcpy_u (d # dest) (c # src) = (if c \<noteq> 0 then map_option ((#) c) (strcpy_u dest src) else Some (0 # dest))"

text \<open>The copy loop of \<open>strncpy\<close> runs while \<open>i < count - 1\<close>; the terminator is always written.\<close>

function strncpy_u_loop :: "u8 list \<Rightarrow> u8 list \<Rightarrow> int \<Rightarrow> nat \<Rightarrow> (u8 list \<times> nat) option" where
  "strncpy_u_loop dest src count i =
     (if int i < count - 1 then
        if i < length src then
          if src ! i = 0 then Some (dest, i)
          else if i < length dest then strncpy_u_loop (dest[i := src ! i]) src count (Suc i) else None
        else None
      else Some (dest, i))"
  by pat_completeness auto
termination
  by (relation "measure (\<lambda>(dest, src, count, i). nat count - i)") auto

definition strncpy_u :: "u8 list \<Rightarrow> u8 list \<Rightarrow> int \<Rightarrow> u8 list option" where
  "strncpy_u dest src count =
     (case strncpy_u_loop dest src count 0 of
        None \<Rightarrow> None
      | Some (dest', i) \<Rightarrow> if i < length dest' then Some (dest'[i := 0]) else None)"

definition isdigit_u :: "u8 \<Rightarrow> bool" where
  "isdigit_u c \<longleftrightarrow> sint c \<ge> 48 \<and> sint c \<le> 57"

definition tonumericdigit_u :: "u8 \<Rightarrow> int" where
  "tonumericdigit_u c = sint c - 48"

text \<open>\<open>strtok\<close> on the buffer it walks and modifies. Pointers into it are indices, \<open>sp\<close> is the saved position
  (\<open>None\<close> for NULL). The two loops: skip delimiters, then find the end of the token.\<close>

function strtok_skip :: "u8 list \<Rightarrow> u8 list \<Rightarrow> nat \<Rightarrow> nat option" where
  "strtok_skip buf delimiters p_start =
     (if p_start < length buf then
        if buf ! p_start \<noteq> 0 then
          if buf ! p_start \<in> set delimiters then strtok_skip buf delimiters (Suc p_start) else Some p_start
        else Some p_start
      else None)"
  by pat_completeness auto
termination
  by (relation "measure (\<lambda>(buf, delimiters, p). length buf - p)") auto

function strtok_end :: "u8 list \<Rightarrow> u8 list \<Rightarrow> nat \<Rightarrow> (u8 list \<times> nat) option" where
  "strtok_end buf delimiters sp =
     (if sp < length buf then
        if buf ! sp \<noteq> 0 then
          if buf ! sp \<in> set delimiters then Some (buf[sp := 0], Suc sp) else strtok_end buf delimiters (Suc sp)
        else Some (buf, sp)
      else None)"
  by pat_completeness auto
termination
  by (relation "measure (\<lambda>(buf, delimiters, p). length buf - p)") auto

definition strtok :: "u8 list \<Rightarrow> nat option \<Rightarrow> nat option \<Rightarrow> u8 list option \<Rightarrow> (nat option \<times> u8 list \<times> nat option) option" where
  "strtok buf sp str delimiters =
     (case delimiters of
        None \<Rightarrow> Some (None, buf, sp)
      | Some ds \<Rightarrow>
          (case strlen_u ds of
             None \<Rightarrow> None
           | Some del_len \<Rightarrow>
               if del_len = 0 then Some (None, buf, sp)
               else case (case str of Some s \<Rightarrow> Some s | None \<Rightarrow> sp) of
                   None \<Rightarrow> Some (None, buf, None)
                 | Some p0 \<Rightarrow>
                     (case strtok_skip buf (take del_len ds) p0 of
                        None \<Rightarrow> None
                      | Some p_start \<Rightarrow>
                          if buf ! p_start = 0 then Some (None, buf, None)
                          else (case strtok_end buf (take del_len ds) p_start of
                              None \<Rightarrow> None
                            | Some (buf', sp') \<Rightarrow> Some (Some p_start, buf', Some sp')))))"

declare strlen_u_loop.simps [simp del] strnlen_u_loop.simps [simp del] strnlen_terminator_u_loop.simps [simp del]
  strncpy_u_loop.simps [simp del] strtok_skip.simps [simp del] strtok_end.simps [simp del]

subsection \<open>memory.c\<close>

fun memset_u :: "u8 list \<Rightarrow> u8 \<Rightarrow> nat \<Rightarrow> u8 list option" where
  "memset_u p c 0 = Some p"
| "memset_u [] c (Suc n) = None"
| "memset_u (b # bs) c (Suc n) = map_option ((#) c) (memset_u bs c n)"

fun memcmp_u :: "u8 list \<Rightarrow> u8 list \<Rightarrow> nat \<Rightarrow> int option" where
  "memcmp_u s1 s2 0 = Some 0"
| "memcmp_u (a # s1) (b # s2) (Suc n) = (if a \<noteq> b then Some (if sint a < sint b then - 1 else 1) else memcmp_u s1 s2 n)"
| "memcmp_u s1 s2 (Suc n) = None"

fun memcpy_u :: "u8 list \<Rightarrow> u8 list \<Rightarrow> nat \<Rightarrow> u8 list option" where
  "memcpy_u dest src 0 = Some dest"
| "memcpy_u (d # dest) (s # src) (Suc n) = map_option ((#) s) (memcpy_u dest src n)"
| "memcpy_u dest src (Suc n) = None"

subsection \<open>stdlib.c\<close>

text \<open>The digit loop of \<open>itoa\<close> on its static buffer, from the right; C's \<open>%\<close> and \<open>/\<close> round towards zero. \<open>loc\<close> going
  below 0 would be an access before the buffer.\<close>

function itoa_digits :: "u8 list \<Rightarrow> nat \<Rightarrow> int \<Rightarrow> (u8 list \<times> nat) option" where
  "itoa_digits txt loc val =
     (if val = 0 then Some (txt, loc)
      else if loc = 0 then None
      else itoa_digits (txt[loc - 1 := word_of_int (48 + val smod 10)]) (loc - 1) (val sdiv 10))"
  by pat_completeness auto
termination
  by (relation "measure (\<lambda>(txt, loc, val). loc)") auto

declare itoa_digits.simps [simp del]

text \<open>The result is the buffer and the index the returned pointer designates; \<open>-val\<close> wraps at the least integer.\<close>

definition itoa :: "u8 list \<Rightarrow> u32 \<Rightarrow> (u8 list \<times> nat) option" where
  "itoa txt val =
     (let neg = sint val < 0;
          v = (if neg then sint (- val) else sint val) in
      case itoa_digits (txt[11 := 0]) 11 v of
        None \<Rightarrow> None
      | Some (txt1, loc) \<Rightarrow>
          (let (txt2, loc2) = (if loc = 11 then (txt1[loc - 1 := 48], loc - 1) else (txt1, loc)) in
           if neg then if loc2 = 0 then None else Some (txt2[loc2 - 1 := 45], loc2 - 1)
           else Some (txt2, loc2)))"

subsection \<open>Agreement with the kernel's library\<close>

lemma strlen_u_loop_eq: "strlen_u_loop ptr i = map_option ((+) i) (strlen (drop i ptr))"
proof (induction ptr i rule: strlen_u_loop.induct)
  case (1 ptr i)
  then show ?case
    by (cases "i < length ptr")
      (auto simp: strlen_u_loop.simps [of ptr i] Cons_nth_drop_Suc [symmetric] option.map_comp comp_def)
qed

lemma strlen_u_eq: "strlen_u ptr = strlen ptr"
  by (cases "strlen ptr") (simp_all add: strlen_u_def strlen_u_loop_eq)

lemma strnlen_u_loop_eq: "i \<le> n \<Longrightarrow> strnlen_u_loop ptr n i = map_option ((+) i) (strnlen (drop i ptr) (n - i))"
proof (induction ptr n i rule: strnlen_u_loop.induct)
  case (1 ptr n i)
  show ?case
  proof (cases "i < n")
    case True
    then obtain m where m: "n - i = Suc m" "n - Suc i = m" by (cases "n - i") auto
    with 1 True show ?thesis
      by (cases "i < length ptr")
        (auto simp: strnlen_u_loop.simps [of ptr n i] Cons_nth_drop_Suc [symmetric] option.map_comp comp_def)
  qed (use 1 in \<open>simp add: strnlen_u_loop.simps [of ptr n n]\<close>)
qed

lemma strnlen_terminator_u_loop_eq:
  "i \<le> n \<Longrightarrow> strnlen_terminator_u_loop s n t i = map_option ((+) i) (strnlen_terminator (drop i s) (n - i) t)"
proof (induction s n t i rule: strnlen_terminator_u_loop.induct)
  case (1 s n t i)
  show ?case
  proof (cases "i < n")
    case True
    then obtain m where m: "n - i = Suc m" "n - Suc i = m" by (cases "n - i") auto
    with 1 True show ?thesis
      by (cases "i < length s")
        (auto simp: strnlen_terminator_u_loop.simps [of s n t i] Cons_nth_drop_Suc [symmetric] option.map_comp comp_def)
  qed (use 1 in \<open>simp add: strnlen_terminator_u_loop.simps [of s n t n]\<close>)
qed

lemma map_plus_zero [simp]: "map_option ((+) (0 :: nat)) x = x"
  by (cases x) auto

lemma tolower_u_eq: "tolower_u c = tolower c"
  by (simp add: tolower_u_def tolower_def)

lemma uint_u8_eq_iff [simp]: "uint (a :: u8) = uint b \<longleftrightarrow> a = b" "uint (a :: u8) = 0 \<longleftrightarrow> a = 0"
  by (simp_all add: word_uint_eq_iff)

lemma strncmp_u_sim: "rel_option (\<lambda>a b. a = 0 \<longleftrightarrow> b = 0) (strncmp_u s1 s2 n) (strncmp s1 s2 n)"
  by (induction s1 s2 n rule: strncmp_u.induct) auto

lemma istrncmp_u_sim: "rel_option (\<lambda>a b. a = 0 \<longleftrightarrow> b = 0) (istrncmp_u s1 s2 n) (istrncmp s1 s2 n)"
  by (induction s1 s2 n rule: istrncmp_u.induct) (auto simp: Let_def tolower_u_eq)

lemma memset_u_eq: "memset_u p c n = memset p c n"
  by (induction p c n rule: memset_u.induct) auto

lemma memcmp_u_eq: "memcmp_u s1 s2 n = memcmp s1 s2 n"
  by (induction s1 s2 n rule: memcmp_u.induct) auto

lemma memcpy_u_eq: "memcpy_u d s n = memcpy d s n"
  by (induction d s n rule: memcpy_u.induct) auto

lemma strcpy_u_eq: "strcpy_u d s = strcpy d s"
  by (induction d s rule: strcpy_u.induct) auto


subsection \<open>Copying with a bound\<close>

lemma strncpy_u_loop_eq:
  assumes "i \<le> strncpy_count src m" "is_cstr src" "strncpy_count src m \<le> length dest"
  shows "strncpy_u_loop dest src (int m + 1) i =
    Some (take i dest @ drop i (take (strncpy_count src m) src) @ drop (strncpy_count src m) dest, strncpy_count src m)"
  using assms
proof (induction dest src "int m + 1" i rule: strncpy_u_loop.induct)
  case (1 dest src i)
  let ?k = "strncpy_count src m"
  show ?case
  proof (cases "i < ?k")
    case True
    then have i: "i < m" "i < length src" "src ! i \<noteq> 0" and k: "?k \<le> length src"
      using nth_cstr [of i src] length_cstr_le [of src] by (auto simp: strncpy_count_def)
    have dst: "i < length dest" using True 1 by simp
    have "strncpy_u_loop dest src (int m + 1) i = Some (take (Suc i) (dest[i := src ! i]) @ drop (Suc i) (take ?k src)
            @ drop ?k (dest[i := src ! i]), ?k)"
      using 1 i dst True by (simp add: strncpy_u_loop.simps [of dest src "int m + 1" i])
    moreover have "take (Suc i) (dest[i := src ! i]) = take i dest @ [src ! i]"
      using dst by (simp add: take_Suc_conv_app_nth)
    moreover have "drop i (take ?k src) = src ! i # drop (Suc i) (take ?k src)"
      using True k by (simp add: Cons_nth_drop_Suc [symmetric])
    ultimately show ?thesis using True by simp
  next
    case False
    with 1 have i: "i = ?k" by simp
    have "i < m \<Longrightarrow> i < length src \<and> src ! i = 0"
      using i 1 nth_cstr_end [of src] is_cstr_less [of src] by (auto simp: strncpy_count_def min_def split: if_splits)
    then show ?thesis using i by (subst strncpy_u_loop.simps) auto
  qed
qed

lemma strncpy_u_eq:
  assumes "is_cstr src" "strncpy_count src m < length dest"
  shows "strncpy_u dest src (int m + 1) = Some (take m (cstr src) @ 0 # drop (Suc (strncpy_count src m)) dest)"
proof -
  let ?k = "strncpy_count src m"
  have k: "?k \<le> length src" using length_cstr_le [of src] by (auto simp: strncpy_count_def)
  have "(take ?k src @ drop ?k dest)[?k := 0] = take ?k src @ 0 # drop (Suc ?k) dest"
    using assms(2) k by (simp add: list_update_append Cons_nth_drop_Suc [symmetric])
  then show ?thesis
    using strncpy_u_loop_eq [of 0 src m dest] assms k by (simp add: strncpy_u_def take_count [symmetric])
qed

lemma strncpy_u_bounded:
  assumes "is_cstr src" "0 < count" "count \<le> length dest"
  shows "\<exists>dest'. strncpy_u dest src (int count) = Some dest' \<and> length dest' = length dest \<and> is_cstr dest' \<and>
    cstr dest' = take (count - 1) (cstr src) \<and> drop count dest' = drop count dest"
proof -
  obtain m where m: "count = Suc m" using assms(2) by (cases count) auto
  have k: "strncpy_count src m \<le> m" by (simp add: strncpy_count_def)
  have n: "0 \<notin> set (take m (cstr src))" using cstr_nonzero [of src] by (auto dest: in_set_takeD)
  have l: "length (take m (cstr src)) = strncpy_count src m" by (simp add: strncpy_count_def)
  show ?thesis
    using strncpy_u_eq [of src m dest] assms(1,3) m k n l
    by (simp add: add.commute drop_Cons' min_def split: if_splits)
qed

text \<open>The user library's \<open>strncpy\<close>, unlike the kernel's, keeps to its bound: with a terminated source and a
  destination of at least \<open>count\<close> bytes it never writes outside, and the result is always terminated and holds the
  first \<open>count - 1\<close> characters of the source.\<close>

lemma user_strncpy_bounded:
  assumes "is_cstr src" "0 < count" "count \<le> length dest"
  shows "\<exists>dest'. strncpy_u dest src (int count) = Some dest' \<and> length dest' = length dest \<and> is_cstr dest' \<and>
    cstr dest' = take (count - 1) (cstr src) \<and> drop count dest' = drop count dest"
  by (rule strncpy_u_bounded [OF assms])

lemma user_strncpy_bounded_witness:
  "\<exists>dest'. strncpy_u [1, 1, 1] [0x61, 0x62, 0x63, 0] 3 = Some dest' \<and> length dest' = 3 \<and> cstr dest' = [0x61, 0x62]"
  using user_strncpy_bounded [of "[0x61, 0x62, 0x63, 0]" 3 "[1, 1, 1]"] by auto

subsection \<open>Printing integers\<close>

lemma digit_char_ascii: "d < 10 \<Longrightarrow> 48 + word_of_nat d = digit_char d"
proof -
  have "\<forall>d \<in> set [0 ..< 10]. 48 + word_of_nat d = digit_char d" by code_simp
  then show "d < 10 \<Longrightarrow> ?thesis" by simp
qed

lemma itoa_digits_eq:
  "length (digits 10 n) \<le> loc \<Longrightarrow> loc \<le> length buf \<Longrightarrow>
   itoa_digits buf loc (int n) = Some (take (loc - length (digits 10 n)) buf @ rev (map digit_char (digits 10 n)) @ drop loc buf,
     loc - length (digits 10 n))"
proof (induction n arbitrary: loc buf rule: less_induct)
  case (less n)
  show ?case
  proof (cases "n = 0")
    case True
    then show ?thesis using less.prems by (simp add: itoa_digits.simps [of buf loc 0] digits.simps [of 10 0])
  next
    case False
    let ?d = "digit_char (n mod 10)" and ?ds = "digits 10 (n div 10)"
    have ds: "digits 10 n = n mod 10 # ?ds" using False by (simp add: digits.simps [of 10 n])
    with less obtain l where l: "loc = Suc l" "length ?ds \<le> l" "l < length buf" by (cases loc) auto
    have c: "int n smod 10 = int (n mod 10)" "int n sdiv 10 = int (n div 10)"
      using False by (simp_all add: signed_modulo_int_def signed_divide_int_def zmod_int zdiv_int)
    have "itoa_digits buf loc (int n) = itoa_digits (buf[l := ?d]) l (int (n div 10))"
      using False l by (subst itoa_digits.simps) (simp add: c digit_char_ascii)
    also have "\<dots> = Some (take (l - length ?ds) (buf[l := ?d]) @ rev (map digit_char ?ds) @ drop l (buf[l := ?d]), l - length ?ds)"
      using less.IH [of "n div 10" l "buf[l := ?d]"] False l by simp
    finally show ?thesis using l by (simp add: ds drop_update_cancel upd_conv_take_nth_drop)
  qed
qed

text \<open>What a reader makes of a signed decimal number.\<close>

fun int_value :: "u8 list \<Rightarrow> int" where
  "int_value [] = 0"
| "int_value (c # cs) = (if c = 45 then - int (string_value 10 cs) else int (string_value 10 (c # cs)))"

lemma digit_char_no_sign: "d < 10 \<Longrightarrow> digit_char d \<noteq> 45 \<and> digit_char d \<noteq> 0"
proof -
  have "\<forall>d \<in> set [0 ..< 10]. digit_char d \<noteq> 45 \<and> digit_char d \<noteq> 0" by code_simp
  then show "d < 10 \<Longrightarrow> ?thesis" by simp
qed

definition decimal :: "nat \<Rightarrow> u8 list" where
  "decimal n = (if n = 0 then [48] else rev (map digit_char (digits 10 n)))"

lemma decimal_value: "string_value 10 (decimal n) = n" "0 \<notin> set (decimal n)" "45 \<notin> set (decimal n)" "decimal n \<noteq> []"
proof -
  show "string_value 10 (decimal n) = n"
    using string_value_digits [of 10 n] by (simp add: decimal_def string_value_def digit_value_def)
  have "\<forall>c \<in> set (decimal n). c \<noteq> 0 \<and> c \<noteq> 45"
    using digits_less [of 10 _ n] digit_char_no_sign by (auto simp: decimal_def)
  then show "0 \<notin> set (decimal n)" "45 \<notin> set (decimal n)" by auto
  show "decimal n \<noteq> []" by (simp add: decimal_def digits.simps [of 10 n])
qed

lemma int_value_decimal: "int_value (decimal n) = int n" "int_value (45 # decimal n) = - int n"
proof -
  obtain c cs where c: "decimal n = c # cs" using decimal_value(4) [of n] by (cases "decimal n") auto
  moreover have "c \<noteq> 45" using decimal_value(3) [of n] c by auto
  ultimately show "int_value (decimal n) = int n" using decimal_value(1) [of n] by simp
  show "int_value (45 # decimal n) = - int n" by (simp add: decimal_value)
qed

lemma drop_last_update: "length buf = Suc n \<Longrightarrow> drop n (buf[n := x]) = [x]"
  by (simp add: upd_conv_take_nth_drop)

lemma itoa_body:
  assumes "length buf = 12" "n < 2 ^ 31"
  obtains buf' loc where "itoa_digits (buf[11 := 0]) 11 (int n) = Some (buf', loc)" "1 \<le> loc" "loc \<le> 11" "length buf' = 12"
    "loc = 11 \<longleftrightarrow> n = 0" "drop loc buf' = (if n = 0 then [] else decimal n) @ [0]"
proof -
  have "n < 10 ^ 10" using assms(2) by simp
  then have k: "length (digits 10 n) \<le> 10" by (rule length_digits [rotated]) simp
  have z: "digits 10 n = [] \<longleftrightarrow> n = 0" by (simp add: digits.simps [of 10 n])
  then have z': "11 - length (digits 10 n) = 11 \<longleftrightarrow> n = 0" by (cases "digits 10 n") auto
  show ?thesis
    by (rule that [OF itoa_digits_eq])
      (use k z z' assms(1) drop_last_update [of buf 11 0] in \<open>auto simp: decimal_def\<close>)
qed

lemma sint_neg_word: "(val :: u32) \<noteq> 0x80000000 \<Longrightarrow> sint (- val) = - sint val"
proof -
  assume "val \<noteq> 0x80000000"
  then have "sint val \<noteq> sint (0x80000000 :: u32)" by (metis signed_word_eqI)
  moreover have "- 2147483648 \<le> sint val" "sint val < 2147483648" using sint_ge [of val] sint_lt [of val] by simp_all
  ultimately show "sint (- val) = - sint val" by (simp add: sint_word_ariths signed_take_bit_int_eq_self)
qed

text \<open>\<open>itoa\<close> writes the decimal representation: for every 32-bit integer except the least one (whose negation
  overflows), it stays inside its static buffer of 12 bytes, and the string it returns reads as the number,
  sign included.\<close>

lemma itoa_value:
  assumes "length buf = 12" "val \<noteq> 0x80000000"
  shows "\<exists>buf' loc. itoa buf val = Some (buf', loc) \<and> length buf' = 12 \<and> loc < 12 \<and> is_cstr (drop loc buf') \<and>
    int_value (cstr (drop loc buf')) = sint val"
proof -
  define neg where "neg \<longleftrightarrow> sint val < 0"
  define v where "v = (if neg then sint (- val) else sint val)"
  have "sint val \<noteq> sint (0x80000000 :: u32)" using assms(2) by (metis signed_word_eqI)
  then have v: "0 \<le> v" "v < 2 ^ 31" "sint val = (if neg then - v else v)" "neg \<Longrightarrow> v \<noteq> 0"
    using sint_neg_word [OF assms(2)] sint_lt [of val] sint_ge [of val] by (auto simp: v_def neg_def)
  let ?t = "if nat v = 0 then [48] else decimal (nat v)"
  obtain buf1 loc where d: "itoa_digits (buf[11 := 0]) 11 (int (nat v)) = Some (buf1, loc)" "1 \<le> loc" "loc \<le> 11" "length buf1 = 12"
    "loc = 11 \<longleftrightarrow> nat v = 0" "drop loc buf1 = (if nat v = 0 then [] else decimal (nat v)) @ [0]"
    by (rule itoa_body [of buf "nat v"]) (use assms(1) v in simp_all)
  define buf2 loc2 where "buf2 = (if loc = 11 then buf1[10 := 48] else buf1)" "loc2 = (if loc = 11 then 10 else loc)"
  have u: "drop loc2 buf2 = decimal (nat v) @ [0]" "length buf2 = 12" "1 \<le> loc2" "loc2 \<le> 10"
    using d by (auto simp: buf2_loc2_def decimal_def upd_conv_take_nth_drop)
  have i: "itoa buf val = (if neg then Some (buf2[loc2 - 1 := 45], loc2 - 1) else Some (buf2, loc2))"
    unfolding itoa_def Let_def using d(1) v(1) u(3) by (auto simp: neg_def [symmetric] v_def [symmetric] buf2_loc2_def)
  have "drop (loc2 - 1) (buf2[loc2 - 1 := 45]) = 45 # decimal (nat v) @ [0]"
    using u(1,2,3,4) by (simp add: upd_conv_take_nth_drop)
  then show ?thesis
    using i u v decimal_value(2) [of "nat v"] int_value_decimal [of "nat v"] cstr_append [of "45 # decimal (nat v)" "[]"] cstr_append [of "decimal (nat v)" "[]"]
    by (cases neg) (auto simp: is_cstr_def)
qed

lemma itoa_value_witness:
  "\<exists>buf' loc. itoa (replicate 12 0) (- 1234) = Some (buf', loc) \<and> int_value (cstr (drop loc buf')) = - 1234"
  using itoa_value [of "replicate 12 0" "- 1234"] by auto

text \<open>For the least integer, where the negation wraps on the machine, the characters are not digits: \<open>-./,),(-*,(\<close>.\<close>

lemma itoa_least:
  "map_option (\<lambda>(b, l). drop l b) (itoa (replicate 12 0) 0x80000000) = Some (map of_char ''-./,),(-*,('' @ [0])"
  by code_simp

end
