(* ===== verification/User_Programs.thy ===== *)
theory User_Programs
  imports User_Lib Isr80h
begin

section \<open>User programs: stdlib kernel.c, stdio.c, start.c, the shell and blank\<close>

text \<open>
  What runs in user mode above the system calls. The calls themselves (the assembly stubs of kernel.asm
  around \<open>int 0x80\<close>) are the fields of \<open>syscalls\<close>, acting on the rest of the machine \<open>'w\<close>. A user program's
  own state is \<open>ustate\<close>: the \<open>struct command_argument\<close> objects it allocated, by address, and the static
  buffer of \<open>itoa\<close>. Local arrays that the code does not initialise are arguments.
\<close>

record command_argument =
  ca_argument :: "u8 list"
  ca_next :: u32

record 'w syscalls =
  sys_print :: "u8 list \<Rightarrow> 'w \<Rightarrow> 'w"
  sys_getkey :: "'w \<Rightarrow> int \<times> 'w"
  sys_putchar :: "u8 \<Rightarrow> 'w \<Rightarrow> 'w"
  sys_malloc :: "u32 \<Rightarrow> 'w \<Rightarrow> u32 \<times> 'w"
  sys_free :: "u32 \<Rightarrow> 'w \<Rightarrow> 'w"
  sys_system :: "u32 \<Rightarrow> (u32 \<rightharpoonup> command_argument) \<Rightarrow> 'w \<Rightarrow> int \<times> 'w"
  sys_exit :: "int \<Rightarrow> 'w \<Rightarrow> 'w"

record 'w ustate =
  world :: 'w
  arguments :: "u32 \<rightharpoonup> command_argument"
  itoa_text :: "u8 list"

text \<open>\<open>malloc\<close> and \<open>free\<close> of stdlib.c.\<close>

definition malloc_u :: "'w syscalls \<Rightarrow> u32 \<Rightarrow> 'w ustate \<Rightarrow> u32 \<times> 'w ustate" where
  "malloc_u sys sz st = (let (p, w) = sys_malloc sys sz (world st) in (p, st\<lparr>world := w\<rparr>))"

definition free_u :: "'w syscalls \<Rightarrow> u32 \<Rightarrow> 'w ustate \<Rightarrow> 'w ustate" where
  "free_u sys ptr st = st\<lparr>world := sys_free sys ptr (world st)\<rparr>"

subsection \<open>Tokens always make progress\<close>

lemma strtok_skip_le: "strtok_skip buf ds p = Some q \<Longrightarrow> p \<le> q \<and> q < length buf"
  by (induction buf ds p rule: strtok_skip.induct) (subst (asm) (2) strtok_skip.simps, auto split: if_splits)

lemma strtok_end_gt:
  "strtok_end buf ds p = Some (buf', q) \<Longrightarrow> p \<le> q \<and> q \<le> length buf \<and> length buf' = length buf"
  by (induction buf ds p rule: strtok_end.induct) (subst (asm) (2) strtok_end.simps, auto split: if_splits)

lemma strtok_end_progress:
  assumes "strtok_end buf ds p = Some (buf', q)" "p < length buf" "buf ! p \<noteq> 0"
  shows "p < q"
proof (cases "buf ! p \<in> set ds")
  case True
  with assms show ?thesis by (subst (asm) strtok_end.simps) simp
next
  case False
  with assms have e: "strtok_end buf ds (Suc p) = Some (buf', q)" by (subst (asm) strtok_end.simps) simp
  from strtok_end_gt [OF e] show ?thesis by simp
qed

lemma strtok_next:
  assumes "strtok buf (Some p) None ds = Some (Some t, buf', sp')"
  shows "\<exists>q. sp' = Some q \<and> p < q \<and> q \<le> length buf \<and> length buf' = length buf"
proof -
  from assms obtain d n where d: "ds = Some d" "strlen_u d = Some n" "strtok_skip buf (take n d) p = Some t"
    "buf ! t \<noteq> 0" and e: "\<exists>q. strtok_end buf (take n d) t = Some (buf', q) \<and> sp' = Some q"
    by (auto simp: strtok_def split: option.splits if_splits)
  from e obtain q where q: "strtok_end buf (take n d) t = Some (buf', q)" "sp' = Some q" by blast
  have t: "p \<le> t" "t < length buf" using strtok_skip_le [OF d(3)] by auto
  from strtok_end_gt [OF q(1)] strtok_end_progress [OF q(1) t(2) d(4)] q(2) t(1) show ?thesis by auto
qed

lemma strtok_none: "strtok buf None None ds = Some (t, buf', sp') \<Longrightarrow> t = None"
  by (auto simp: strtok_def split: option.splits if_splits)

subsection \<open>kernel.c\<close>

definition space :: "u8 list option" where
  "space = Some [32, 0]"

text \<open>A fresh \<open>struct command_argument\<close> with the token at \<open>t\<close>; the memory of \<open>kernel_malloc\<close> is cleared.\<close>

definition new_argument :: "u8 list \<Rightarrow> nat \<Rightarrow> command_argument kresult" where
  "new_argument buf t =
     (case strncpy_u (replicate 512 0) (drop t buf) 512 of
        None \<Rightarrow> Inl OutOfBounds | Some a \<Rightarrow> Inr \<lparr>ca_argument = a, ca_next = 0\<rparr>)"

function parse_loop :: "'w syscalls \<Rightarrow> 'w ustate \<Rightarrow> u32 \<Rightarrow> nat option \<Rightarrow> u8 list \<Rightarrow> nat option \<Rightarrow> 'w ustate kresult" where
  "parse_loop sys st current token buf sp =
     (case token of
        None \<Rightarrow> Inr st
      | Some t \<Rightarrow>
          (let (p, w) = sys_malloc sys 516 (world st) in
           if p = 0 then Inr (st\<lparr>world := w\<rparr>)
           else kbind (new_argument buf t) (\<lambda>a.
             case arguments st current of
               None \<Rightarrow> Inl OutOfBounds
             | Some c \<Rightarrow>
                 (case strtok buf sp None space of
                    None \<Rightarrow> Inl OutOfBounds
                  | Some (token', buf', sp') \<Rightarrow>
                      parse_loop sys (st\<lparr>world := w, arguments := (arguments st)(p \<mapsto> a, current \<mapsto> c\<lparr>ca_next := p\<rparr>)\<rparr>)
                        p token' buf' sp'))))"
  by pat_completeness auto
termination
proof (relation "measure (\<lambda>(sys, st, current, token, buf, sp).
    case token of None \<Rightarrow> 0 | Some t \<Rightarrow> Suc (case sp of None \<Rightarrow> 0 | Some p \<Rightarrow> length buf + 1 - p))", goal_cases)
  case (2 sys st current token buf sp t)
  then show ?case
    by (cases sp) (auto split: option.splits dest!: strtok_next dest: strtok_none)
qed simp

declare parse_loop.simps [simp del]

definition kernel_parse_command :: "'w syscalls \<Rightarrow> 'w ustate \<Rightarrow> u8 list \<Rightarrow> u8 list \<Rightarrow> int \<Rightarrow> (u32 \<times> 'w ustate) kresult" where
  "kernel_parse_command sys st scommand command max_len =
     (if max_len \<ge> 1025 then Inr (0, st)
      else case strncpy_u scommand command 1025 of
        None \<Rightarrow> Inl OutOfBounds
      | Some buf \<Rightarrow>
          (case strtok buf None (Some 0) space of
             None \<Rightarrow> Inl OutOfBounds
           | Some (token, buf1, sp) \<Rightarrow>
               (case token of
                  None \<Rightarrow> Inr (0, st)
                | Some t \<Rightarrow>
                    (let (root, w) = sys_malloc sys 516 (world st) in
                     if root = 0 then Inr (0, st\<lparr>world := w\<rparr>)
                     else kbind (new_argument buf1 t) (\<lambda>a.
                       case strtok buf1 sp None space of
                         None \<Rightarrow> Inl OutOfBounds
                       | Some (token', buf2, sp') \<Rightarrow>
                           kbind (parse_loop sys (st\<lparr>world := w, arguments := (arguments st)(root \<mapsto> a)\<rparr>) root token' buf2 sp') (\<lambda>st1.
                           Inr (root, st1)))))))"

partial_function (option) kernel_getkeyblock :: "'w syscalls \<Rightarrow> 'w \<Rightarrow> (int \<times> 'w) option" where
  "kernel_getkeyblock sys w = (let (val, w1) = sys_getkey sys w in if val = 0 then kernel_getkeyblock sys w1 else Some (val, w1))"

text \<open>\<open>out\<close> is the caller's buffer, \<open>i\<close> the number of characters in it.\<close>

partial_function (option) readline_loop :: "'w syscalls \<Rightarrow> 'w \<Rightarrow> u8 list \<Rightarrow> nat \<Rightarrow> bool \<Rightarrow> nat \<Rightarrow> (u8 list \<times> nat \<times> 'w) kresult option" where
  "readline_loop sys w out max_len echo i =
     (if i < max_len then
        case kernel_getkeyblock sys w of
          None \<Rightarrow> None
        | Some (key, w1) \<Rightarrow>
            if key = 13 then Some (Inr (out, i, w1))
            else if key = 8 then
              (let w2 = (if i \<ge> 1 \<and> echo then sys_putchar sys 8 w1 else w1);
                   j = (if i = 0 then 0 else i - 1)
               in if j < length out then readline_loop sys w2 (out[j := 0]) max_len echo j else Some (Inl OutOfBounds))
            else
              (let w2 = (if echo then sys_putchar sys (word_of_int key) w1 else w1)
               in if i < length out then readline_loop sys w2 (out[i := word_of_int key]) max_len echo (Suc i) else Some (Inl OutOfBounds))
      else Some (Inr (out, i, w)))"

definition kernel_terminal_readline :: "'w syscalls \<Rightarrow> 'w \<Rightarrow> u8 list \<Rightarrow> nat \<Rightarrow> bool \<Rightarrow> (u8 list \<times> 'w) kresult option" where
  "kernel_terminal_readline sys w out max_len echo =
     (case readline_loop sys w out max_len echo 0 of
        None \<Rightarrow> None
      | Some r \<Rightarrow> Some (kbind r (\<lambda>(out1, i, w1). if i < length out1 then Inr (out1[i := 0], w1) else Inl OutOfBounds)))"

definition kernel_system_run :: "'w syscalls \<Rightarrow> 'w ustate \<Rightarrow> u8 list \<Rightarrow> u8 list \<Rightarrow> u8 list \<Rightarrow> (int \<times> 'w ustate) kresult" where
  "kernel_system_run sys st buf scommand command =
     (case strncpy_u buf command 1024 of
        None \<Rightarrow> Inl OutOfBounds
      | Some buf1 \<Rightarrow>
          kbind (kernel_parse_command sys st scommand buf1 1024) (\<lambda>(root, st1).
          if root = 0 then Inr (- 1, st1)
          else let (res, w) = sys_system sys root (arguments st1) (world st1) in Inr (res, st1\<lparr>world := w\<rparr>)))"

subsection \<open>stdio.c\<close>

definition putchar :: "'w syscalls \<Rightarrow> 'w ustate \<Rightarrow> u8 \<Rightarrow> 'w ustate" where
  "putchar sys st c = st\<lparr>world := sys_putchar sys c (world st)\<rparr>"

datatype vararg = VInt u32 | VStr "u8 list"

text \<open>The loop of \<open>printf\<close> over the format; an argument that is missing or of another type is undefined, and so
  is what follows the terminator, which a format ending in \<open>%\<close> reaches.\<close>

fun printf_loop :: "'w syscalls \<Rightarrow> 'w ustate \<Rightarrow> u8 list \<Rightarrow> vararg list \<Rightarrow> 'w ustate kresult" where
  "printf_loop sys st [] ap = Inl OutOfBounds"
| "printf_loop sys st [c] ap =
     (if c = 0 then Inr st else if c \<noteq> 37 then printf_loop sys (putchar sys st c) [] ap else Inl OutOfBounds)"
| "printf_loop sys st (c # d # cs) ap =
     (if c = 0 then Inr st
      else if c \<noteq> 37 then printf_loop sys (putchar sys st c) (d # cs) ap
      else if d = 105 then
        (case ap of
           VInt ival # ap' \<Rightarrow>
             (case itoa (itoa_text st) ival of
                None \<Rightarrow> Inl OutOfBounds
              | Some (txt, loc) \<Rightarrow>
                  printf_loop sys (st\<lparr>itoa_text := txt, world := sys_print sys (drop loc txt) (world st)\<rparr>) cs ap')
         | _ \<Rightarrow> Inl OutOfBounds)
      else if d = 115 then
        (case ap of
           VStr sval # ap' \<Rightarrow> printf_loop sys (st\<lparr>world := sys_print sys sval (world st)\<rparr>) cs ap'
         | _ \<Rightarrow> Inl OutOfBounds)
      else printf_loop sys (putchar sys (putchar sys st 37) d) cs ap)"

definition printf :: "'w syscalls \<Rightarrow> 'w ustate \<Rightarrow> u8 list \<Rightarrow> vararg list \<Rightarrow> (int \<times> 'w ustate) kresult" where
  "printf sys st fmt ap = kbind (printf_loop sys st fmt ap) (\<lambda>st1. Inr (0, st1))"

subsection \<open>start.c, shell.c, blank.c\<close>

text \<open>\<open>c_start\<close> with the program's \<open>main\<close> and the arguments that \<open>kernel_process_get_argument\<close> delivers.\<close>

definition c_start :: "'w syscalls \<Rightarrow> (u8 list list \<Rightarrow> 'w ustate \<Rightarrow> (int \<times> 'w ustate) kresult) \<Rightarrow> u8 list list \<Rightarrow> 'w ustate \<Rightarrow> 'w ustate kresult" where
  "c_start sys main argv st =
     kbind (main argv st) (\<lambda>(res, st1). Inr (st1\<lparr>world := sys_exit sys res (world st1)\<rparr>))"

fun blank_loop :: "'w syscalls \<Rightarrow> 'w ustate \<Rightarrow> u8 list list \<Rightarrow> 'w ustate kresult" where
  "blank_loop sys st [] = Inr st"
| "blank_loop sys st (a # argv) = kbind (printf sys st [37, 115, 10, 0] [VStr a]) (\<lambda>(r, st1). blank_loop sys st1 argv)"

definition blank_main :: "'w syscalls \<Rightarrow> u8 list list \<Rightarrow> 'w ustate \<Rightarrow> (int \<times> 'w ustate) kresult" where
  "blank_main sys argv st =
     kbind (blank_loop sys (st\<lparr>world := sys_print sys (map of_char ''Hello World!'' @ [10, 0]) (world st)\<rparr>) argv) (\<lambda>st1. Inr (0, st1))"

text \<open>One round of the shell's endless loop; \<open>buf\<close>, \<open>cbuf\<close> and \<open>scommand\<close> are the local arrays of the three functions on its way.\<close>

definition shell_round :: "'w syscalls \<Rightarrow> u8 list \<Rightarrow> u8 list \<Rightarrow> u8 list \<Rightarrow> 'w ustate \<Rightarrow> 'w ustate kresult option" where
  "shell_round sys buf cbuf scommand st =
     (case kernel_terminal_readline sys (sys_print sys [62, 0] (world st)) buf 1024 True of
        None \<Rightarrow> None
      | Some r \<Rightarrow> Some (kbind r (\<lambda>(line, w).
          let st1 = st\<lparr>world := sys_print sys [10, 0] w\<rparr> in
          case strlen_u line of
            None \<Rightarrow> Inl OutOfBounds
          | Some len \<Rightarrow>
              if len = 0 then Inr st1
              else kbind (kernel_system_run sys st1 cbuf scommand line) (\<lambda>(res, st2). Inr st2))))"

end
