(* ===== verification/User_Kernel.thy ===== *)
theory User_Kernel
  imports User_Programs
begin

section \<open>What user programs rely on and what they do with it\<close>

text \<open>
  The library above the system calls relies on little: a key that was typed is delivered once and in order, printing
  takes no keys, and \<open>kernel_malloc\<close> gives addresses that are not in use. \<open>pending\<close> are the characters typed and not yet
  read, \<open>live\<close> the addresses in use, \<open>ok\<close> the states these laws speak of.
\<close>

text \<open>Reading a line, as the user sees it: Enter ends the line, Backspace takes the last character back, and a line that
  has reached the limit ends by itself.\<close>

fun edit_line :: "nat \<Rightarrow> u8 list \<Rightarrow> u8 list \<Rightarrow> (u8 list \<times> u8 list) option" where
  "edit_line m line ks =
     (if length line < m then
        case ks of
          [] \<Rightarrow> None
        | k # ks' \<Rightarrow> if k = 13 then Some (line, ks')
                    else if k = 8 then edit_line m (butlast line) ks' else edit_line m (line @ [k]) ks'
      else Some (line, ks))"

declare edit_line.simps [simp del]

lemma key_code: "(sint (c :: u8) = 13) = (c = 13)" "(sint c = 8) = (c = 8)" "(sint c = 0) = (c = 0)"
  using sint_eq_iff [of c 13] sint_eq_iff [of c 8] by (simp_all del: sint_eq_iff)

locale user_machine =
  fixes sys :: "'w syscalls" and ok :: "'w \<Rightarrow> bool" and pending :: "'w \<Rightarrow> u8 list" and live :: "'w \<Rightarrow> u32 set"
  assumes getkey: "ok w \<Longrightarrow> pending w = c # cs \<Longrightarrow> \<exists>w'. sys_getkey sys w = (sint c, w') \<and> ok w' \<and> pending w' = cs"
    and typed: "ok w \<Longrightarrow> 0 \<notin> set (pending w)"
    and echo: "ok w \<Longrightarrow> ok (sys_putchar sys c w) \<and> pending (sys_putchar sys c w) = pending w"
    and message: "ok w \<Longrightarrow> ok (sys_print sys msg w) \<and> pending (sys_print sys msg w) = pending w"
    and fresh: "ok w \<Longrightarrow> sys_malloc sys n w = (p, w') \<Longrightarrow>
      ok w' \<and> pending w' = pending w \<and> (if p = 0 then live w' = live w else p \<notin> live w \<and> live w' = insert p (live w))"
begin

lemma getkeyblock: "ok w \<Longrightarrow> pending w = c # cs \<Longrightarrow> \<exists>w'. kernel_getkeyblock sys w = Some (sint c, w') \<and> ok w' \<and> pending w' = cs"
  using getkey [of w c cs] typed [of w] by (subst kernel_getkeyblock.simps) (auto simp: key_code)

lemma readline_loop:
  assumes "edit_line m line ks = Some (l, rest)" "ok w" "pending w = ks" "m \<le> length out" "take (length line) out = line"
    "length line \<le> m" "0 \<notin> set line"
  shows "\<exists>out' w'. readline_loop sys w out m e (length line) = Some (Inr (out', length l, w')) \<and> length out' = length out \<and>
    take (length l) out' = l \<and> 0 \<notin> set l \<and> length l \<le> m \<and> ok w' \<and> pending w' = rest"
  using assms
proof (induction m line ks arbitrary: w out rule: edit_line.induct)
  case (1 m line ks)
  note ed = "1.prems"(1) and ok = "1.prems"(2) and pend = "1.prems"(3) and mx = "1.prems"(4) and line = "1.prems"(5)
    and lm = "1.prems"(6) and nz = "1.prems"(7)
  show ?case
  proof (cases "length line < m \<and> ks \<noteq> []")
    case False
    then have "\<not> length line < m" "l = line" "rest = ks"
      using ed by (auto simp: edit_line.simps [of m line ks] split: if_splits list.splits)
    then show ?thesis using ok pend line lm nz by (subst readline_loop.simps) simp
  next
    case True
    then obtain k ks' where ks: "ks = k # ks'" by (cases ks) auto
    obtain w1 where g: "kernel_getkeyblock sys w = Some (sint k, w1)" "ok w1" "pending w1 = ks'"
      using getkeyblock [of w k ks'] ok pend ks by blast
    have k0: "k \<noteq> 0" using typed [of w] ok pend ks by auto
    have lo: "length line < length out" using True mx by simp
    consider (enter) "k = 13" | (erase) "k = 8" | (char) "k \<noteq> 13" "k \<noteq> 8" by blast
    then show ?thesis
    proof cases
      case enter
      with ed ks True have "l = line" "rest = ks'" by (auto simp: edit_line.simps [of m line "13 # ks'"])
      with g enter line True nz show ?thesis by (subst readline_loop.simps) (simp add: key_code)
    next
      case erase
      define w2 where "w2 = (if length line \<ge> 1 \<and> e then sys_putchar sys 8 w1 else w1)"
      have w2: "ok w2" "pending w2 = ks'" using echo [of w1 8] g by (auto simp: w2_def)
      let ?j = "length (butlast line)"
      have step: "readline_loop sys w out m e (length line) = readline_loop sys w2 (out[?j := 0]) m e ?j"
        using True g erase lo by (subst readline_loop.simps) (auto simp: key_code w2_def Let_def)
      have bl: "take ?j (out[?j := 0]) = butlast line" using line lo by (metis butlast_take length_butlast less_imp_le take_update_cancel order_refl)
      have nb: "0 \<notin> set (butlast line)" using nz by (auto dest: in_set_butlastD)
      have eb: "edit_line m (butlast line) ks' = Some (l, rest)"
        using ed ks True erase by (simp add: edit_line.simps [of m line "8 # ks'"])
      show ?thesis
        unfolding step using "1.IH"(1) [OF conjunct1 [OF True] ks _ erase eb w2, of "out[?j := 0]"] erase mx bl nb lm
        by simp
    next
      case char
      define w2 where "w2 = (if e then sys_putchar sys k w1 else w1)"
      have w2: "ok w2" "pending w2 = ks'" using echo [of w1 k] g by (auto simp: w2_def)
      have step: "readline_loop sys w out m e (length line) = readline_loop sys w2 (out[length line := k]) m e (Suc (length line))"
        using True g char lo by (subst readline_loop.simps) (auto simp: key_code w2_def Let_def)
      have bl: "take (Suc (length line)) (out[length line := k]) = line @ [k]" using line lo by (simp add: take_Suc_conv_app_nth)
      have eb: "edit_line m (line @ [k]) ks' = Some (l, rest)"
        using ed ks True char by (simp add: edit_line.simps [of m line "k # ks'"])
      show ?thesis
        unfolding step using "1.IH"(2) [OF conjunct1 [OF True] ks char(1,2) eb w2, of "out[length line := k]"] mx bl True nz k0
        by auto
    qed
  qed
qed

text \<open>With a buffer longer than the limit the line arrives, terminated; with a buffer of just the limit's size a line of
  that length makes the terminator go outside.\<close>

lemma readline:
  assumes "edit_line m [] (pending w) = Some (l, rest)" "ok w" "m \<le> length out"
  shows "if length l < length out
    then \<exists>out' w'. kernel_terminal_readline sys w out m e = Some (Inr (out', w')) \<and> length out' = length out \<and>
      is_cstr out' \<and> cstr out' = l \<and> ok w' \<and> pending w' = rest
    else kernel_terminal_readline sys w out m e = Some (Inl OutOfBounds)"
proof -
  obtain out' w' where r: "readline_loop sys w out m e 0 = Some (Inr (out', length l, w'))" "length out' = length out"
    "take (length l) out' = l" "0 \<notin> set l" "ok w'" "pending w' = rest"
    using readline_loop [OF assms(1,2) refl assms(3), of e] by auto
  show ?thesis
  proof (cases "length l < length out")
    case True
    then have "out'[length l := 0] = l @ 0 # drop (Suc (length l)) out'"
      using r(2,3) by (simp add: upd_conv_take_nth_drop)
    then show ?thesis using True r by (simp add: kernel_terminal_readline_def)
  qed (simp add: kernel_terminal_readline_def r)
qed

end

subsection \<open>Splitting a command into words\<close>

text \<open>The words of a text: the maximal runs of characters that are not delimiters.\<close>

function words :: "u8 list \<Rightarrow> u8 list \<Rightarrow> u8 list list" where
  "words ds s =
     (let s' = dropWhile (\<lambda>c. c \<in> set ds) s in
      if s' = [] then []
      else takeWhile (\<lambda>c. c \<notin> set ds) s' # words ds (tl (dropWhile (\<lambda>c. c \<notin> set ds) s')))"
  by pat_completeness auto
termination
proof (relation "measure (\<lambda>(ds, s). length s)", goal_cases)
  case (2 ds s s')
  have "length (tl xs) < length ys" if "length xs \<le> length ys" "ys \<noteq> []" for xs ys :: "u8 list"
    using that by (cases ys) auto
  from this [OF length_dropWhile_le, of s' "\<lambda>c. c \<notin> set ds"] 2 show ?case using length_dropWhile_le [of "\<lambda>c. c \<in> set ds" s] by (simp del: dropWhile_eq_Nil_conv)
qed simp

declare words.simps [simp del]

lemma strtok_skip_eq:
  "is_cstr (drop p buf) \<Longrightarrow>
   strtok_skip buf ds p = Some (p + length (takeWhile (\<lambda>c. c \<in> set ds) (cstr (drop p buf))))"
proof (induction buf ds p rule: strtok_skip.induct)
  case (1 buf ds p)
  then have p: "p < length buf" by (cases "p < length buf") auto
  then have d: "drop p buf = buf ! p # drop (Suc p) buf" by (rule Cons_nth_drop_Suc [symmetric])
  from 1 p show ?case by (subst strtok_skip.simps) (auto simp: d)
qed

lemma strtok_end_eq:
  "is_cstr (drop p buf) \<Longrightarrow>
   strtok_end buf ds p =
     (let n = length (takeWhile (\<lambda>c. c \<notin> set ds) (cstr (drop p buf))) in
      if n < length (cstr (drop p buf)) then Some (buf[p + n := 0], Suc (p + n)) else Some (buf, p + n))"
proof (induction buf ds p rule: strtok_end.induct)
  case (1 buf ds p)
  then have p: "p < length buf" by (cases "p < length buf") auto
  then have d: "drop p buf = buf ! p # drop (Suc p) buf" by (rule Cons_nth_drop_Suc [symmetric])
  from 1 p show ?case by (subst strtok_end.simps) (auto simp: d Let_def)
qed

lemma drop_in_cstr: "is_cstr s \<Longrightarrow> n \<le> length (cstr s) \<Longrightarrow> is_cstr (drop n s) \<and> cstr (drop n s) = drop n (cstr s)"
proof (induction s arbitrary: n)
  case (Cons c s)
  then show ?case by (cases n) (auto split: if_splits)
qed simp

lemma split_cstr: "is_cstr s \<Longrightarrow> n \<le> length (cstr s) \<Longrightarrow> take n s = take n (cstr s)"
proof (induction s arbitrary: n)
  case (Cons c s)
  then show ?case by (cases n) (auto split: if_splits)
qed simp

text \<open>One call of \<open>strtok\<close> from the saved position \<open>p\<close>: the next word, terminated in place, and the rest.\<close>

lemma strtok_step:
  assumes c: "is_cstr (drop p buf)" and ds: "ds \<noteq> []" "0 \<notin> set ds" and at: "start = None \<and> sp = Some p \<or> start = Some p"
  shows "case words ds (cstr (drop p buf)) of
      [] \<Rightarrow> strtok buf sp start (Some (ds @ [0])) = Some (None, buf, None)
    | x # xs \<Rightarrow> \<exists>t buf' q. strtok buf sp start (Some (ds @ [0])) = Some (Some t, buf', Some q) \<and>
        is_cstr (drop t buf') \<and> cstr (drop t buf') = x \<and> is_cstr (drop q buf') \<and> words ds (cstr (drop q buf')) = xs"
proof -
  let ?s = "cstr (drop p buf)" and ?D = "\<lambda>c. c \<in> set ds" and ?N = "\<lambda>c. c \<notin> set ds"
  define t where "t = p + length (takeWhile ?D ?s)"
  define s' where "s' = dropWhile ?D ?s"
  define n where "n = length (takeWhile ?N s')"
  have t: "is_cstr (drop t buf)" "cstr (drop t buf) = s'"
    using drop_in_cstr [OF c length_takeWhile_le [of ?D ?s]] by (simp_all add: t_def s'_def dropWhile_eq_drop add.commute)
  then have tl: "t < length buf" by (cases "t < length buf") auto
  then have z: "buf ! t = 0 \<longleftrightarrow> s' = []" using t(2) by (auto simp: Cons_nth_drop_Suc [symmetric] split: if_splits)
  have st: "strtok buf sp start (Some (ds @ [0])) = (if s' = [] then Some (None, buf, None)
      else (case strtok_end buf ds t of None \<Rightarrow> None | Some (buf', sp') \<Rightarrow> Some (Some t, buf', Some sp')))"
    unfolding strtok_def using ds at strtok_skip_eq [OF c, of ds] z
    by (auto simp: strlen_u_eq strlen_eq t_def split: option.splits)
  show ?thesis
  proof (cases "s' = []")
    case True
    then show ?thesis using st by (simp add: words.simps [of ds ?s] s'_def)
  next
    case False
    have "takeWhile ?N s' = take n s'" unfolding n_def by (rule takeWhile_eq_take)
    moreover have "dropWhile ?N s' = drop n s'" unfolding n_def by (rule dropWhile_eq_drop)
    ultimately have w: "words ds ?s = take n s' # words ds (drop (Suc n) s')"
      using False by (simp add: words.simps [of ds ?s] s'_def [symmetric] Let_def drop_Suc tl_drop)
    have nl: "n \<le> length s'" unfolding n_def by (rule length_takeWhile_le)
    have e: "strtok_end buf ds t = (if n < length s' then Some (buf[t + n := 0], Suc (t + n)) else Some (buf, t + n))"
      using strtok_end_eq [OF t(1), of ds] by (simp add: t(2) n_def Let_def)
    show ?thesis
    proof (cases "n < length s'")
      case True
      have bd: "t + n < length buf" using True t(2) length_cstr_le [of "drop t buf"] tl by simp
      have "drop t (buf[t + n := 0]) = take n s' @ 0 # drop (Suc n) (drop t buf)"
        using bd split_cstr [OF t(1), of n] nl t(2) by (simp add: upd_conv_take_nth_drop drop_take add.commute [of n t])
      moreover have "drop (Suc (t + n)) (buf[t + n := 0]) = drop (Suc n) (drop t buf)" by (simp add: add.commute)
      moreover have "0 \<notin> set (take n s')" using cstr_nonzero [of "drop t buf"] t(2) by (auto dest: in_set_takeD)
      ultimately show ?thesis
        using st False e True w drop_in_cstr [OF t(1), of "Suc n"] t(2) by simp
    next
      case whole: False
      then have "n = length s'" using nl by simp
      then show ?thesis
        using st False e w t drop_in_cstr [OF t(1), of n] by (simp add: add.commute)
    qed
  qed
qed

text \<open>A chain of argument objects from \<open>p\<close> that holds the given words, each cut to the 511 characters that fit.\<close>

primrec arg_chain :: "(u32 \<rightharpoonup> command_argument) \<Rightarrow> u32 \<Rightarrow> u8 list list \<Rightarrow> bool" where
  "arg_chain m p [] \<longleftrightarrow> p = 0"
| "arg_chain m p (x # xs) \<longleftrightarrow> p \<noteq> 0 \<and>
     (case m p of None \<Rightarrow> False | Some a \<Rightarrow> cstr (ca_argument a) = take 511 x \<and> arg_chain m (ca_next a) xs)"

lemma new_argument_word:
  assumes "is_cstr (drop t buf)"
  obtains a where "new_argument buf t = Inr a" "cstr (ca_argument a) = take 511 (cstr (drop t buf))" "ca_next a = 0"
proof -
  have k: "strncpy_count (drop t buf) 511 < length (replicate 512 (0 :: u8))" by (simp add: strncpy_count_def)
  have "0 \<notin> set (take 511 (cstr (drop t buf)))" using cstr_nonzero [of "drop t buf"] by (auto dest: in_set_takeD)
  then show ?thesis using that strncpy_u_eq [OF assms k] by (simp add: new_argument_def)
qed

text \<open>What \<open>strtok\<close> has delivered when the loop looks at its token: the words still to come.\<close>

definition token_words :: "nat option \<Rightarrow> u8 list \<Rightarrow> nat option \<Rightarrow> u8 list list \<Rightarrow> bool" where
  "token_words token buf sp ws \<longleftrightarrow>
     (case token of
        None \<Rightarrow> ws = []
      | Some t \<Rightarrow> \<exists>q. is_cstr (drop t buf) \<and> sp = Some q \<and> is_cstr (drop q buf) \<and> ws = cstr (drop t buf) # words [32] (cstr (drop q buf)))"

lemma strtok_words:
  assumes "is_cstr (drop p buf)" "start = None \<and> sp = Some p \<or> start = Some p"
  obtains token buf' sp' where "strtok buf sp start space = Some (token, buf', sp')" "token_words token buf' sp' (words [32] (cstr (drop p buf)))"
  using strtok_step [OF assms(1), of "[32]" start sp] assms(2) that
  by (auto simp: space_def token_words_def split: list.splits)

context user_machine
begin

lemma parse_loop_chain:
  assumes "token_words token buf sp ws" "ok (world st)" "current \<in> live (world st)" "arguments st current = Some c" "ca_next c = 0"
  shows "\<exists>st' k c'. parse_loop sys st current token buf sp = Inr st' \<and> ok (world st') \<and>
    pending (world st') = pending (world st) \<and> arguments st' current = Some c' \<and>
    ca_argument c' = ca_argument c \<and> arg_chain (arguments st') (ca_next c') (take k ws) \<and>
    (k < length ws \<longrightarrow> (\<exists>w. ok w \<and> sys_malloc sys 516 w = (0, world st'))) \<and>
    (\<forall>p \<in> live (world st) - {current}. arguments st' p = arguments st p)"
  using assms
proof (induction ws arbitrary: token buf sp st current c)
  case Nil
  then have "parse_loop sys st current token buf sp = Inr st"
    by (subst parse_loop.simps) (simp add: token_words_def split: option.splits)
  then show ?case using Nil by simp
next
  case (Cons x xs)
  obtain t q where tok: "token = Some t" "is_cstr (drop t buf)" "sp = Some q" "is_cstr (drop q buf)" "x = cstr (drop t buf)"
    "xs = words [32] (cstr (drop q buf))"
    using Cons.prems(1) by (auto simp: token_words_def split: option.splits)
  obtain p w where m: "sys_malloc sys 516 (world st) = (p, w)" by (metis surj_pair)
  show ?case
  proof (cases "p = 0")
    case True
    then have "parse_loop sys st current token buf sp = Inr (st\<lparr>world := w\<rparr>)"
      using m tok(1) by (subst parse_loop.simps) simp
    moreover have "\<exists>w'. ok w' \<and> sys_malloc sys 516 w' = (0, w)" using m True Cons.prems(2) by blast
    moreover have "ok w" "pending w = pending (world st)" using fresh [OF Cons.prems(2) m] by simp_all
    ultimately show ?thesis using Cons.prems(4,5) by (intro exI [of _ "st\<lparr>world := w\<rparr>"] exI [of _ 0] exI [of _ c]) simp
  next
    case False
    then have f: "ok w" "p \<notin> live (world st)" "live w = insert p (live (world st))" "pending w = pending (world st)"
      using fresh [OF Cons.prems(2) m] by auto
    then have pc: "p \<noteq> current" using Cons.prems(3) by auto
    obtain a where a: "new_argument buf t = Inr a" "cstr (ca_argument a) = take 511 x" "ca_next a = 0"
      using new_argument_word [OF tok(2)] tok(5) by metis
    obtain token' buf' sp' where s: "strtok buf sp None space = Some (token', buf', sp')" "token_words token' buf' sp' xs"
      using strtok_words [OF tok(4), of None sp] tok(3,6) by metis
    let ?st1 = "st\<lparr>world := w, arguments := (arguments st)(p \<mapsto> a, current \<mapsto> c\<lparr>ca_next := p\<rparr>)\<rparr>"
    have step: "parse_loop sys st current token buf sp = parse_loop sys ?st1 p token' buf' sp'"
      using m tok(1) False a(1) s(1) Cons.prems(4) by (subst parse_loop.simps) simp
    obtain st' k a' where ih: "parse_loop sys ?st1 p token' buf' sp' = Inr st'" "ok (world st')" "arguments st' p = Some a'"
      "ca_argument a' = ca_argument a" "arg_chain (arguments st') (ca_next a') (take k xs)"
      "k < length xs \<longrightarrow> (\<exists>w. ok w \<and> sys_malloc sys 516 w = (0, world st'))"
      "\<forall>r \<in> live w - {p}. arguments st' r = arguments ?st1 r" "pending (world st') = pending w"
      using Cons.IH [OF s(2), of ?st1 p a] f pc a(3) by auto
    have "arguments st' current = Some (c\<lparr>ca_next := p\<rparr>)" using ih(7) f(3) pc Cons.prems(3) by auto
    moreover have "arg_chain (arguments st') p (take (Suc k) (x # xs))" using ih(3,4,5) a(2) False by simp
    moreover have "\<forall>r \<in> live (world st) - {current}. arguments st' r = arguments st r" using ih(7) f(2,3) by auto
    ultimately show ?thesis using step ih(1,2,6,8) f(4)
      by (intro exI [of _ st'] exI [of _ "Suc k"] exI [of _ "c\<lparr>ca_next := p\<rparr>"]) simp
  qed
qed

lemma parse_command_words:
  assumes "ok (world st)" "is_cstr command" "length scommand = 1025" "max_len < 1025"
  shows "\<exists>root st' k. kernel_parse_command sys st scommand command max_len = Inr (root, st') \<and> ok (world st') \<and>
    pending (world st') = pending (world st) \<and> arg_chain (arguments st') root (take k (words [32] (take 1024 (cstr command)))) \<and>
    (k < length (words [32] (take 1024 (cstr command))) \<longrightarrow> (\<exists>w. ok w \<and> sys_malloc sys 516 w = (0, world st')))"
proof -
  let ?ws = "words [32] (take 1024 (cstr command))"
  have k: "strncpy_count command 1024 < length scommand" using assms(3) by (simp add: strncpy_count_def)
  define buf where "buf = take 1024 (cstr command) @ 0 # drop (Suc (strncpy_count command 1024)) scommand"
  have cp: "strncpy_u scommand command 1025 = Some buf" using strncpy_u_eq [OF assms(2) k] by (simp add: buf_def)
  have "0 \<notin> set (take 1024 (cstr command))" using cstr_nonzero [of command] by (auto dest: in_set_takeD)
  then have b: "is_cstr (drop 0 buf)" "cstr (drop 0 buf) = take 1024 (cstr command)" by (simp_all add: buf_def)
  obtain token buf1 sp where s: "strtok buf None (Some 0) space = Some (token, buf1, sp)" "token_words token buf1 sp ?ws"
    using strtok_words [OF b(1), of "Some 0" None] b(2) by metis
  show ?thesis
  proof (cases token)
    case None
    then have "kernel_parse_command sys st scommand command max_len = Inr (0, st)" "?ws = []"
      using cp s assms(4) by (simp_all add: kernel_parse_command_def token_words_def)
    then show ?thesis using assms(1) by simp
  next
    case (Some t)
    then obtain q x xs where tok: "is_cstr (drop t buf1)" "sp = Some q" "is_cstr (drop q buf1)" "?ws = x # xs" "x = cstr (drop t buf1)"
      "xs = words [32] (cstr (drop q buf1))"
      using s(2) by (auto simp: token_words_def)
    obtain root w where m: "sys_malloc sys 516 (world st) = (root, w)" by (metis surj_pair)
    show ?thesis
    proof (cases "root = 0")
      case True
      then have "kernel_parse_command sys st scommand command max_len = Inr (0, st\<lparr>world := w\<rparr>)"
        using cp s(1) assms(4) Some m by (simp add: kernel_parse_command_def)
      moreover have "\<exists>w'. ok w' \<and> sys_malloc sys 516 w' = (0, w)" using m True assms(1) by blast
      moreover have "ok w" "pending w = pending (world st)" using fresh [OF assms(1) m] by simp_all
      ultimately show ?thesis by (intro exI [of _ 0] exI [of _ "st\<lparr>world := w\<rparr>"]) simp
    next
      case False
      then have f: "ok w" "live w = insert root (live (world st))" "pending w = pending (world st)" using fresh [OF assms(1) m] by auto
      obtain a where a: "new_argument buf1 t = Inr a" "cstr (ca_argument a) = take 511 x" "ca_next a = 0"
        using new_argument_word [OF tok(1)] tok(5) by metis
      obtain token' buf2 sp' where s': "strtok buf1 sp None space = Some (token', buf2, sp')" "token_words token' buf2 sp' xs"
        using strtok_words [OF tok(3), of None sp] tok(2,6) by metis
      let ?st1 = "st\<lparr>world := w, arguments := (arguments st)(root \<mapsto> a)\<rparr>"
      obtain st' k a' where l: "parse_loop sys ?st1 root token' buf2 sp' = Inr st'" "ok (world st')" "arguments st' root = Some a'"
        "ca_argument a' = ca_argument a" "arg_chain (arguments st') (ca_next a') (take k xs)"
        "k < length xs \<longrightarrow> (\<exists>w. ok w \<and> sys_malloc sys 516 w = (0, world st'))" "pending (world st') = pending w"
        using parse_loop_chain [OF s'(2), of ?st1 root a] f a(3) by auto
      have "kernel_parse_command sys st scommand command max_len = Inr (root, st')"
        using cp s(1) assms(4) Some m False a(1) s'(1) l(1) by (simp add: kernel_parse_command_def)
      moreover have "arg_chain (arguments st') root (take (Suc k) ?ws)" using l(3,4,5) a(2) False tok(4) by simp
      ultimately show ?thesis using l(2,6,7) f(3) tok(4) by (intro exI [of _ root] exI [of _ st'] exI [of _ "Suc k"]) simp
    qed
  qed
qed

lemma system_run_words:
  assumes "ok (world st)" "is_cstr command" "length buf = 1024" "length scommand = 1025"
  shows "\<exists>r st1 st' root k. kernel_system_run sys st buf scommand command = Inr (r, st') \<and> ok (world st1) \<and>
    pending (world st1) = pending (world st) \<and> arg_chain (arguments st1) root (take k (words [32] (take 1023 (cstr command)))) \<and>
    (k < length (words [32] (take 1023 (cstr command))) \<longrightarrow> (\<exists>w. ok w \<and> sys_malloc sys 516 w = (0, world st1))) \<and>
    (if root = 0 then r = - 1 \<and> st' = st1 else st' = st1\<lparr>world := snd (sys_system sys root (arguments st1) (world st1))\<rparr>)"
proof -
  obtain buf1 where b: "strncpy_u buf command 1024 = Some buf1" "is_cstr buf1" "cstr buf1 = take 1023 (cstr command)"
    using strncpy_u_bounded [of command 1024 buf] assms(2,3) by auto
  have t: "take 1024 (cstr buf1) = take 1023 (cstr command)" by (simp add: b(3))
  obtain root st1 k where p: "kernel_parse_command sys st scommand buf1 1024 = Inr (root, st1)" "ok (world st1)"
    "arg_chain (arguments st1) root (take k (words [32] (take 1023 (cstr command))))"
    "k < length (words [32] (take 1023 (cstr command))) \<longrightarrow> (\<exists>w. ok w \<and> sys_malloc sys 516 w = (0, world st1))"
    "pending (world st1) = pending (world st)"
    using parse_command_words [OF assms(1) b(2) assms(4), of 1024] unfolding t by auto
  obtain r w where s: "sys_system sys root (arguments st1) (world st1) = (r, w)" by (metis surj_pair)
  show ?thesis
    using p b(1) s by (cases "root = 0") (auto simp: kernel_system_run_def intro!: exI [of _ st1] exI [of _ root] exI [of _ k])
qed

text \<open>One round of the shell on a line that fits: the words of the line reach the kernel as a chain of arguments.\<close>

lemma shell_round_line:
  assumes "ok (world st)" "edit_line 1024 [] (pending (world st)) = Some (l, rest)" "length buf = 1024" "length cbuf = 1024"
    "length scommand = 1025"
  shows "if length l = 1024 then shell_round sys buf cbuf scommand st = Some (Inl OutOfBounds)
    else \<exists>st1 st' root k. shell_round sys buf cbuf scommand st = Some (Inr st') \<and> ok (world st1) \<and> pending (world st1) = rest \<and>
      arg_chain (arguments st1) root (take k (words [32] l)) \<and>
      (k < length (words [32] l) \<longrightarrow> (\<exists>w. ok w \<and> sys_malloc sys 516 w = (0, world st1))) \<and>
      st' = (if root = 0 then st1 else st1\<lparr>world := snd (sys_system sys root (arguments st1) (world st1))\<rparr>)"
proof -
  let ?w = "sys_print sys [62, 0] (world st)"
  have w: "ok ?w" "edit_line 1024 [] (pending ?w) = Some (l, rest)" using message [OF assms(1), of "[62, 0]"] assms(2) by simp_all
  note r = readline [OF w(2,1), of buf True]
  have l: "length l \<le> 1024" using readline_loop [OF w(2,1) refl, of buf True] assms(3) by auto
  show ?thesis
  proof (cases "length l = 1024")
    case True
    then show ?thesis using r assms(3) by (simp add: shell_round_def)
  next
    case False
    then obtain line w' where k: "kernel_terminal_readline sys ?w buf 1024 True = Some (Inr (line, w'))" "is_cstr line" "cstr line = l" "ok w'"
      "pending w' = rest"
      using r l assms(3) by auto
    let ?st1 = "st\<lparr>world := sys_print sys [10, 0] w'\<rparr>"
    have o: "ok (world ?st1)" "pending (world ?st1) = rest" using message [OF k(4), of "[10, 0]"] k(5) by simp_all
    have len: "strlen_u line = Some (length l)" using k(2,3) by (simp add: strlen_u_eq strlen_eq)
    have tk: "take 1023 (cstr line) = l" using l False k(3) by simp
    show ?thesis
    proof (cases "l = []")
      case True
      then have "shell_round sys buf cbuf scommand st = Some (Inr ?st1)" using k(1) len by (simp add: shell_round_def Let_def)
      then show ?thesis using True o by (intro if_not_P [THEN iffD2] exI [of _ ?st1]) (simp_all add: words.simps [of "[32]" "[]"])
    next
      case ne: False
      obtain rr st1 st' root k' where s: "kernel_system_run sys ?st1 cbuf scommand line = Inr (rr, st')" "ok (world st1)"
        "arg_chain (arguments st1) root (take k' (words [32] l))"
        "k' < length (words [32] l) \<longrightarrow> (\<exists>w. ok w \<and> sys_malloc sys 516 w = (0, world st1))"
        "if root = 0 then rr = - 1 \<and> st' = st1 else st' = st1\<lparr>world := snd (sys_system sys root (arguments st1) (world st1))\<rparr>"
        "pending (world st1) = rest"
        using system_run_words [OF o(1) k(2) assms(4,5)] o(2) unfolding tk by metis
      have "shell_round sys buf cbuf scommand st = Some (Inr st')" using k(1) len ne s(1) by (simp add: shell_round_def Let_def)
      then show ?thesis using False s(2-6) by (auto split: if_splits)
    qed
  qed
qed

end

subsection \<open>The kernel provides it\<close>

text \<open>The system calls as the kernel's functions perform them for the current process. What starts another program or ends
  this one does not come back to the caller in between and is left open.\<close>

definition kernel_calls :: "(u32 \<Rightarrow> (u32 \<rightharpoonup> command_argument) \<Rightarrow> ('d, 'a) schedst_scheme \<Rightarrow> int \<times> ('d, 'a) schedst_scheme)
      \<Rightarrow> (int \<Rightarrow> ('d, 'a) schedst_scheme \<Rightarrow> ('d, 'a) schedst_scheme) \<Rightarrow> ('d, 'a) schedst_scheme syscalls" where
  "kernel_calls system ex =
     \<lparr>sys_print = (\<lambda>msg st. case terminal_print st msg of Inr st1 \<Rightarrow> st1 | Inl _ \<Rightarrow> st),
      sys_getkey = (\<lambda>st. case isr80h_command2_getkey st of Inr (Returns r st1) \<Rightarrow> (sint r, st1) | _ \<Rightarrow> (0, st)),
      sys_putchar = (\<lambda>c st. terminal_print_char st c),
      sys_malloc = (\<lambda>n st. case process_malloc st (current_process st) n of Inr (p, st1) \<Rightarrow> (p, st1) | Inl _ \<Rightarrow> (0, st)),
      sys_free = (\<lambda>p st. case process_free st (current_process st) p of Inr st1 \<Rightarrow> st1 | Inl _ \<Rightarrow> st),
      sys_system = system, sys_exit = ex\<rparr>"

definition typed_ahead :: "('d, 'a) schedst_scheme \<Rightarrow> u8 list" where
  "typed_ahead st = (case proc_store st (current_process st) of None \<Rightarrow> [] | Some p \<Rightarrow> buffer_contents (Some (ts_keyboard p)))"

definition process_ready :: "('d, 'a) schedst_scheme \<Rightarrow> bool" where
  "process_ready st \<longleftrightarrow> kheap_ok st \<and> current_process st \<noteq> 0 \<and> 0 \<notin> set (typed_ahead st) \<and>
     (case proc_store st (current_process st) of None \<Rightarrow> False | Some p \<Rightarrow> buffer_ok (Some (ts_keyboard p)))"

definition heap_live_set :: "('d, 'a) schedst_scheme \<Rightarrow> u32 set" where
  "heap_live_set st = dom (heap_owned (kernel_heap st))"

lemma terminal_more: "termst.more (terminal_write_char st c k) = termst.more st"
  by (simp add: terminal_write_char_def terminal_backspace_def terminal_put_char_def Let_def)

lemma terminal_fold_frame:
  "kernel_heap (fold (\<lambda>c st. terminal_write_char st c k) cs st) = kernel_heap st \<and>
   termst.more (fold (\<lambda>c st. terminal_write_char st c k) cs st) = termst.more st"
  by (induction cs arbitrary: st) (simp_all add: terminal_heap terminal_more)

lemma terminal_print_frame:
  "terminal_print st s = Inr st' \<Longrightarrow> kernel_heap st' = kernel_heap st \<and> termst.more st' = termst.more st"
  using terminal_fold_frame by (auto simp: terminal_print_def split: option.splits)

lemma sched_err_frame:
  "sched_err st f l m = Inr st' \<Longrightarrow> kernel_heap st' = kernel_heap st \<and> termst.more st' = termst.more st"
  by (auto simp: sched_err_def pr_err_def terminal_print_num_without_endl_def kbind_Inr_iff dest!: terminal_print_frame)

lemma term_more_sched:
  fixes st st' :: "('d, 'a) schedst_scheme"
  assumes "termst.more st' = termst.more st"
  shows "current_process st' = current_process st" "proc_store st' = proc_store st"
  using assms by (cases st, cases st', simp)+

lemma paging_map_frame:
  "paging_map ks c v p fl = (r, ks') \<Longrightarrow> kernel_heap ks' = kernel_heap ks \<and> kstate.more ks' = kstate.more ks"
  by (auto simp: paging_map_def paging_set_def Let_def split: if_splits prod.splits)

lemma paging_map_range_loop_frame:
  "paging_map_range_loop ks c v p fl n r0 = (r, ks') \<Longrightarrow> kernel_heap ks' = kernel_heap ks \<and> kstate.more ks' = kstate.more ks"
  by (induction ks c v p fl n r0 rule: paging_map_range_loop.induct)
    (fastforce simp: Let_def split: if_splits prod.splits dest: paging_map_frame)+

lemma paging_map_to_frame:
  "paging_map_to ks c v p pe fl = (r, ks') \<Longrightarrow> kernel_heap ks' = kernel_heap ks \<and> kstate.more ks' = kstate.more ks"
  by (auto simp: paging_map_to_def paging_map_range_def Let_def split: if_splits dest: paging_map_range_loop_frame)

lemma kstate_more_sched:
  fixes st st' :: "('d, 'a) schedst_scheme"
  assumes "kstate.more st' = kstate.more st"
  shows "current_process st' = current_process st" "proc_store st' = proc_store st"
  using assms by (cases st, cases st', simp)+

text \<open>A process allocation, on every branch: nothing changes on the heap, or exactly one block is added; the process
  keeps its keyboard buffer.\<close>

definition same_keyboards :: "('d, 'a) schedst_scheme \<Rightarrow> ('d, 'a) schedst_scheme \<Rightarrow> bool" where
  "same_keyboards st st' \<longleftrightarrow> current_process st' = current_process st \<and>
     (\<forall>q. map_option ts_keyboard (proc_store st' q) = map_option ts_keyboard (proc_store st q))"

lemma same_keyboards_eq: "current_process st' = current_process st \<Longrightarrow> proc_store st' = proc_store st \<Longrightarrow> same_keyboards st st'"
  by (simp add: same_keyboards_def)

lemma same_keyboards_trans: "same_keyboards st st1 \<Longrightarrow> same_keyboards st1 st2 \<Longrightarrow> same_keyboards st st2"
  by (simp add: same_keyboards_def)

lemma process_malloc_cases:
  assumes m: "process_malloc st process n = Inr (p, st')" and z: "kzalloc st n = (q, st1)"
  shows "same_keyboards st st' \<and>
    (if p = 0 then kernel_heap st' = heap_free (kernel_heap st1) q else p = q \<and> kernel_heap st' = kernel_heap st1)"
proof -
  have k1: "same_keyboards st st1" using kstate_more_sched [OF more_kzalloc [OF z]] by (intro same_keyboards_eq)
  have err: "same_keyboards st (kfree st3 q) \<and> kernel_heap (kfree st3 q) = heap_free (kernel_heap st1) q"
    if "sched_err st2 f l msg = Inr st3" "same_keyboards st st2" "kernel_heap st2 = kernel_heap st1" for st2 st3 f l msg
    using sched_err_frame [OF that(1)] term_more_sched [of st3 st2] that(2,3) kstate_more_sched [OF more_kfree, of st3 q]
    by (simp add: same_keyboards_def kfree_heap)
  show ?thesis
  proof (cases "q = 0")
    case True
    with m z k1 err show ?thesis by (auto simp: process_malloc_def kbind_Inr_iff)
  next
    case False
    with m z obtain pr where pr: "deref (proc_store st1) process = Inr pr" by (auto simp: process_malloc_def kbind_Inr_iff)
    show ?thesis
    proof (cases "process_find_free_allocations_index pr < 0")
      case True
      with m z False pr k1 err show ?thesis by (auto simp: process_malloc_def kbind_Inr_iff Let_def)
    next
      case slot: False
      with m z False pr obtain c where c: "process_page_directory st1 pr = Inr c"
        by (auto simp: process_malloc_def kbind_Inr_iff Let_def)
      obtain r st2 where pm: "paging_map_to st1 c q q (paging_align_address (q + n)) user_page = (r, st2)" by (metis surj_pair)
      note f = paging_map_to_frame [OF pm]
      have k2: "same_keyboards st st2" "kernel_heap st2 = kernel_heap st1"
        using same_keyboards_trans [OF k1 same_keyboards_eq] kstate_more_sched [of st2 st1] f by auto
      show ?thesis
      proof (cases "r < 0")
        case True
        with m z False pr slot c pm k2 err show ?thesis by (auto simp: process_malloc_def kbind_Inr_iff Let_def)
      next
        case ok: False
        with m z False pr slot c pm have "p = q" and u: "upd_proc st2 process
            (\<lambda>p. p\<lparr>allocations := (allocations p)[nat (process_find_free_allocations_index pr) := \<lparr>pa_ptr = q, pa_size = n\<rparr>]\<rparr>) = Inr st'"
          by (auto simp: process_malloc_def kbind_Inr_iff Let_def)
        moreover have "kernel_heap st' = kernel_heap st2" "same_keyboards st2 st'"
          using u by (auto simp: upd_proc_def kbind_Inr_iff same_keyboards_def deref_def split: if_splits option.splits)
        ultimately show ?thesis using False k2 same_keyboards_trans by auto
      qed
    qed
  qed
qed

lemma process_malloc_effect:
  assumes ok: "kheap_ok st" and m: "process_malloc st process n = Inr (p, st')"
  shows "kheap_ok st' \<and> same_keyboards st st' \<and>
    (if p = 0 then kernel_heap st' = kernel_heap st
     else heap_owned (kernel_heap st) p = None \<and> heap_owned (kernel_heap st') = (heap_owned (kernel_heap st))(p \<mapsto> heap_blocks n))"
proof -
  obtain q st1 where z: "kzalloc st n = (q, st1)" by (metis surj_pair)
  note c = process_malloc_cases [OF m z]
  have h: "heap_malloc (kernel_heap st) n = (q, kernel_heap st1)" by (rule kzalloc_heap [OF z])
  show ?thesis
  proof (cases "p = 0")
    case True
    then have "kernel_heap st' = kernel_heap st"
      using c kernel_alloc.alloc_release [OF kheap_ok_wf [OF ok] h] by simp
    then show ?thesis using True c ok by (simp add: kheap_ok_def)
  next
    case False
    then show ?thesis using c kernel_alloc.alloc_some [OF kheap_ok_wf [OF ok] h] kheap_ok_alloc(1) [OF ok z]
      by (simp add: kheap_ok_def)
  qed
qed

lemma ready_cong:
  assumes "process_ready st" "same_keyboards st st'" "kheap_ok st'"
  shows "process_ready st' \<and> typed_ahead st' = typed_ahead st"
proof -
  from assms(2) have c: "current_process st' = current_process st"
    and k: "map_option ts_keyboard (proc_store st' (current_process st)) = map_option ts_keyboard (proc_store st (current_process st))"
    by (simp_all add: same_keyboards_def)
  from assms(1) obtain p where p: "proc_store st (current_process st) = Some p" by (auto simp: process_ready_def split: option.splits)
  with k obtain p' where "proc_store st' (current_process st) = Some p'" "ts_keyboard p' = ts_keyboard p"
    by (cases "proc_store st' (current_process st)") auto
  then show ?thesis using assms(1,3) p c by (simp add: process_ready_def typed_ahead_def)
qed

lemma getkey_delivers:
  assumes r: "process_ready st" and t: "typed_ahead st = c # cs"
  shows "\<exists>st'. isr80h_command2_getkey st = Inr (Returns (scast c) st') \<and> process_ready st' \<and> typed_ahead st' = cs"
proof -
  from r obtain p where p: "proc_store st (current_process st) = Some p" "current_process st \<noteq> 0"
    and ok: "buffer_ok (Some (ts_keyboard p))"
    by (auto simp: process_ready_def split: option.splits)
  obtain d b where pop: "keyboard_pop (Some (ts_keyboard p)) = (d, b)" by (metis surj_pair)
  have bc: "buffer_contents (Some (ts_keyboard p)) = c # cs" using t p(1) by (simp add: typed_ahead_def)
  then have l: "buffer_ok b" "d = c" "buffer_contents b = cs" using keyboard_pop_law [OF ok pop] by auto
  from l(1) obtain kb where b: "b = Some kb" by (auto simp: buffer_ok_def split: option.splits)
  define st' where "st' = st\<lparr>proc_store := (proc_store st)(current_process st \<mapsto> p\<lparr>ts_keyboard := kb\<rparr>)\<rparr>"
  have "isr80h_command2_getkey st = Inr (Returns (scast c) st')"
    using p pop l(2) b
    by (simp add: isr80h_command2_getkey_def current_keyboard_pop_def process_current_def deref_def upd_proc_def st'_def)
  moreover have "typed_ahead st' = cs" using l(3) b by (simp add: typed_ahead_def st'_def)
  moreover have "process_ready st'"
    using r t p l b by (simp add: process_ready_def st'_def typed_ahead_def kheap_ok_def)
  ultimately show ?thesis by blast
qed

lemma sint_scast_char: "sint (scast (c :: u8) :: u32) = sint c"
  by (simp add: sint_up_scast is_up)

interpretation kernel_user: user_machine "kernel_calls system ex" process_ready typed_ahead heap_live_set
proof
  fix w :: "('a, 'b) schedst_scheme" and c cs
  assume "process_ready w" "typed_ahead w = c # cs"
  from getkey_delivers [OF this]
  show "\<exists>w'. sys_getkey (kernel_calls system ex) w = (sint c, w') \<and> process_ready w' \<and> typed_ahead w' = cs"
    by (auto simp: kernel_calls_def sint_scast_char)
next
  fix w :: "('a, 'b) schedst_scheme"
  assume "process_ready w"
  then show "0 \<notin> set (typed_ahead w)" by (simp add: process_ready_def)
next
  fix w :: "('a, 'b) schedst_scheme" and c
  assume r: "process_ready w"
  let ?w = "terminal_print_char w c"
  have "same_keyboards w ?w"
    by (intro same_keyboards_eq term_more_sched) (simp_all add: terminal_print_char_def terminal_more)
  moreover have "kheap_ok ?w" using r by (simp add: process_ready_def kheap_ok_def terminal_print_char_def terminal_heap)
  ultimately show "process_ready (sys_putchar (kernel_calls system ex) c w) \<and>
      typed_ahead (sys_putchar (kernel_calls system ex) c w) = typed_ahead w"
    using ready_cong [OF r] by (simp add: kernel_calls_def)
next
  fix w :: "('a, 'b) schedst_scheme" and msg
  assume r: "process_ready w"
  show "process_ready (sys_print (kernel_calls system ex) msg w) \<and> typed_ahead (sys_print (kernel_calls system ex) msg w) = typed_ahead w"
  proof (cases "terminal_print w msg")
    case (Inr w')
    from terminal_print_frame [OF this] r have "same_keyboards w w'" "kheap_ok w'"
      by (auto intro!: same_keyboards_eq term_more_sched simp: process_ready_def kheap_ok_def)
    from ready_cong [OF r this] Inr show ?thesis by (simp add: kernel_calls_def)
  qed (use r in \<open>simp add: kernel_calls_def\<close>)
next
  fix w w' :: "('a, 'b) schedst_scheme" and n p
  assume r: "process_ready w" and m: "sys_malloc (kernel_calls system ex) n w = (p, w')"
  show "process_ready w' \<and> typed_ahead w' = typed_ahead w \<and> (if p = 0 then heap_live_set w' = heap_live_set w
      else p \<notin> heap_live_set w \<and> heap_live_set w' = insert p (heap_live_set w))"
  proof (cases "process_malloc w (current_process w) n")
    case (Inl e)
    with m r show ?thesis by (simp add: kernel_calls_def)
  next
    case (Inr x)
    with m have "process_malloc w (current_process w) n = Inr (p, w')" by (cases x) (simp add: kernel_calls_def)
    from process_malloc_effect [OF _ this] r ready_cong [OF r, of w'] show ?thesis
      by (auto simp: process_ready_def heap_live_set_def domIff)
  qed
qed

subsection \<open>Properties\<close>

lemma kernel_calls_system: "sys_system (kernel_calls system ex) = system"
  by (simp add: kernel_calls_def)

text \<open>C36: Reading a line through the kernel's keyboard queue always returns once Enter or the limit is among the characters
  typed ahead, and delivers exactly the edited line, terminated, leaving the rest of the input for the next call; each
  Backspace has removed one character. The buffer must be larger than the limit: where it is not, a line of full
  length makes the terminator an access outside it.\<close>

theorem readline_reads_typed_line:
  assumes "process_ready st" "edit_line m [] (typed_ahead st) = Some (l, rest)" "m \<le> length out"
  shows "if length l < length out
    then \<exists>out' st'. kernel_terminal_readline (kernel_calls system ex) st out m e = Some (Inr (out', st')) \<and>
      length out' = length out \<and> is_cstr out' \<and> cstr out' = l \<and> process_ready st' \<and> typed_ahead st' = rest
    else kernel_terminal_readline (kernel_calls system ex) st out m e = Some (Inl OutOfBounds)"
  by (rule kernel_user.readline [OF assms(2,1,3)])

definition typing :: "u8 list \<Rightarrow> sim_disk schedst" where
  "typing cs = shell_running\<lparr>proc_store := [0x5000 \<mapsto>
     task_struct_zero\<lparr>ts_keyboard := the (fold (\<lambda>c b. keyboard_push b c) cs empty_buffer)\<rparr>]\<rparr>"

lemma typing_ready:
  assumes "0 \<notin> set cs" "length cs \<le> 1024"
  shows "process_ready (typing cs)" "typed_ahead (typing cs) = cs"
proof -
  let ?b = "fold (\<lambda>c b. keyboard_push b c) cs empty_buffer"
  have a: "buffer_ok ?b" "buffer_contents ?b = cs"
    using ring.push_all [OF empty_buffer_ok(1) assms(1)] assms(2) empty_buffer_ok(2) by (simp_all add: kconfig)
  then obtain b where b: "?b = Some b" "buffer_ok (Some b)" "buffer_contents (Some b) = cs"
    by (cases ?b) (auto simp: buffer_ok_def)
  then show "process_ready (typing cs)" "typed_ahead (typing cs) = cs"
    using boot_schedst_ok(1) assms(1) by (simp_all add: typing_def process_ready_def typed_ahead_def shell_running_def kheap_ok_def)
qed

theorem readline_reads_typed_line_witness:
  "\<exists>out' st'. kernel_terminal_readline (kernel_calls (\<lambda>_ _ st. (0, st)) (\<lambda>_ st. st)) (typing [0x6C, 0x61, 8, 0x73, 13, 0x78]) (replicate 8 1) 7 True
     = Some (Inr (out', st')) \<and> cstr out' = [0x6C, 0x73] \<and> typed_ahead st' = [0x78]"
proof -
  have "edit_line 7 [] [0x6C, 0x61, 8, 0x73, 13, 0x78] = Some ([0x6C, 0x73], [0x78])" by (simp add: edit_line.simps)
  with typing_ready [of "[0x6C, 0x61, 8, 0x73, 13, 0x78]"]
    readline_reads_typed_line [of "typing [0x6C, 0x61, 8, 0x73, 13, 0x78]" 7 "[0x6C, 0x73]" "[0x78]" "replicate 8 1"
      "\<lambda>_ _ st. (0, st)" "\<lambda>_ st. st" True]
  show ?thesis by auto
qed

text \<open>A command line reaches the kernel as its words: \<open>kernel_parse_command\<close> never leaves its buffers and builds a chain of
  argument objects that holds, in order, the maximal runs of non-blank characters (each cut to 511 characters);
  only an allocation that fails makes the chain end early.\<close>

lemma parse_command_gives_words:
  assumes "user_machine sys ok pending live" "ok (world st)" "is_cstr command" "length scommand = 1025" "max_len < 1025"
  shows "\<exists>root st' k. kernel_parse_command sys st scommand command max_len = Inr (root, st') \<and> ok (world st') \<and>
    pending (world st') = pending (world st) \<and> arg_chain (arguments st') root (take k (words [32] (take 1024 (cstr command)))) \<and>
    (k < length (words [32] (take 1024 (cstr command))) \<longrightarrow> (\<exists>w. ok w \<and> sys_malloc sys 516 w = (0, world st')))"
  by (rule user_machine.parse_command_words [OF assms])

lemma parse_command_gives_words_witness:
  "\<exists>root st' k. kernel_parse_command (kernel_calls (\<lambda>_ _ st. (0, st)) (\<lambda>_ st. st)) \<lparr>world = typing [], arguments = Map.empty, itoa_text = []\<rparr>
     (replicate 1025 0) [0x20, 0x6C, 0x73, 0x20, 0x20, 0x61, 0] 7 = Inr (root, st') \<and>
     arg_chain (arguments st') root (take k [[0x6C, 0x73], [0x61]])"
proof -
  have w: "words [32] (take 1024 (cstr [0x20, 0x6C, 0x73, 0x20, 0x20, 0x61, 0])) = [[0x6C, 0x73], [0x61]]" by (simp add: words.simps)
  show ?thesis
    using parse_command_gives_words [OF kernel_user.user_machine_axioms, of "\<lparr>world = typing [], arguments = Map.empty, itoa_text = []\<rparr>"
        "[0x20, 0x6C, 0x73, 0x20, 0x20, 0x61, 0]" "replicate 1025 0" 7 "\<lambda>_ _ st. (0, st)" "\<lambda>_ st. st", unfolded w]
      typing_ready [of "[]"] by auto
qed



end
