(* ===== verification/Spec2Isabelle.thy ===== *)
theory Spec2Isabelle
  imports Kstring Phys_Mem Paging Keyboard Pparser Disk Fat16 Vfs Print Descriptor_Tables Kernel_Main User_Kernel
begin

text \<open>
  \<^bold>\<open>A verification of the LKA kernel.\<close>

  The repository is a small kernel for 32-bit x86 with a user library, a shell and a test program. The
  development translates its C code function by function into HOL and proves what the parts promise.

  \<^bold>\<open>The program.\<close> \<open>init/kernel.c\<close> brings the parts up in order: terminal, segment descriptors, kernel heap, file
  systems, disk, interrupt table, paging, keyboard, system calls. It then loads \<open>0:/shell.elf\<close> and enters it. From
  there on the kernel runs on interrupts: \<open>interrupt_handler\<close> (exceptions, keyboard) and \<open>isr80h_handler\<close> (system
  calls), which call processes, tasks, files and paging, which in turn call the heap.

  \<^bold>\<open>Conventions.\<close> Machine integers are words of their width (\<open>u8\<close>, \<open>u16\<close>, \<open>u32\<close>); \<open>int\<close> of C, where no
  overflow is in reach, is \<open>int\<close>. A pointer is a \<open>u32\<close>. Physical memory is the function \<open>kmem\<close> from addresses to bytes; structures that
  the hardware or a file lays out (page tables, ELF images, argument blocks) live in it, other objects live in
  stores indexed by their address, next to the heap block that holds them. A C function that changes state
  returns the new state. \<open>kresult\<close> is \<open>fault + 'a\<close>: a fault is a null dereference, an access outside an object, a
  page fault, a position beyond \<open>int\<close>, a call of \<open>panic\<close>, or a loop that never ends; status codes are ordinary results. The states form a chain of record
  extensions: \<open>kstate\<close> (memory and heap), \<open>pgstate\<close>, terminal, disk, file system, \<open>vfsst\<close>, \<open>schedst\<close>, \<open>kernelst\<close>,
  \<open>bootst\<close>; an operation of an early part is polymorphic in what later parts add.

  \<^bold>\<open>Theories\<close>, in the order of their imports:

  \<^item> \<open>Kernel_Prelude\<close>: types, faults, status codes (\<open>status.h\<close>), configuration (\<open>config.h\<close>), collections of simplification rules.
  \<^item> \<open>Allocator_Interface\<close>: the contract of an allocator as locales, with what clients derive from it.
  \<^item> \<open>Heap_Alloc\<close>: \<open>mm/heap.c\<close>. First fit search, marking, freeing; the table refines a map from block addresses to
    lengths; the interpretation of the allocator contract.
  \<^item> \<open>Kstring\<close>: \<open>lib/string.c\<close>. \<open>Phys_Mem\<close>: bytes and words in memory. \<open>Kheap\<close>: \<open>mm/kheap.c\<close>.
  \<^item> \<open>Paging\<close>: \<open>arch/x86/kernel/paging.c\<close>. New directories map every address to itself, \<open>paging_map_to\<close> maps what it says
    and nothing else, freeing returns the heap to its former state.
  \<^item> \<open>Keyboard\<close>: \<open>kernel/keyboard.c\<close> and \<open>driver/keyboard/classic.c\<close>. The ring buffer refines a bounded queue.
  \<^item> \<open>Pparser\<close>: \<open>fs/pparser.c\<close>. \<open>Print\<close>: \<open>lib/print.c\<close>. \<open>Descriptor_Tables\<close>: \<open>gdt.c\<close> and the gates of \<open>idt.c\<close>.
  \<^item> \<open>Disk\<close>: \<open>kernel/disk.c\<close> and \<open>kernel/streamer.c\<close>, against any controller that follows the ATA protocol. Sectors pass
    through a heap buffer in memory; the bytes for the caller's buffer are returned and stored by the caller.
  \<^item> \<open>Fat16\<close>, \<open>Fat16_Frame\<close>: \<open>fs/fat/fat16.c\<close>. The theorems on mounting speak of volumes whose root directory has an end
    marker and fits the heap, those on opening of files in slots the driver's search reaches. \<open>Vfs\<close>: \<open>fs/file.c\<close> over any driver, and \<open>disk_search_and_init\<close>.
  \<^item> \<open>Elf\<close>: \<open>fs/elf.c\<close> and \<open>fs/elfloader.c\<close>. \<open>Task\<close>: \<open>kernel/task.c\<close>. \<open>Sched\<close>: \<open>kernel/sched.c\<close> and \<open>task_next\<close>.
  \<^item> \<open>Isr80h\<close>: \<open>kernel/isr80h.c\<close> and the dispatch of \<open>idt.c\<close>. \<open>Kernel_Main\<close>: \<open>init/kernel.c\<close>.
  \<^item> \<open>User_Lib\<close>, \<open>User_Programs\<close>: \<open>programs/stdlib/src/*.c\<close>, \<open>programs/shell/shell.c\<close>, \<open>programs/blank/blank.c\<close>.
    The library agrees with the kernel's where both have a function.
  \<^item> \<open>User_Kernel\<close>: what the user library needs of the system calls (locale \<open>user_machine\<close>), that the kernel's functions
    provide it, and what the shell then does with what is typed.

  \<^bold>\<open>Parameters.\<close> The disk controller (\<open>port_io\<close>), the bytes the keyboard controller delivers, the addresses of assembly
  stubs and of static objects, the contents of uninitialised local arrays (\<open>residue\<close>) and, for user programs, the system calls
  (\<open>syscalls\<close>) are arguments. The predicate \<open>ata_device\<close> states what the disk driver relies on and is shown to hold of a
  simulated controller.

  \<^bold>\<open>Termination.\<close> Loops whose end depends on a device or on data structures in memory are partial functions in \<open>option\<close>,
  whose \<open>None\<close> is a loop that never ends; theorems about them say that they return. All other loops are total functions, with no fuel.

  \<^bold>\<open>Not modelled.\<close> Assembly (boot sector, port instructions, interrupt stubs, register restore, system call stubs), \<open>kernel_test\<close>
  (a self test that is never called), and reading a user pointer of a user process beyond the pages the kernel's own code touches.
\<close>

end
